(* ===== verification/Go_Base.thy ===== *)
theory Go_Base
  imports
    Main
    "HOL-Library.Char_ord"
    "HOL-Library.List_Lexorder"
    "HOL-Library.Sublist"
begin

text \<open>
  The prelude of the development. It holds the error values of the service and the result
  type every fallible operation returns, the parts of Go's standard library the sources use
  on strings (a Go string is a sequence of bytes, here a list of \<open>char\<close>; \<open>strings\<close>,
  \<open>unicode/utf8\<close>, \<open>path.Match\<close>), JSON values, and the generic list lemmas and
  theorem collections the component theories share.
\<close>

named_theorems tx_simps \<open>unfolding of transaction steps\<close>
named_theorems frame \<open>what an operation leaves unchanged\<close>

section \<open>Errors and results\<close>

text \<open>
  The error values of the service: \<open>domain.Error\<close> (\<open>Fault\<close>), \<open>store.ErrStale\<close>,
  \<open>pgx.ErrNoRows\<close>, a violated table constraint reported by PostgreSQL,
  \<open>store.CommitError\<close>, \<open>llm.ErrBudgetExceeded\<close>, the orchestrator's
  \<open>publishError\<close>, a cancelled context, a missing file (\<open>os.ErrNotExist\<close>) and any other \<open>fmt.Errorf\<close> value.
\<close>

datatype err =
    Fault int string string
  | ErrStale
  | ErrNoRows
  | ErrConstraint string
  | ErrCommit err
  | ErrBudgetExceeded
  | ErrPublish err
  | ErrCanceled
  | ErrNotExist
  | Errorf string
  | Wrapf string err

text \<open>The text \<open>Error()\<close> returns; that of a violated constraint is PostgreSQL's and is
  represented by the constraint's name.\<close>

primrec error_text :: "err \<Rightarrow> string" where
  "error_text (Fault status code message) = message"
| "error_text ErrStale = ''stale stage attempt''"
| "error_text ErrNoRows = ''no rows in result set''"
| "error_text (ErrConstraint name) = name"
| "error_text (ErrCommit e) = ''commit acknowledgement failed: '' @ error_text e"
| "error_text ErrBudgetExceeded = ''token budget exceeded''"
| "error_text (ErrPublish e) = error_text e"
| "error_text ErrCanceled = ''context canceled''"
| "error_text ErrNotExist = ''file does not exist''"
| "error_text (Errorf m) = m"
| "error_text (Wrapf m e) = m @ error_text e"

text \<open>
  The chain of wrapped errors that \<open>errors.Is\<close> and \<open>errors.As\<close> search; \<open>Wrapf\<close> is
  \<open>fmt.Errorf\<close> with a final \<open>%w\<close>.
\<close>

primrec unwrap_chain :: "err \<Rightarrow> err list" where
  "unwrap_chain (Fault status code message) = [Fault status code message]"
| "unwrap_chain ErrStale = [ErrStale]"
| "unwrap_chain ErrNoRows = [ErrNoRows]"
| "unwrap_chain (ErrConstraint name) = [ErrConstraint name]"
| "unwrap_chain (ErrCommit e) = ErrCommit e # unwrap_chain e"
| "unwrap_chain ErrBudgetExceeded = [ErrBudgetExceeded]"
| "unwrap_chain (ErrPublish e) = ErrPublish e # unwrap_chain e"
| "unwrap_chain ErrCanceled = [ErrCanceled]"
| "unwrap_chain ErrNotExist = [ErrNotExist]"
| "unwrap_chain (Errorf m) = [Errorf m]"
| "unwrap_chain (Wrapf m e) = Wrapf m e # unwrap_chain e"

definition errors_Is :: "err \<Rightarrow> err \<Rightarrow> bool" where
  "errors_Is e target \<longleftrightarrow> target \<in> set (unwrap_chain e)"

definition As_CommitError :: "err \<Rightarrow> bool" where
  "As_CommitError e \<longleftrightarrow> list_ex (\<lambda>x. case x of ErrCommit _ \<Rightarrow> True | _ \<Rightarrow> False) (unwrap_chain e)"

definition As_publishError :: "err \<Rightarrow> bool" where
  "As_publishError e \<longleftrightarrow> list_ex (\<lambda>x. case x of ErrPublish _ \<Rightarrow> True | _ \<Rightarrow> False) (unwrap_chain e)"

type_synonym 'a result = "err + 'a"

definition bindR :: "'a result \<Rightarrow> ('a \<Rightarrow> 'b result) \<Rightarrow> 'b result" where
  "bindR m f = (case m of Inl e \<Rightarrow> Inl e | Inr v \<Rightarrow> f v)"

lemma bindR_simps [simp]:
  "bindR (Inl e) f = Inl e"
  "bindR (Inr v) f = f v"
  by (simp_all add: bindR_def)

lemma bindR_eq_Inr: "bindR m f = Inr w \<longleftrightarrow> (\<exists>v. m = Inr v \<and> f v = Inr w)"
  by (cases m) simp_all

text \<open>\<open>for _, x := range xs { if e := f(x); e != nil { return e } }\<close>.\<close>

fun eachR :: "('a \<Rightarrow> unit result) \<Rightarrow> 'a list \<Rightarrow> unit result" where
  "eachR f [] = Inr ()"
| "eachR f (x # xs) = bindR (f x) (\<lambda>_. eachR f xs)"

lemma eachR_Inr: "eachR f xs = Inr u \<longleftrightarrow> (\<forall>x\<in>set xs. f x = Inr ())"
  by (induction xs) (auto simp: bindR_eq_Inr)

section \<open>Bytes, runes and the strings package\<close>

definition RuneError :: nat where
  "RuneError = 0xFFFD"

definition utf8_cont :: "nat \<Rightarrow> bool" where
  "utf8_cont b \<longleftrightarrow> 0x80 \<le> b \<and> b \<le> 0xBF"

text \<open>
  \<open>utf8.DecodeRuneInString\<close>: the first rune of a string and its width in bytes. Bytes that
  are no well-formed encoding decode to \<open>RuneError\<close> with width 1.
\<close>

definition DecodeRune :: "string \<Rightarrow> nat \<times> nat" where
  "DecodeRune s = (case map of_char s of
      [] \<Rightarrow> (RuneError, 0)
    | b0 # bs \<Rightarrow>
        if b0 < 0x80 then (b0, 1)
        else if 0xC2 \<le> b0 \<and> b0 \<le> 0xDF then
          (case bs of
             b1 # _ \<Rightarrow> if utf8_cont b1 then ((b0 - 0xC0) * 64 + (b1 - 0x80), 2) else (RuneError, 1)
           | [] \<Rightarrow> (RuneError, 1))
        else if 0xE0 \<le> b0 \<and> b0 \<le> 0xEF then
          (case bs of
             b1 # b2 # _ \<Rightarrow>
               if (if b0 = 0xE0 then 0xA0 else 0x80) \<le> b1 \<and> b1 \<le> (if b0 = 0xED then 0x9F else 0xBF)
                  \<and> utf8_cont b2
               then ((b0 - 0xE0) * 4096 + (b1 - 0x80) * 64 + (b2 - 0x80), 3) else (RuneError, 1)
           | _ \<Rightarrow> (RuneError, 1))
        else if 0xF0 \<le> b0 \<and> b0 \<le> 0xF4 then
          (case bs of
             b1 # b2 # b3 # _ \<Rightarrow>
               if (if b0 = 0xF0 then 0x90 else 0x80) \<le> b1 \<and> b1 \<le> (if b0 = 0xF4 then 0x8F else 0xBF)
                  \<and> utf8_cont b2 \<and> utf8_cont b3
               then ((b0 - 0xF0) * 262144 + (b1 - 0x80) * 4096 + (b2 - 0x80) * 64 + (b3 - 0x80), 4)
               else (RuneError, 1)
           | _ \<Rightarrow> (RuneError, 1))
        else (RuneError, 1))"

text \<open>The runes of a string, each with the bytes it was read from.\<close>

fun runes :: "string \<Rightarrow> (nat \<times> string) list" where
  "runes [] = []"
| "runes (c # cs) =
     (let (r, w) = DecodeRune (c # cs)
      in (r, c # take (w - 1) cs) # runes (drop (w - 1) cs))"

definition EncodeRune :: "nat \<Rightarrow> string" where
  "EncodeRune r = map char_of
     (if r < 0x80 then [r]
      else if r < 0x800 then [0xC0 + r div 64, 0x80 + r mod 64]
      else if 0xD800 \<le> r \<and> r \<le> 0xDFFF \<or> 0x10FFFF < r then [0xEF, 0xBF, 0xBD]
      else if r < 0x10000 then [0xE0 + r div 4096, 0x80 + (r div 64) mod 64, 0x80 + r mod 64]
      else [0xF0 + r div 262144, 0x80 + (r div 4096) mod 64, 0x80 + (r div 64) mod 64, 0x80 + r mod 64])"

text \<open>\<open>unicode.IsSpace\<close>.\<close>

definition IsSpace :: "nat \<Rightarrow> bool" where
  "IsSpace r \<longleftrightarrow> 9 \<le> r \<and> r \<le> 13 \<or> r = 32 \<or> r = 0x85 \<or> r = 0xA0 \<or> r = 0x1680
     \<or> 0x2000 \<le> r \<and> r \<le> 0x200A \<or> r = 0x2028 \<or> r = 0x2029 \<or> r = 0x202F \<or> r = 0x205F \<or> r = 0x3000"

definition TrimSpace :: "string \<Rightarrow> string" where
  "TrimSpace s =
     concat (map snd (rev (dropWhile (IsSpace \<circ> fst) (rev (dropWhile (IsSpace \<circ> fst) (runes s))))))"

text \<open>
  \<open>strings.ToLower\<close>. Besides \<open>A-Z\<close>, only U+0130 and U+212A (Kelvin sign) have an ASCII
  lower case; the other runes with case stay outside ASCII, and every comparison the sources
  make on a lowered string is with an ASCII literal, so they are left as they are here.
\<close>

definition lower_rune :: "nat \<Rightarrow> nat" where
  "lower_rune r = (if 65 \<le> r \<and> r \<le> 90 then r + 32
     else if r = 0x130 then 105 else if r = 0x212A then 107 else r)"

definition ToLower :: "string \<Rightarrow> string" where
  "ToLower s = concat (map (EncodeRune \<circ> lower_rune \<circ> fst) (runes s))"

definition HasPrefix :: "string \<Rightarrow> string \<Rightarrow> bool" where
  "HasPrefix s p \<longleftrightarrow> take (length p) s = p"

text \<open>\<open>strings.Split\<close> with a separator of one byte, and \<open>strings.Join\<close>.\<close>

fun Split :: "string \<Rightarrow> char \<Rightarrow> string list" where
  "Split [] c = [[]]"
| "Split (x # xs) c =
     (if x = c then [] # Split xs c
      else (case Split xs c of [] \<Rightarrow> [[x]] | p # ps \<Rightarrow> (x # p) # ps))"

fun Join :: "string list \<Rightarrow> string \<Rightarrow> string" where
  "Join [] sep = []"
| "Join [p] sep = p"
| "Join (p # q # ps) sep = p @ sep @ Join (q # ps) sep"

definition ContainsAny :: "string \<Rightarrow> string \<Rightarrow> bool" where
  "ContainsAny s chars \<longleftrightarrow> list_ex (\<lambda>c. c \<in> set chars) s"

text \<open>\<open>strings.Cut\<close> and \<open>strings.SplitN\<close> with a positive count and a separator that is not
  empty, \<open>strings.Contains\<close>.\<close>

fun Cut :: "string \<Rightarrow> string \<Rightarrow> (string \<times> string) option" where
  "Cut s sep =
     (if HasPrefix s sep then Some ([], drop (length sep) s)
      else (case s of [] \<Rightarrow> None
            | c # cs \<Rightarrow> (case Cut cs sep of None \<Rightarrow> None | Some (a, b) \<Rightarrow> Some (c # a, b))))"

declare Cut.simps [simp del]

fun SplitN :: "string \<Rightarrow> string \<Rightarrow> nat \<Rightarrow> string list" where
  "SplitN s sep 0 = []"
| "SplitN s sep (Suc 0) = [s]"
| "SplitN s sep (Suc n) = (case Cut s sep of None \<Rightarrow> [s] | Some (a, b) \<Rightarrow> a # SplitN b sep n)"

definition Contains :: "string \<Rightarrow> string \<Rightarrow> bool" where
  "Contains s sub \<longleftrightarrow> Cut s sub \<noteq> None"

text \<open>\<open>path.Match\<close> on patterns built from literal bytes and \<open>*\<close>.\<close>

fun Match :: "string \<Rightarrow> string \<Rightarrow> bool" where
  "Match [] [] = True"
| "Match [] (x # xs) = False"
| "Match (p # ps) [] = (p = CHR ''*'' \<and> Match ps [])"
| "Match (p # ps) (x # xs) =
     (if p = CHR ''*'' then Match ps (x # xs) \<or> (x \<noteq> CHR ''/'' \<and> Match (p # ps) xs)
      else p = x \<and> Match ps xs)"

text \<open>\<open>fmt\<close>'s \<open>%d\<close>.\<close>

fun digits :: "nat \<Rightarrow> string" where
  "digits n = (if n < 10 then [char_of (48 + n)] else digits (n div 10) @ [char_of (48 + n mod 10)])"

declare digits.simps [simp del]

definition show_int :: "int \<Rightarrow> string" where
  "show_int i = (if i < 0 then CHR ''-'' # digits (nat (- i)) else digits (nat i))"

section \<open>JSON values\<close>

datatype json =
    JNull
  | JBool bool
  | JInt int
  | JStr string
  | JArr "json list"
  | JObj "(string \<times> json) list"

definition jopt :: "string option \<Rightarrow> json" where
  "jopt s = (case s of None \<Rightarrow> JNull | Some v \<Rightarrow> JStr v)"

definition jget :: "json \<Rightarrow> string \<Rightarrow> json option" where
  "jget j k = (case j of JObj kvs \<Rightarrow> map_of kvs k | _ \<Rightarrow> None)"

text \<open>\<open>json.Unmarshal\<close> of a number or string member into a field: a missing member leaves the
  zero value.\<close>

definition jget_int :: "json \<Rightarrow> string \<Rightarrow> int" where
  "jget_int j k = (case jget j k of Some (JInt i) \<Rightarrow> i | _ \<Rightarrow> 0)"

definition jget_str :: "json \<Rightarrow> string \<Rightarrow> string" where
  "jget_str j k = (case jget j k of Some (JStr s) \<Rightarrow> s | _ \<Rightarrow> [])"

section \<open>Shared lemmas\<close>

lemma DecodeRune_width: "s \<noteq> [] \<Longrightarrow> 1 \<le> snd (DecodeRune s)"
  by (cases s) (auto simp: DecodeRune_def Let_def split: list.splits)

lemma concat_runes: "concat (map snd (runes s)) = s"
proof (induction s rule: runes.induct)
  case (2 c cs)
  obtain r w where rw: "DecodeRune (c # cs) = (r, w)" by fastforce
  from "2.IH" [OF rw [symmetric] refl] rw show ?case by simp
qed simp

lemma TrimSpace_Nil [simp]: "TrimSpace [] = []"
  by (simp add: TrimSpace_def)

lemma TrimSpace_subset: "set (TrimSpace s) \<subseteq> set s"
proof -
  have "set (TrimSpace s) \<subseteq> set (concat (map snd (runes s)))"
    by (auto simp: TrimSpace_def dest!: set_dropWhileD)
  then show ?thesis by (simp add: concat_runes)
qed

lemma Split_nonempty [simp]: "Split s c \<noteq> []"
  by (induction s) (auto split: list.splits)

lemma Split_no_sep: "p \<in> set (Split s c) \<Longrightarrow> c \<notin> set p"
proof (induction s arbitrary: p)
  case (Cons x xs)
  then show ?case by (cases "Split xs c") (auto split: if_splits)
qed auto

lemma Join_Split: "Join (Split s c) [c] = s"
proof (induction s)
  case (Cons x xs)
  obtain p ps where sp: "Split xs c = p # ps" by (cases "Split xs c") auto
  with Cons show ?case by (cases ps) auto
qed simp

lemma Split_append_sep: "Split (a @ c # b) c = Split a c @ Split b c"
proof (induction a)
  case (Cons x xs)
  obtain p ps where "Split xs c = p # ps" by (cases "Split xs c") auto
  with Cons show ?case by auto
qed simp

lemma Cut_Some: "Cut s sep = Some (a, b) \<Longrightarrow> s = a @ sep @ b"
proof (induction s sep arbitrary: a b rule: Cut.induct)
  case (1 s sep)
  show ?case
  proof (cases "HasPrefix s sep")
    case True
    with "1.prems" show ?thesis
      by (subst (asm) Cut.simps) (metis HasPrefix_def append_take_drop_id append_Nil option.inject prod.inject)
  next
    case False
    with "1.prems" obtain c cs a' where s: "s = c # cs" "Cut cs sep = Some (a', b)" "a = c # a'"
      by (subst (asm) Cut.simps) (auto split: list.splits option.splits)
    with "1.IH" [OF False s(1,2)] show ?thesis by simp
  qed
qed

lemma Cut_infix: "Cut s sep \<noteq> None \<longleftrightarrow> (\<exists>a b. s = a @ sep @ b)"
proof
  assume "Cut s sep \<noteq> None"
  then show "\<exists>a b. s = a @ sep @ b" using Cut_Some by fast
next
  assume "\<exists>a b. s = a @ sep @ b"
  then obtain a b where "s = a @ sep @ b" by blast
  then show "Cut s sep \<noteq> None"
  proof (induction a arbitrary: s)
    case Nil
    then show ?case by (simp add: Cut.simps HasPrefix_def)
  next
    case (Cons c a)
    then have "Cut (a @ sep @ b) sep \<noteq> None" by blast
    with Cons.prems show ?case by (subst Cut.simps) (auto split: option.splits)
  qed
qed

lemma Split_id: "c \<notin> set s \<Longrightarrow> Split s c = [s]"
  by (induction s) auto

text \<open>Rows of a table: \<open>update ... where P\<close> as a map, and what it leaves alone.\<close>

definition update_where :: "('r \<Rightarrow> bool) \<Rightarrow> ('r \<Rightarrow> 'r) \<Rightarrow> 'r list \<Rightarrow> 'r list" where
  "update_where P f rows = map (\<lambda>r. if P r then f r else r) rows"

lemma update_where_simps [simp]:
  "update_where P f [] = []"
  "update_where P f (r # rs) = (if P r then f r else r) # update_where P f rs"
  by (simp_all add: update_where_def)

lemma set_update_where: "set (update_where P f rows) = (\<lambda>r. if P r then f r else r) ` set rows"
  by (simp add: update_where_def)

lemma map_update_where:
  "(\<And>r. P r \<Longrightarrow> g (f r) = g r) \<Longrightarrow> map g (update_where P f rows) = map g rows"
  by (auto simp: update_where_def)

lemma length_update_where [simp]: "length (update_where P f rows) = length rows"
  by (simp add: update_where_def)

lemma update_where_none: "(\<And>r. r \<in> set rows \<Longrightarrow> \<not> P r) \<Longrightarrow> update_where P f rows = rows"
  by (induction rows) auto

lemma distinct_map_eqD:
  "distinct (map f xs) \<Longrightarrow> x \<in> set xs \<Longrightarrow> y \<in> set xs \<Longrightarrow> f x = f y \<Longrightarrow> x = y"
  by (meson distinct_map inj_onD)

lemma find_Some_iff_key:
  assumes "distinct (map f xs)"
  shows "find (\<lambda>x. f x = k) xs = Some y \<longleftrightarrow> y \<in> set xs \<and> f y = k"
  using assms by (induction xs) (auto simp: find_None_iff)

lemma length_filter_key:
  assumes "distinct (map f xs)"
  shows "length (filter (\<lambda>x. f x = k \<and> Q x) xs) = (if \<exists>x\<in>set xs. f x = k \<and> Q x then 1 else 0)"
  using assms
proof (induction xs)
  case (Cons a xs)
  have "filter (\<lambda>x. f x = k \<and> Q x) xs = []" if "f a = k"
    using Cons.prems that by (auto simp: filter_empty_conv image_iff)
  with Cons show ?case by (auto simp: image_iff)
qed simp

end
