(* ===== verification/Pipeline_Spec.thy ===== *)
theory Pipeline_Spec
  imports Go_Base "HOL-Library.Multiset"
begin

text \<open>
  The pipeline of a project (\<open>internal/pipeline/pipeline.go\<close>): the stages with their
  dependencies and approval gates, the policy, the validation \<open>ParsePipeline\<close> makes after the
  YAML decoder has filled the struct (the decoder is a parameter), and the levels of the
  dependency graph (\<open>Pipeline.Levels\<close>). Shown: what an accepted pipeline satisfies and that
  nothing else is accepted; that the levels list every stage once, each after its dependencies
  and as early as possible; that the loop always stops, and fails exactly on a cycle.
\<close>

text \<open>A Go slice that may be nil: \<open>None\<close> is nil, which the sources tell from an empty slice.\<close>

type_synonym 'a slice = "'a list option"

definition elems :: "'a slice \<Rightarrow> 'a list" where
  "elems xs = (case xs of None \<Rightarrow> [] | Some l \<Rightarrow> l)"

lemma elems_simps [simp]: "elems None = []" "elems (Some l) = l"
  by (simp_all add: elems_def)

record StageSpec =
  sp_ID :: string
  sp_Agent :: string
  sp_DependsOn :: "string slice"
  sp_Approvals :: "string slice"
  sp_Model :: string
  sp_Tools :: "string slice"

record Policy =
  MaxRetries :: int
  MaxIterations :: int
  DefaultModel :: string
  TokenBudget :: "int option"
  PR_Mode :: string
  PR_BaseBranch :: string

record Pipeline =
  pl_Version :: int
  pl_Stages :: "StageSpec list"
  pl_Policy :: Policy

definition zero_Policy :: Policy where
  "zero_Policy = \<lparr>MaxRetries = 0, MaxIterations = 0, DefaultModel = [], TokenBudget = None,
     PR_Mode = [], PR_BaseBranch = []\<rparr>"

definition zero_Pipeline :: Pipeline where
  "zero_Pipeline = \<lparr>pl_Version = 0, pl_Stages = [], pl_Policy = zero_Policy\<rparr>"

definition default_Pipeline :: Pipeline where
  "default_Pipeline = zero_Pipeline\<lparr>pl_Policy := zero_Policy\<lparr>MaxRetries := 3, MaxIterations := 40\<rparr>\<rparr>"

section \<open>Validation\<close>

definition is_lower :: "char \<Rightarrow> bool" where
  "is_lower c \<longleftrightarrow> CHR ''a'' \<le> c \<and> c \<le> CHR ''z''"

definition is_ident_char :: "char \<Rightarrow> bool" where
  "is_ident_char c \<longleftrightarrow> is_lower c \<or> CHR ''0'' \<le> c \<and> c \<le> CHR ''9'' \<or> c = CHR ''_''"

text \<open>\<open>regexp.MustCompile("^[a-z][a-z0-9_]*$")\<close>\<close>

definition is_identifier :: "string \<Rightarrow> bool" where
  "is_identifier s = (case s of [] \<Rightarrow> False | c # cs \<Rightarrow> is_lower c \<and> list_all is_ident_char cs)"

fun check_approvals :: "string \<Rightarrow> string list \<Rightarrow> string list \<Rightarrow> unit result" where
  "check_approvals sid seen [] = Inr ()"
| "check_approvals sid seen (kind # ks) =
     (if kind \<noteq> ''plan'' \<and> kind \<noteq> ''deliverable'' \<or> kind \<in> set seen
      then Inl (Errorf (''invalid approvals for '' @ sid))
      else check_approvals sid (kind # seen) ks)"

definition default_stage :: "StageSpec \<Rightarrow> StageSpec" where
  "default_stage s = s\<lparr>
     sp_Approvals := (if sp_Approvals s = None then Some [''plan'', ''deliverable''] else sp_Approvals s),
     sp_DependsOn := (if sp_DependsOn s = None then Some [] else sp_DependsOn s)\<rparr>"

fun check_stages :: "string list \<Rightarrow> StageSpec list \<Rightarrow> StageSpec list result" where
  "check_stages seen [] = Inr []"
| "check_stages seen (s # ss) =
     (if \<not> is_identifier (sp_ID s) \<or> sp_ID s = ''finalize'' \<or> \<not> is_identifier (sp_Agent s)
         \<or> sp_ID s \<in> set seen
      then Inl (Errorf (''invalid or duplicate stage/agent: '' @ sp_ID s))
      else bindR (check_approvals (sp_ID s) [] (elems (sp_Approvals s))) (\<lambda>_.
           bindR (check_stages (sp_ID s # seen) ss) (\<lambda>rest.
           Inr (default_stage s # rest))))"

fun check_deps :: "string list \<Rightarrow> string \<Rightarrow> string list \<Rightarrow> string list \<Rightarrow> unit result" where
  "check_deps ids sid deps [] = Inr ()"
| "check_deps ids sid deps (dep # ds) =
     (if dep \<notin> set ids \<or> dep = sid \<or> dep \<in> set deps
      then Inl (Errorf (''invalid dependency '' @ sid @ '' -> '' @ dep))
      else check_deps ids sid (dep # deps) ds)"

section \<open>Levels\<close>

abbreviation stage_ids :: "StageSpec list \<Rightarrow> string list" where
  "stage_ids ss \<equiv> map sp_ID ss"

definition next_level :: "StageSpec list \<Rightarrow> string list \<Rightarrow> string list" where
  "next_level ss finished =
     map sp_ID (filter (\<lambda>s. sp_ID s \<notin> set finished
        \<and> list_all (\<lambda>dep. dep \<in> set finished) (elems (sp_DependsOn s))) ss)"

lemma length_fold_insert: "length xs \<le> length (fold List.insert ys xs)"
proof (induction ys arbitrary: xs)
  case (Cons y ys)
  have "length xs \<le> length (List.insert y xs)" by (simp add: List.insert_def)
  also have "\<dots> \<le> length (fold List.insert ys (List.insert y xs))" by (rule Cons.IH)
  finally show ?case by simp
qed simp

lemma set_fold_insert [simp]: "set (fold List.insert ys xs) = set ys \<union> set xs"
  by (induction ys arbitrary: xs) auto

lemma distinct_fold_insert [simp]: "distinct (fold List.insert ys xs) \<longleftrightarrow> distinct xs"
  by (induction ys arbitrary: xs) (auto simp: distinct_insert)

lemma fold_insert_grows:
  assumes "ys \<noteq> []" and "set ys \<inter> set xs = {}"
  shows "length xs < length (fold List.insert ys xs)"
proof -
  obtain y zs where y: "ys = y # zs" using assms(1) by (cases ys) auto
  have "length xs < length (List.insert y xs)" using assms(2) y by (simp add: List.insert_def)
  also have "\<dots> \<le> length (fold List.insert zs (List.insert y xs))" by (rule length_fold_insert)
  finally show ?thesis by (simp add: y)
qed

lemma next_level_fresh: "set (next_level ss finished) \<inter> set finished = {}"
  by (auto simp: next_level_def)

function levels_loop :: "StageSpec list \<Rightarrow> string list \<Rightarrow> string list list \<Rightarrow> string list list result" where
  "levels_loop ss finished out =
     (if length finished < length ss then
        (let level = next_level ss finished in
         if level = [] then Inl (Errorf ''pipeline contains a cycle'')
         else levels_loop ss (fold List.insert (sort level) finished) (out @ [sort level]))
      else Inr out)"
  by pat_completeness auto
termination
proof (relation "measure (\<lambda>(ss, finished, out). length ss - length finished)", goal_cases)
  case (2 ss finished out level)
  have "length finished < length (fold List.insert (sort level) finished)"
    by (rule fold_insert_grows) (use 2 next_level_fresh [of ss finished] in \<open>auto simp flip: set_empty\<close>)
  with 2 show ?case by simp
qed simp

declare levels_loop.simps [simp del]

definition Levels :: "Pipeline \<Rightarrow> string list list result" where
  "Levels p = levels_loop (pl_Stages p) [] []"

definition ParsePipeline :: "(string \<Rightarrow> Pipeline \<Rightarrow> Pipeline result) \<Rightarrow> string \<Rightarrow> Pipeline result" where
  "ParsePipeline unmarshal data =
     bindR (unmarshal data default_Pipeline) (\<lambda>p.
       let pol = pl_Policy p in
       if pl_Version p \<noteq> 1 \<or> pl_Stages p = []
       then Inl (Errorf ''pipeline requires version: 1 and at least one stage'')
       else if MaxRetries pol < 1 \<or> 10 < MaxRetries pol \<or> MaxIterations pol < 1 \<or> 500 < MaxIterations pol
       then Inl (Errorf ''invalid retry or iteration limit'')
       else if (case TokenBudget pol of None \<Rightarrow> False | Some b \<Rightarrow> b < 1)
       then Inl (Errorf ''invalid token_budget'')
       else if PR_Mode pol \<noteq> [] \<and> PR_Mode pol \<noteq> ''per-role'' \<and> PR_Mode pol \<noteq> ''single''
       then Inl (Errorf ''invalid pr mode'')
       else
         bindR (check_stages [] (pl_Stages p)) (\<lambda>stages.
         bindR (eachR (\<lambda>s. check_deps (stage_ids stages) (sp_ID s) [] (elems (sp_DependsOn s))) stages) (\<lambda>_.
         let q = p\<lparr>pl_Stages := stages\<rparr> in
         bindR (Levels q) (\<lambda>_. Inr q))))"

section \<open>The dependency graph\<close>

text \<open>\<open>(d, s)\<close>: stage \<open>s\<close> depends on \<open>d\<close>.\<close>

definition dep_rel :: "StageSpec list \<Rightarrow> (string \<times> string) set" where
  "dep_rel ss = {(d, sp_ID s) | d s. s \<in> set ss \<and> d \<in> set (elems (sp_DependsOn s))}"

definition deps_closed :: "StageSpec list \<Rightarrow> bool" where
  "deps_closed ss \<longleftrightarrow> (\<forall>s\<in>set ss. set (elems (sp_DependsOn s)) \<subseteq> set (stage_ids ss))"

text \<open>What the levels promise, for a prefix \<open>out\<close> of them: nonempty and sorted, every stage
  after all of its dependencies, and not later than needed.\<close>

definition layered :: "StageSpec list \<Rightarrow> string list list \<Rightarrow> bool" where
  "layered ss out \<longleftrightarrow>
     (\<forall>l\<in>set out. l \<noteq> [] \<and> sorted l) \<and>
     (\<forall>i<length out. \<forall>s\<in>set ss. sp_ID s \<in> set (out ! i) \<longrightarrow>
        set (elems (sp_DependsOn s)) \<subseteq> set (concat (take i out)) \<and>
        (0 < i \<longrightarrow> set (elems (sp_DependsOn s)) \<inter> set (out ! (i - 1)) \<noteq> {}))"

lemma layered_Nil [simp]: "layered ss []"
  by (simp add: layered_def)

text \<open>The loop's invariant: \<open>finished\<close> holds the ids of the levels so far, and no stage outside
  them was ready before the last level was added.\<close>

definition loop_inv :: "StageSpec list \<Rightarrow> string list \<Rightarrow> string list list \<Rightarrow> bool" where
  "loop_inv ss finished out \<longleftrightarrow>
     distinct finished \<and> set finished = set (concat out) \<and> set finished \<subseteq> set (stage_ids ss) \<and>
     distinct (concat out) \<and> layered ss out \<and>
     (\<forall>s\<in>set ss. sp_ID s \<notin> set finished \<longrightarrow> out \<noteq> [] \<longrightarrow>
        \<not> set (elems (sp_DependsOn s)) \<subseteq> set (concat (butlast out)))"

lemma set_next_level:
  "x \<in> set (next_level ss finished) \<longleftrightarrow>
     (\<exists>s\<in>set ss. sp_ID s = x \<and> x \<notin> set finished \<and> set (elems (sp_DependsOn s)) \<subseteq> set finished)"
  by (auto simp: next_level_def list_all_iff)

lemma distinct_next_level: "distinct (stage_ids ss) \<Longrightarrow> distinct (next_level ss finished)"
  by (simp add: next_level_def distinct_map_filter)

lemma layered_snoc:
  assumes ss: "distinct (stage_ids ss)" and inv: "loop_inv ss finished out"
    and ne: "next_level ss finished \<noteq> []"
  shows "layered ss (out @ [sort (next_level ss finished)])"
proof -
  let ?l = "next_level ss finished"
  have done_eq: "set finished = set (concat out)" and lay: "layered ss out"
    using inv by (auto simp: loop_inv_def)
  have new: "set (elems (sp_DependsOn s)) \<subseteq> set (concat out) \<and>
      (out \<noteq> [] \<longrightarrow> set (elems (sp_DependsOn s)) \<inter> set (last out) \<noteq> {})"
    if s: "s \<in> set ss" "sp_ID s \<in> set ?l" for s
  proof -
    obtain s' where s': "s' \<in> set ss" "sp_ID s' = sp_ID s" "sp_ID s \<notin> set finished"
      "set (elems (sp_DependsOn s')) \<subseteq> set finished"
      using s(2) by (auto simp: set_next_level)
    have "s' = s" using distinct_map_eqD [OF ss s'(1) s(1) s'(2)] .
    with s' have sub: "set (elems (sp_DependsOn s)) \<subseteq> set (concat out)" by (simp add: done_eq)
    moreover have "set (elems (sp_DependsOn s)) \<inter> set (last out) \<noteq> {}" if "out \<noteq> []"
    proof -
      have "concat out = concat (butlast out) @ last out"
        using that by (metis append_butlast_last_id concat.simps(1,2) concat_append append_Nil2)
      moreover have "\<not> set (elems (sp_DependsOn s)) \<subseteq> set (concat (butlast out))"
        using inv s(1) s'(3) that by (simp add: loop_inv_def)
      ultimately show ?thesis using sub by auto
    qed
    ultimately show ?thesis by blast
  qed
  show ?thesis
    unfolding layered_def
  proof (intro conjI allI impI ballI)
    fix i s assume "i < length (out @ [sort ?l])" "s \<in> set ss"
      "sp_ID s \<in> set ((out @ [sort ?l]) ! i)"
    then show "set (elems (sp_DependsOn s)) \<subseteq> set (concat (take i (out @ [sort ?l])))"
      using lay new by (cases "i < length out") (auto simp: layered_def nth_append less_Suc_eq)
  next
    fix i s assume i: "i < length (out @ [sort ?l])" "s \<in> set ss"
      "sp_ID s \<in> set ((out @ [sort ?l]) ! i)" "0 < i"
    show "set (elems (sp_DependsOn s)) \<inter> set ((out @ [sort ?l]) ! (i - 1)) \<noteq> {}"
    proof (cases "i < length out")
      case True
      with i lay have "set (elems (sp_DependsOn s)) \<inter> set (out ! (i - 1)) \<noteq> {}"
        by (simp add: layered_def nth_append)
      with True show ?thesis by (simp add: nth_append less_imp_diff_less)
    next
      case False
      with i have "i = length out" "out \<noteq> []" by auto
      with i new show ?thesis by (auto simp: nth_append last_conv_nth)
    qed
  next
    fix l assume "l \<in> set (out @ [sort ?l])"
    moreover have "sort ?l \<noteq> []" using ne by (metis length_0_conv length_sort)
    ultimately show "l \<noteq> []" "sorted l" using lay by (auto simp: layered_def)
  qed
qed

lemma loop_inv_step:
  assumes ss: "distinct (stage_ids ss)" and inv: "loop_inv ss finished out"
    and ne: "next_level ss finished \<noteq> []"
  shows "loop_inv ss (fold List.insert (sort (next_level ss finished)) finished)
           (out @ [sort (next_level ss finished)])"
proof -
  let ?l = "next_level ss finished"
  have "\<not> set (elems (sp_DependsOn s)) \<subseteq> set (concat out)"
    if "s \<in> set ss" "sp_ID s \<notin> set finished" "sp_ID s \<notin> set ?l" for s
    using that inv by (auto simp: set_next_level loop_inv_def)
  moreover have "layered ss (out @ [sort ?l])" by (rule layered_snoc [OF assms])
  moreover have "set ?l \<subseteq> set (stage_ids ss)" by (auto simp: set_next_level)
  moreover have "set ?l \<inter> set finished = {}" by (rule next_level_fresh)
  ultimately show ?thesis
    using inv distinct_next_level [OF ss, of finished] by (auto simp: loop_inv_def)
qed

lemma levels_loop_sound:
  assumes "distinct (stage_ids ss)" "loop_inv ss finished out" "levels_loop ss finished out = Inr ls"
  shows "\<exists>finished'. loop_inv ss finished' ls \<and> length ss \<le> length finished'"
  using assms
proof (induction ss finished out rule: levels_loop.induct)
  case (1 ss finished out)
  show ?case
  proof (cases "length finished < length ss")
    case True
    let ?l = "next_level ss finished"
    from True "1.prems"(3) have ne: "?l \<noteq> []"
      and eq: "levels_loop ss (fold List.insert (sort ?l) finished) (out @ [sort ?l]) = Inr ls"
      by (auto simp: levels_loop.simps [of ss finished out] Let_def split: if_splits)
    show ?thesis
      by (rule "1.IH" [OF True refl ne "1.prems"(1) loop_inv_step [OF "1.prems"(1,2) ne] eq])
  next
    case False
    with "1.prems" show ?thesis
      by (intro exI [of _ finished]) (auto simp: levels_loop.simps [of ss finished out])
  qed
qed

lemma loop_inv_Nil: "loop_inv ss [] []"
  by (simp add: loop_inv_def)

lemma loop_inv_full:
  assumes "distinct (stage_ids ss)" "loop_inv ss finished ls" "length ss \<le> length finished"
  shows "set (concat ls) = set (stage_ids ss)"
proof -
  have sub: "set finished \<subseteq> set (stage_ids ss)" and d: "distinct finished"
    and eq: "set finished = set (concat ls)"
    using assms(2) by (auto simp: loop_inv_def)
  have "card (set (stage_ids ss)) \<le> card (set finished)"
    using assms(1,3) d distinct_card by (metis length_map)
  then have "set finished = set (stage_ids ss)"
    using sub by (simp add: card_subset_eq card_mono le_antisym)
  with eq show ?thesis by simp
qed

lemma levels_sound:
  assumes d: "distinct (stage_ids (pl_Stages p))" and ok: "Levels p = Inr ls"
  shows "mset (concat ls) = mset (stage_ids (pl_Stages p)) \<and> layered (pl_Stages p) ls"
proof -
  obtain finished where inv: "loop_inv (pl_Stages p) finished ls"
    and full: "length (pl_Stages p) \<le> length finished"
    using levels_loop_sound [OF d loop_inv_Nil] ok by (auto simp: Levels_def)
  have "set (concat ls) = set (stage_ids (pl_Stages p))" by (rule loop_inv_full [OF d inv full])
  moreover have "distinct (concat ls)" using inv by (simp add: loop_inv_def)
  ultimately show ?thesis
    using d inv by (metis set_eq_iff_mset_eq_distinct loop_inv_def)
qed

text \<open>Acyclic graphs never get stuck, and stuck graphs have a cycle.\<close>

lemma next_level_progress:
  assumes ss: "distinct (stage_ids ss)" "deps_closed ss" "acyclic (dep_rel ss)"
    and inv: "set finished \<subseteq> set (stage_ids ss)" "distinct finished" "length finished < length ss"
  shows "next_level ss finished \<noteq> []"
proof -
  let ?R = "set (stage_ids ss) - set finished"
  have "card (set finished) < card (set (stage_ids ss))"
    using distinct_card [OF ss(1)] distinct_card [OF inv(2)] inv(3) by simp
  then obtain x where x: "x \<in> ?R" by (metis DiffI card_mono finite_set leD subsetI)
  have "finite (dep_rel ss)"
  proof (rule finite_subset)
    show "dep_rel ss \<subseteq> (\<Union>s\<in>set ss. set (elems (sp_DependsOn s)) \<times> {sp_ID s})"
      by (auto simp: dep_rel_def)
  qed simp
  then have "wf (dep_rel ss)" using ss(3) by (rule finite_acyclic_wf)
  then obtain m where m: "m \<in> ?R" "\<And>y. (y, m) \<in> dep_rel ss \<Longrightarrow> y \<notin> ?R"
    using wfE_min [OF _ x] by metis
  from m(1) obtain s where s: "s \<in> set ss" "sp_ID s = m" by auto
  have "set (elems (sp_DependsOn s)) \<subseteq> set finished"
    using m(2) s ss(2) by (fastforce simp: dep_rel_def deps_closed_def)
  then have "m \<in> set (next_level ss finished)"
    using s m(1) by (auto simp: set_next_level)
  then show ?thesis by auto
qed

lemma levels_loop_complete:
  assumes "distinct (stage_ids ss)" "deps_closed ss" "acyclic (dep_rel ss)" "loop_inv ss finished out"
  shows "\<exists>ls. levels_loop ss finished out = Inr ls"
  using assms
proof (induction ss finished out rule: levels_loop.induct)
  case (1 ss finished out)
  show ?case
  proof (cases "length finished < length ss")
    case True
    have ne: "next_level ss finished \<noteq> []"
      using next_level_progress [OF "1.prems"(1-3) _ _ True] "1.prems"(4) by (auto simp: loop_inv_def)
    from "1.IH" [OF True refl ne "1.prems"(1-3) loop_inv_step [OF "1.prems"(1,4) ne]] True ne
    show ?thesis by (simp add: levels_loop.simps [of ss finished out] Let_def)
  next
    case False
    then show ?thesis by (simp add: levels_loop.simps [of ss finished out])
  qed
qed

lemma layered_acyclic:
  assumes lay: "layered ss ls" and all: "set (stage_ids ss) \<subseteq> set (concat ls)"
    and dist: "distinct (concat ls)"
  shows "acyclic (dep_rel ss)"
proof -
  define rank where "rank x = (LEAST i. i < length ls \<and> x \<in> set (ls ! i))" for x
  have rank: "rank x < length ls \<and> x \<in> set (ls ! rank x)" if "x \<in> set (concat ls)" for x
  proof -
    from that obtain l where "l \<in> set ls" "x \<in> set l" by auto
    then have "\<exists>i. i < length ls \<and> x \<in> set (ls ! i)" by (metis in_set_conv_nth)
    then show ?thesis unfolding rank_def by (rule LeastI_ex)
  qed
  have "dep_rel ss \<subseteq> measure rank"
  proof
    fix e assume "e \<in> dep_rel ss"
    then obtain d s where e: "e = (d, sp_ID s)" "s \<in> set ss" "d \<in> set (elems (sp_DependsOn s))"
      by (auto simp: dep_rel_def)
    let ?i = "rank (sp_ID s)"
    have "sp_ID s \<in> set (concat ls)" using e(2) all by auto
    then have "?i < length ls" "sp_ID s \<in> set (ls ! ?i)" using rank by blast+
    with lay e(2) have "set (elems (sp_DependsOn s)) \<subseteq> set (concat (take ?i ls))"
      by (simp add: layered_def)
    with e(3) have "d \<in> set (concat (take ?i ls))" by blast
    then obtain l where l: "l \<in> set (take ?i ls)" "d \<in> set l" by auto
    from l(1) obtain j where "j < length (take ?i ls)" "take ?i ls ! j = l"
      by (auto simp: in_set_conv_nth)
    with l(2) have j: "j < ?i" "j < length ls" "d \<in> set (ls ! j)" by auto
    have "rank d \<le> j" unfolding rank_def by (rule Least_le) (use j in auto)
    with j(1) e(1) show "e \<in> measure rank" by simp
  qed
  then show ?thesis by (meson acyclic_subset wf_acyclic wf_measure)
qed

lemma Levels_Inr_iff_acyclic:
  assumes d: "distinct (stage_ids (pl_Stages p))" and c: "deps_closed (pl_Stages p)"
  shows "(\<exists>ls. Levels p = Inr ls) \<longleftrightarrow> acyclic (dep_rel (pl_Stages p))"
proof
  assume "\<exists>ls. Levels p = Inr ls"
  then obtain ls where "Levels p = Inr ls" ..
  from levels_sound [OF d this] have ms: "mset (concat ls) = mset (stage_ids (pl_Stages p))"
    and lay: "layered (pl_Stages p) ls" by auto
  have "distinct (concat ls)" using d ms by (metis mset_eq_imp_distinct_iff)
  moreover have "set (stage_ids (pl_Stages p)) \<subseteq> set (concat ls)"
    using mset_eq_setD [OF ms] by simp
  ultimately show "acyclic (dep_rel (pl_Stages p))" using layered_acyclic [OF lay] by blast
next
  assume "acyclic (dep_rel (pl_Stages p))"
  from levels_loop_complete [OF d c this loop_inv_Nil]
  show "\<exists>ls. Levels p = Inr ls" by (simp add: Levels_def)
qed

lemma Levels_Inl: "Levels p = Inl e \<Longrightarrow> e = Errorf ''pipeline contains a cycle''"
proof -
  have "levels_loop ss finished out = Inl e \<Longrightarrow> e = Errorf ''pipeline contains a cycle''"
    for ss finished out
    by (induction ss finished out rule: levels_loop.induct)
      (subst (asm) (2) levels_loop.simps, auto simp: Let_def split: if_splits)
  then show "Levels p = Inl e \<Longrightarrow> e = Errorf ''pipeline contains a cycle''"
    by (simp add: Levels_def)
qed

section \<open>What ParsePipeline accepts\<close>

definition valid_stage :: "string list \<Rightarrow> StageSpec \<Rightarrow> bool" where
  "valid_stage ids s \<longleftrightarrow>
     is_identifier (sp_ID s) \<and> sp_ID s \<noteq> ''finalize'' \<and> is_identifier (sp_Agent s) \<and>
     set (elems (sp_Approvals s)) \<subseteq> {''plan'', ''deliverable''} \<and> distinct (elems (sp_Approvals s)) \<and>
     set (elems (sp_DependsOn s)) \<subseteq> set ids - {sp_ID s} \<and> distinct (elems (sp_DependsOn s))"

definition valid_policy :: "Policy \<Rightarrow> bool" where
  "valid_policy pol \<longleftrightarrow>
     1 \<le> MaxRetries pol \<and> MaxRetries pol \<le> 10 \<and> 1 \<le> MaxIterations pol \<and> MaxIterations pol \<le> 500 \<and>
     (case TokenBudget pol of None \<Rightarrow> True | Some b \<Rightarrow> 1 \<le> b) \<and>
     PR_Mode pol \<in> {[], ''per-role'', ''single''}"

text \<open>The documented shape of a pipeline: a DAG of distinctly named stages within the limits.\<close>

definition valid_pipeline :: "Pipeline \<Rightarrow> bool" where
  "valid_pipeline p \<longleftrightarrow>
     pl_Version p = 1 \<and> pl_Stages p \<noteq> [] \<and> valid_policy (pl_Policy p) \<and>
     distinct (stage_ids (pl_Stages p)) \<and>
     (\<forall>s\<in>set (pl_Stages p). valid_stage (stage_ids (pl_Stages p)) s) \<and>
     acyclic (dep_rel (pl_Stages p))"

lemma check_approvals_Inr:
  "check_approvals sid seen ks = Inr u \<longleftrightarrow>
     set ks \<subseteq> {''plan'', ''deliverable''} \<and> distinct ks \<and> set ks \<inter> set seen = {}"
  by (induction sid seen ks rule: check_approvals.induct) auto

lemma check_deps_Inr:
  "check_deps ids sid deps ds = Inr u \<longleftrightarrow>
     set ds \<subseteq> set ids - {sid} \<and> distinct ds \<and> set ds \<inter> set deps = {}"
  by (induction ids sid deps ds rule: check_deps.induct) auto

lemma check_stages_Inr:
  "check_stages seen ss = Inr r \<longleftrightarrow>
     r = map default_stage ss \<and> distinct (stage_ids ss) \<and> set (stage_ids ss) \<inter> set seen = {} \<and>
     (\<forall>s\<in>set ss. is_identifier (sp_ID s) \<and> sp_ID s \<noteq> ''finalize'' \<and> is_identifier (sp_Agent s) \<and>
        set (elems (sp_Approvals s)) \<subseteq> {''plan'', ''deliverable''} \<and> distinct (elems (sp_Approvals s)))"
proof (induction seen ss arbitrary: r rule: check_stages.induct)
  case (2 seen s ss)
  show ?case
    by (auto simp: bindR_eq_Inr check_approvals_Inr "2.IH" simp del: check_approvals.simps)
qed auto

lemma default_stage_simps [simp]:
  "sp_ID (default_stage s) = sp_ID s"
  "sp_Agent (default_stage s) = sp_Agent s"
  "elems (sp_DependsOn (default_stage s)) = elems (sp_DependsOn s)"
  "sp_Approvals (default_stage s) \<noteq> None"
  "sp_DependsOn (default_stage s) \<noteq> None"
  by (simp_all add: default_stage_def)

lemma stage_ids_default [simp]: "stage_ids (map default_stage ss) = stage_ids ss"
  by (simp add: comp_def)

lemma dep_rel_default [simp]: "dep_rel (map default_stage ss) = dep_rel ss"
proof -
  have "dep_rel xs = (\<Union>s\<in>set xs. set (elems (sp_DependsOn s)) \<times> {sp_ID s})" for xs
    by (auto simp: dep_rel_def)
  then show ?thesis by simp
qed

lemma valid_deps_closed:
  "(\<And>s. s \<in> set ss \<Longrightarrow> set (elems (sp_DependsOn s)) \<subseteq> set (stage_ids ss) - {sp_ID s}) \<Longrightarrow> deps_closed ss"
  by (auto simp: deps_closed_def)

lemma ParsePipeline_head:
  assumes "unmarshal data default_Pipeline = Inr q"
  shows "ParsePipeline unmarshal data = Inr p \<longleftrightarrow>
    pl_Version q = 1 \<and> pl_Stages q \<noteq> [] \<and> valid_policy (pl_Policy q) \<and>
    (\<exists>stages. check_stages [] (pl_Stages q) = Inr stages \<and>
       eachR (\<lambda>s. check_deps (stage_ids stages) (sp_ID s) [] (elems (sp_DependsOn s))) stages = Inr () \<and>
       (\<exists>ls. Levels (q\<lparr>pl_Stages := stages\<rparr>) = Inr ls) \<and> p = q\<lparr>pl_Stages := stages\<rparr>)"
proof -
  have pol: "valid_policy pol \<longleftrightarrow>
      \<not> (MaxRetries pol < 1 \<or> 10 < MaxRetries pol \<or> MaxIterations pol < 1 \<or> 500 < MaxIterations pol) \<and>
      \<not> (case TokenBudget pol of None \<Rightarrow> False | Some b \<Rightarrow> b < 1) \<and>
      \<not> (PR_Mode pol \<noteq> [] \<and> PR_Mode pol \<noteq> ''per-role'' \<and> PR_Mode pol \<noteq> ''single'')" for pol
    by (auto simp: valid_policy_def split: option.splits)
  show ?thesis
    unfolding ParsePipeline_def assms bindR_simps Let_def pol
    by (simp add: bindR_eq_Inr) blast
qed

lemma ParsePipeline_Inr:
  "ParsePipeline unmarshal data = Inr p \<longleftrightarrow>
     (\<exists>q. unmarshal data default_Pipeline = Inr q \<and> valid_pipeline q \<and>
        p = q\<lparr>pl_Stages := map default_stage (pl_Stages q)\<rparr>)"
proof (cases "unmarshal data default_Pipeline")
  case (Inr q)
  let ?ss = "pl_Stages q"
  let ?q = "q\<lparr>pl_Stages := map default_stage ?ss\<rparr>"
  have lev: "(\<exists>ls. Levels ?q = Inr ls) \<longleftrightarrow> acyclic (dep_rel ?ss)"
    if "distinct (stage_ids ?ss)" "\<forall>s\<in>set ?ss. set (elems (sp_DependsOn s)) \<subseteq> set (stage_ids ?ss) - {sp_ID s}"
  proof -
    have "deps_closed (pl_Stages ?q)" using that(2) by (auto simp: deps_closed_def)
    with that(1) show ?thesis using Levels_Inr_iff_acyclic [of ?q] by (simp add: comp_def)
  qed
  have "ParsePipeline unmarshal data = Inr p \<longleftrightarrow> valid_pipeline q \<and> p = ?q"
    unfolding ParsePipeline_head [of unmarshal data, OF Inr] check_stages_Inr eachR_Inr check_deps_Inr
      valid_pipeline_def valid_stage_def
    using lev by (simp add: comp_def image_image ball_conj_distrib) blast
  then show ?thesis by (simp add: Inr)
qed (simp add: ParsePipeline_def)

section \<open>Properties\<close>

text \<open>
  C15. \<open>ParsePipeline\<close> accepts a document exactly when the decoder does and the decoded pipeline
  has the documented shape: version 1, limits in range, distinct and well-formed stage names,
  known approval kinds, dependencies on other stages only, and no cycle. It then returns that
  pipeline with the defaults filled in.
\<close>

theorem parse_accepts_exactly:
  "ParsePipeline unmarshal data = Inr p \<longleftrightarrow>
     (\<exists>q. unmarshal data default_Pipeline = Inr q \<and> valid_pipeline q \<and>
        p = q\<lparr>pl_Stages := map default_stage (pl_Stages q)\<rparr>)"
  by (rule ParsePipeline_Inr)

text \<open>
  C16. \<open>Levels\<close> always returns. On an acyclic graph it returns levels that list every stage once,
  each sorted, every stage after all of its dependencies and no later than one level after the
  last of them; on a cyclic graph it returns the cycle error.
\<close>

theorem levels_or_cycle:
  assumes "distinct (stage_ids (pl_Stages p))" "deps_closed (pl_Stages p)"
  shows "if acyclic (dep_rel (pl_Stages p))
    then \<exists>ls. Levels p = Inr ls \<and> mset (concat ls) = mset (stage_ids (pl_Stages p)) \<and> layered (pl_Stages p) ls
    else Levels p = Inl (Errorf ''pipeline contains a cycle'')"
proof (cases "Levels p")
  case (Inl e)
  with Levels_Inl [OF Inl] show ?thesis using Levels_Inr_iff_acyclic [OF assms] by simp
next
  case (Inr ls)
  with levels_sound [OF assms(1) Inr] show ?thesis using Levels_Inr_iff_acyclic [OF assms] by auto
qed

theorem levels_or_cycle_witness:
  "\<exists>ls. Levels (zero_Pipeline\<lparr>pl_Stages :=
       [\<lparr>sp_ID = ''b'', sp_Agent = ''x'', sp_DependsOn = Some [''a''], sp_Approvals = None, sp_Model = [], sp_Tools = None\<rparr>,
        \<lparr>sp_ID = ''a'', sp_Agent = ''x'', sp_DependsOn = None, sp_Approvals = None, sp_Model = [], sp_Tools = None\<rparr>]\<rparr>) = Inr ls \<and>
     mset (concat ls) = {#''b'', ''a''#}"
proof -
  let ?ss = "[\<lparr>sp_ID = ''b'', sp_Agent = ''x'', sp_DependsOn = Some [''a''], sp_Approvals = None, sp_Model = [], sp_Tools = None\<rparr>,
    \<lparr>sp_ID = ''a'', sp_Agent = ''x'', sp_DependsOn = None, sp_Approvals = None, sp_Model = [], sp_Tools = None\<rparr>]"
  let ?p = "zero_Pipeline\<lparr>pl_Stages := ?ss\<rparr>"
  have "dep_rel (pl_Stages ?p) \<subseteq> {(''a'', ''b'')}" by (auto simp: dep_rel_def)
  moreover have "acyclic {(''a'', ''b'')}" by (simp add: acyclic_insert wf_acyclic)
  ultimately have "acyclic (dep_rel (pl_Stages ?p))" by (rule acyclic_subset [rotated])
  moreover have "distinct (stage_ids (pl_Stages ?p))" "deps_closed (pl_Stages ?p)"
    by (simp_all add: deps_closed_def)
  ultimately show ?thesis using levels_or_cycle [of ?p] by auto
qed

end
