(* ===== verification/Domain_Model.thy ===== *)
theory Domain_Model
  imports Pipeline_Spec
begin

text \<open>
  The domain package (\<open>internal/domain/model.go\<close>, \<open>state.go\<close>): the entities the store
  returns, the task and stage state machines, the readiness test and the derived task status,
  and the effect of a human decision on a stage. Status values are the strings the code uses.
  Go's \<open>int\<close> and \<open>int64\<close> counters are \<open>int\<close>: they only ever grow by one per
  operation. A \<open>*string\<close> is a \<open>string option\<close>, a time is a count of microseconds.
\<close>

type_synonym time = int

record ProjectEntity =
  p_ID :: string
  p_Name :: string
  p_GithubOwner :: string
  p_GithubRepo :: string
  p_DefaultBranch :: string
  p_InstallationID :: "int option"
  p_ContextPath :: string
  p_LocalPath :: "string option"
  p_TokenBudget :: int

text \<open>\<open>t_Pipeline\<close> is the decoded value of the \<open>jsonb\<close> column, \<open>None\<close> for SQL null.\<close>

record TaskEntity =
  t_Pipeline :: "Pipeline option"
  t_Workspace :: string
  t_Version :: int
  t_EventSeq :: int
  t_TokenBudget :: int
  t_ID :: string
  t_ProjectID :: string
  t_Command :: string
  t_Status :: string
  t_CreatedBy :: string
  t_CreatedAt :: time
  t_UpdatedAt :: time
  t_DiscordThreadID :: "string option"

record StageEntity =
  s_Plan :: "string option"
  s_PlanRetryNo :: int
  s_DeliverableRef :: "string option"
  s_DeliverableSummary :: "string option"
  s_DeliverableRetryNo :: int
  s_LastFeedback :: "string option"
  s_BlockedReason :: "string option"
  s_Attempt :: int
  s_Version :: int
  s_ID :: string
  s_TaskID :: string
  s_StageKey :: string
  s_Role :: string
  s_Status :: string
  s_DependsOn :: "string list"
  s_RetryCount :: int

record ApprovalEntity =
  a_Version :: int
  a_ID :: string
  a_TaskID :: string
  a_StageID :: string
  a_Kind :: string
  a_RetryNo :: int
  a_Status :: string
  a_Title :: string
  a_Content :: "string option"
  a_DecisionFeedback :: "string option"
  a_EditedContent :: "string option"
  a_DecidedBy :: "string option"
  a_DecidedVia :: "string option"
  a_RequestedAt :: time
  a_DecidedAt :: "time option"
  a_ResumePending :: bool

record Event =
  ev_EventID :: string
  ev_TaskID :: string
  ev_Seq :: int
  ev_TS :: time
  ev_StageKey :: "string option"
  ev_Agent :: "string option"
  ev_Type :: string
  ev_Payload :: json

definition Text :: "string option \<Rightarrow> string" where
  "Text s = (case s of None \<Rightarrow> [] | Some v \<Rightarrow> v)"

lemma Text_simps [simp]: "Text None = []" "Text (Some v) = v"
  by (simp_all add: Text_def)

definition Terminal :: "string \<Rightarrow> bool" where
  "Terminal status \<longleftrightarrow> status = ''completed'' \<or> status = ''failed'' \<or> status = ''cancelled''"

definition TaskTransition :: "string \<Rightarrow> string \<Rightarrow> string result" where
  "TaskTransition status action =
     (if action = ''start'' \<and> status = ''queued'' then Inr ''running''
      else if action = ''pause'' \<and> (status = ''running'' \<or> status = ''waiting_approval'') then Inr ''paused''
      else if action = ''resume'' \<and> (status = ''paused'' \<or> status = ''blocked'') then Inr ''running''
      else if action = ''cancel'' \<and> \<not> Terminal status then Inr ''cancelled''
      else Inl (Fault 409 ''INVALID_TRANSITION'' (''cannot '' @ action @ '' task in '' @ status)))"

definition Ready :: "StageEntity \<Rightarrow> StageEntity list \<Rightarrow> bool" where
  "Ready s stages \<longleftrightarrow>
     list_all (\<lambda>dep. list_ex (\<lambda>p. s_StageKey p = dep \<and> s_Status p = ''approved'') stages) (s_DependsOn s)"

definition in_review :: "StageEntity \<Rightarrow> bool" where
  "in_review s \<longleftrightarrow> s_Status s = ''plan_review'' \<or> s_Status s = ''deliverable_review''"

definition runnable :: "StageEntity list \<Rightarrow> StageEntity \<Rightarrow> bool" where
  "runnable stages s \<longleftrightarrow> s_Status s = ''planning'' \<or> s_Status s = ''executing''
     \<or> s_Status s = ''pending'' \<and> Ready s stages"

definition Derive :: "string \<Rightarrow> StageEntity list \<Rightarrow> string" where
  "Derive status stages =
     (if Terminal status \<or> status = ''paused'' \<or> status = ''queued'' then status
      else if list_ex in_review stages then ''waiting_approval''
      else if stages \<noteq> [] \<and> list_all (\<lambda>s. s_Status s = ''approved'') stages then ''completed''
      else if list_ex (runnable stages) stages then ''running''
      else if list_ex (\<lambda>s. s_Status s = ''blocked'') stages then ''blocked''
      else status)"

definition ValidateDecision :: "string \<Rightarrow> string option \<Rightarrow> string option \<Rightarrow> unit result" where
  "ValidateDecision decision feedback edited =
     (if decision = ''approve'' then Inr ()
      else if decision = ''reject'' then
        (if TrimSpace (Text feedback) = []
         then Inl (Fault 400 ''FEEDBACK_REQUIRED'' ''reject requires feedback'') else Inr ())
      else if decision = ''edit'' then
        (if TrimSpace (Text edited) = []
         then Inl (Fault 400 ''EDITED_CONTENT_REQUIRED'' ''edit requires edited_content'') else Inr ())
      else Inl (Fault 400 ''BAD_REQUEST'' ''invalid decision''))"

definition Decide :: "StageEntity \<Rightarrow> string \<Rightarrow> string \<Rightarrow> string option \<Rightarrow> string option \<Rightarrow> int
    \<Rightarrow> StageEntity result" where
  "Decide s kind decision feedback edited maxRetries =
     bindR (ValidateDecision decision feedback edited) (\<lambda>_.
       if s_Status s \<noteq> kind @ ''_review''
       then Inl (Fault 409 ''INVALID_TRANSITION'' ''stage is not awaiting this approval'')
       else
         let s = s\<lparr>s_LastFeedback := feedback\<rparr> in
         Inr
          (if decision = ''reject'' then
             let s = (if kind = ''deliverable''
                      then s\<lparr>s_Status := ''executing'', s_DeliverableRetryNo := s_DeliverableRetryNo s + 1\<rparr>
                      else s\<lparr>s_Status := ''planning'', s_PlanRetryNo := s_PlanRetryNo s + 1\<rparr>);
                 s = s\<lparr>s_RetryCount := s_PlanRetryNo s + s_DeliverableRetryNo s\<rparr>;
                 retry = (if kind = ''deliverable'' then s_DeliverableRetryNo s else s_PlanRetryNo s)
             in if maxRetries \<le> retry then s\<lparr>s_Status := ''blocked'', s_BlockedReason := Some kind\<rparr> else s
           else if kind = ''plan'' then
             let s = s\<lparr>s_Status := ''executing''\<rparr>
             in if decision = ''edit'' then s\<lparr>s_Plan := edited\<rparr> else s
           else
             let s = s\<lparr>s_Status := ''approved''\<rparr>
             in if decision = ''edit'' then s\<lparr>s_DeliverableSummary := edited\<rparr> else s))"

section \<open>Lemmas\<close>

definition task_statuses :: "string list" where
  "task_statuses = [''queued'', ''running'', ''waiting_approval'', ''paused'', ''blocked'',
     ''completed'', ''failed'', ''cancelled'']"

definition stage_statuses :: "string list" where
  "stage_statuses = [''pending'', ''planning'', ''plan_review'', ''executing'', ''deliverable_review'',
     ''approved'', ''blocked'']"

lemma Terminal_simps [simp]:
  "Terminal ''completed''" "Terminal ''failed''" "Terminal ''cancelled''"
  "\<not> Terminal ''queued''" "\<not> Terminal ''running''" "\<not> Terminal ''waiting_approval''"
  "\<not> Terminal ''paused''" "\<not> Terminal ''blocked''"
  by (simp_all add: Terminal_def)

lemma Ready_iff:
  "Ready s stages \<longleftrightarrow>
     (\<forall>dep\<in>set (s_DependsOn s). \<exists>p\<in>set stages. s_StageKey p = dep \<and> s_Status p = ''approved'')"
  by (auto simp: Ready_def list_all_iff list_ex_iff)

text \<open>The fields a decision never touches, whatever its outcome.\<close>

lemma Decide_frame:
  assumes "Decide s kind decision feedback edited m = Inr s'"
  shows "s_ID s' = s_ID s" "s_TaskID s' = s_TaskID s" "s_StageKey s' = s_StageKey s"
    "s_Role s' = s_Role s" "s_DependsOn s' = s_DependsOn s" "s_Attempt s' = s_Attempt s"
    "s_Version s' = s_Version s" "s_DeliverableRef s' = s_DeliverableRef s"
    "s_LastFeedback s' = feedback"
  using assms by (auto simp: Decide_def bindR_eq_Inr Let_def split: if_splits)

lemma Decide_pre:
  assumes "Decide s kind decision feedback edited m = Inr s'"
  shows "s_Status s = kind @ ''_review''" "decision \<in> {''approve'', ''reject'', ''edit''}"
  using assms by (auto simp: Decide_def bindR_eq_Inr ValidateDecision_def split: if_splits)

lemma Decide_plan:
  assumes "Decide s ''plan'' decision feedback edited m = Inr s'"
  shows "s_PlanRetryNo s' = s_PlanRetryNo s + (if decision = ''reject'' then 1 else 0)"
    "s_DeliverableRetryNo s' = s_DeliverableRetryNo s"
    "s_Status s' = (if decision \<noteq> ''reject'' then ''executing''
       else if m \<le> s_PlanRetryNo s + 1 then ''blocked'' else ''planning'')"
    "s_BlockedReason s' = (if decision = ''reject'' \<and> m \<le> s_PlanRetryNo s + 1 then Some ''plan''
       else s_BlockedReason s)"
  using assms by (auto simp: Decide_def bindR_eq_Inr Let_def split: if_splits)

lemma Decide_deliverable:
  assumes "Decide s ''deliverable'' decision feedback edited m = Inr s'"
  shows "s_DeliverableRetryNo s' = s_DeliverableRetryNo s + (if decision = ''reject'' then 1 else 0)"
    "s_PlanRetryNo s' = s_PlanRetryNo s"
    "s_Status s' = (if decision \<noteq> ''reject'' then ''approved''
       else if m \<le> s_DeliverableRetryNo s + 1 then ''blocked'' else ''executing'')"
    "s_BlockedReason s' = (if decision = ''reject'' \<and> m \<le> s_DeliverableRetryNo s + 1
       then Some ''deliverable'' else s_BlockedReason s)"
  using assms by (auto simp: Decide_def bindR_eq_Inr Let_def split: if_splits)

lemma Decide_ok_iff:
  "(\<exists>s'. Decide s kind decision feedback edited m = Inr s') \<longleftrightarrow>
     ValidateDecision decision feedback edited = Inr () \<and> s_Status s = kind @ ''_review''"
  by (cases "ValidateDecision decision feedback edited") (auto simp: Decide_def Let_def)

lemma Derive_idem: "Derive (Derive status stages) stages = Derive status stages"
  by (auto simp: Derive_def)

lemma Derive_in_statuses: "status \<in> set task_statuses \<Longrightarrow> Derive status stages \<in> set task_statuses"
  by (auto simp: Derive_def task_statuses_def)

lemma Derive_fixed: "Terminal status \<or> status = ''paused'' \<or> status = ''queued'' \<Longrightarrow> Derive status stages = status"
  by (auto simp: Derive_def)

lemma Derive_completed:
  "Derive status stages = ''completed'' \<Longrightarrow>
     status = ''completed'' \<or> stages \<noteq> [] \<and> (\<forall>s\<in>set stages. s_Status s = ''approved'')"
  by (auto simp: Derive_def list_all_iff split: if_splits)

section \<open>Progress on an acyclic graph\<close>

text \<open>The dependency graph the stage rows of a task carry.\<close>

definition stage_graph :: "StageEntity list \<Rightarrow> (string \<times> string) set" where
  "stage_graph stages = {(d, s_StageKey s) | d s. s \<in> set stages \<and> d \<in> set (s_DependsOn s)}"

lemma finite_stage_graph: "finite (stage_graph stages)"
proof (rule finite_subset)
  show "stage_graph stages \<subseteq> (\<Union>s\<in>set stages. set (s_DependsOn s) \<times> {s_StageKey s})"
    by (auto simp: stage_graph_def)
qed simp

text \<open>
  When every stage is pending or approved and some stage is pending, a pending stage with no
  pending dependency exists, and it is ready.
\<close>

lemma ready_pending_exists:
  assumes acyclic: "acyclic (stage_graph stages)"
    and closed: "\<And>s d. s \<in> set stages \<Longrightarrow> d \<in> set (s_DependsOn s) \<Longrightarrow> \<exists>p\<in>set stages. s_StageKey p = d"
    and only: "\<And>s. s \<in> set stages \<Longrightarrow> s_Status s = ''pending'' \<or> s_Status s = ''approved''"
    and some: "s0 \<in> set stages" "s_Status s0 = ''pending''"
  shows "\<exists>s\<in>set stages. s_Status s = ''pending'' \<and> Ready s stages"
proof -
  let ?P = "{k. \<exists>s\<in>set stages. s_StageKey s = k \<and> s_Status s = ''pending''}"
  have "wf (stage_graph stages)" using finite_acyclic_wf [OF finite_stage_graph acyclic] .
  moreover have "s_StageKey s0 \<in> ?P" using some by blast
  ultimately obtain k where k: "k \<in> ?P" "\<And>y. (y, k) \<in> stage_graph stages \<Longrightarrow> y \<notin> ?P"
    by (metis (no_types, lifting) wfE_min)
  then obtain s where s: "s \<in> set stages" "s_StageKey s = k" "s_Status s = ''pending''" by blast
  have "\<exists>p\<in>set stages. s_StageKey p = d \<and> s_Status p = ''approved''" if d: "d \<in> set (s_DependsOn s)" for d
  proof -
    have "(d, k) \<in> stage_graph stages" using d s by (auto simp: stage_graph_def)
    then have "d \<notin> ?P" by (rule k(2))
    moreover obtain p where "p \<in> set stages" "s_StageKey p = d" using closed [OF s(1) d] by blast
    ultimately show ?thesis using only by blast
  qed
  with s show ?thesis by (auto simp: Ready_iff)
qed

lemma Derive_progress:
  assumes graph: "acyclic (stage_graph stages)"
      "\<And>s d. s \<in> set stages \<Longrightarrow> d \<in> set (s_DependsOn s) \<Longrightarrow> \<exists>p\<in>set stages. s_StageKey p = d"
    and statuses: "\<And>s. s \<in> set stages \<Longrightarrow> s_Status s \<in> set stage_statuses"
    and ne: "stages \<noteq> []" and live: "\<not> Terminal status" "status \<noteq> ''paused''" "status \<noteq> ''queued''"
  shows "Derive status stages =
     (if \<exists>s\<in>set stages. in_review s then ''waiting_approval''
      else if \<forall>s\<in>set stages. s_Status s = ''approved'' then ''completed''
      else if \<exists>s\<in>set stages. runnable stages s then ''running'' else ''blocked'')"
    and "Derive status stages = ''blocked'' \<Longrightarrow> \<exists>s\<in>set stages. s_Status s = ''blocked''"
proof -
  have stuck: "\<exists>s\<in>set stages. s_Status s = ''blocked''"
    if rev: "\<not> (\<exists>s\<in>set stages. in_review s)" and app: "\<not> (\<forall>s\<in>set stages. s_Status s = ''approved'')"
      and run: "\<not> (\<exists>s\<in>set stages. runnable stages s)"
  proof (rule ccontr)
    assume nb: "\<not> (\<exists>s\<in>set stages. s_Status s = ''blocked'')"
    have only: "s_Status s = ''pending'' \<or> s_Status s = ''approved''" if "s \<in> set stages" for s
      using statuses [OF that] rev run nb that
      by (auto simp: stage_statuses_def in_review_def runnable_def)
    then obtain s0 where s0: "s0 \<in> set stages" "s_Status s0 = ''pending''" using app by blast
    have "\<exists>s\<in>set stages. s_Status s = ''pending'' \<and> Ready s stages"
      by (rule ready_pending_exists [OF graph(1) _ _ s0]) (use graph(2) only in blast)+
    then show False using run by (auto simp: runnable_def)
  qed
  show "Derive status stages =
     (if \<exists>s\<in>set stages. in_review s then ''waiting_approval''
      else if \<forall>s\<in>set stages. s_Status s = ''approved'' then ''completed''
      else if \<exists>s\<in>set stages. runnable stages s then ''running'' else ''blocked'')"
    using stuck live ne by (auto simp: Derive_def list_ex_iff list_all_iff)
  show "Derive status stages = ''blocked'' \<Longrightarrow> \<exists>s\<in>set stages. s_Status s = ''blocked''"
    using stuck live ne by (auto simp: Derive_def list_ex_iff list_all_iff split: if_splits)
qed

section \<open>Properties\<close>

text \<open>
  A decision that is accepted comes from a stage in review of that kind. A rejection raises
  the retry number of that kind by one and blocks the stage, naming the kind, exactly when the
  limit is reached, and otherwise sends it back to be planned or executed again; approving or
  editing moves it on and leaves both numbers alone. Identity, attempt and version stay.
\<close>

theorem decision_outcome:
  assumes "Decide s kind decision feedback edited m = Inr s'" "kind = ''plan'' \<or> kind = ''deliverable''"
  shows "s_Status s = kind @ ''_review'' \<and>
    (let plan = (kind = ''plan''); reject = (decision = ''reject'');
         retry = (if plan then s_PlanRetryNo s else s_DeliverableRetryNo s) + 1
     in s_PlanRetryNo s' = s_PlanRetryNo s + (if plan \<and> reject then 1 else 0) \<and>
        s_DeliverableRetryNo s' = s_DeliverableRetryNo s + (if \<not> plan \<and> reject then 1 else 0) \<and>
        s_Status s' = (if \<not> reject then (if plan then ''executing'' else ''approved'')
          else if m \<le> retry then ''blocked'' else if plan then ''planning'' else ''executing'') \<and>
        s_BlockedReason s' = (if reject \<and> m \<le> retry then Some kind else s_BlockedReason s)) \<and>
    s_LastFeedback s' = feedback \<and>
    (s_ID s', s_TaskID s', s_StageKey s', s_DependsOn s', s_Attempt s', s_Version s') =
      (s_ID s, s_TaskID s, s_StageKey s, s_DependsOn s, s_Attempt s, s_Version s)"
  using assms(2)
proof
  assume "kind = ''plan''"
  with Decide_plan [of s decision feedback edited m s'] Decide_pre [OF assms(1)] Decide_frame [OF assms(1)] assms(1)
  show ?thesis by simp
next
  assume "kind = ''deliverable''"
  with Decide_deliverable [of s decision feedback edited m s'] Decide_pre [OF assms(1)] Decide_frame [OF assms(1)] assms(1)
  show ?thesis by simp
qed

definition review_stage :: StageEntity where
  "review_stage = \<lparr>s_Plan = Some ''p'', s_PlanRetryNo = 2, s_DeliverableRef = None, s_DeliverableSummary = None,
     s_DeliverableRetryNo = 0, s_LastFeedback = None, s_BlockedReason = None, s_Attempt = 3, s_Version = 7,
     s_ID = ''s'', s_TaskID = ''t'', s_StageKey = ''a'', s_Role = ''dev'', s_Status = ''plan_review'', s_DependsOn = [],
     s_RetryCount = 2\<rparr>"

theorem decision_outcome_witness:
  "\<exists>s'. Decide review_stage ''plan'' ''reject'' (Some ''no'') None 3 = Inr s' \<and> s_Status s' = ''blocked'' \<and>
     s_PlanRetryNo s' = 3 \<and> s_BlockedReason s' = Some ''plan''"
proof -
  have "TrimSpace ''no'' \<noteq> []"
    by (simp add: TrimSpace_def DecodeRune_def IsSpace_def EncodeRune_def)
  then have "ValidateDecision ''reject'' (Some ''no'') None = Inr ()" by (simp add: ValidateDecision_def)
  then obtain s' where ok: "Decide review_stage ''plan'' ''reject'' (Some ''no'') None 3 = Inr s'"
    using Decide_ok_iff [of review_stage "''plan''" "''reject''" "Some ''no''" None 3] by (auto simp: review_stage_def)
  from decision_outcome [OF ok] have "s_Status s' = ''blocked'' \<and> s_PlanRetryNo s' = 3 \<and> s_BlockedReason s' = Some ''plan''"
    by (simp add: review_stage_def)
  with ok show ?thesis by blast
qed

end
