(* ===== verification/Event_Bus.thy ===== *)
theory Event_Bus
  imports Domain_Model
begin

text \<open>
  The in-process event bus (\<open>internal/event/bus.go\<close>). A subscriber is a channel with a
  bounded buffer; the list index is its pointer identity, \<open>sb_in\<close> is membership in the
  \<open>subs\<close> map and \<open>sb_done\<close> the closed \<open>done\<close> channel. \<open>Publish\<close> visits the
  subscribers in any order, and what it does to one does not depend on the others.
\<close>

record subscriber =
  sb_task :: string
  sb_cap :: nat
  sb_events :: "Event list"
  sb_in :: bool
  sb_done :: bool

record Bus =
  b_subs :: "subscriber list"
  b_Capacity :: int

definition NewBus :: Bus where
  "NewBus = \<lparr>b_subs = [], b_Capacity = 512\<rparr>"

definition Subscribe :: "Bus \<Rightarrow> string \<Rightarrow> nat \<times> Bus" where
  "Subscribe b task =
     (length (b_subs b),
      b\<lparr>b_subs := b_subs b @ [\<lparr>sb_task = task, sb_cap = nat (max 1 (b_Capacity b)), sb_events = [],
         sb_in = True, sb_done = False\<rparr>]\<rparr>)"

definition remove :: "subscriber \<Rightarrow> subscriber" where
  "remove s = (if sb_in s then s\<lparr>sb_in := False, sb_done := True\<rparr> else s)"

definition deliver :: "Event \<Rightarrow> subscriber \<Rightarrow> subscriber" where
  "deliver ev s =
     (if \<not> sb_in s then s
      else if sb_task s \<noteq> [] \<and> sb_task s \<noteq> ev_TaskID ev then s
      else if length (sb_events s) < sb_cap s then s\<lparr>sb_events := sb_events s @ [ev]\<rparr>
      else remove s)"

definition Publish :: "Bus \<Rightarrow> Event \<Rightarrow> Bus" where
  "Publish b ev = b\<lparr>b_subs := map (deliver ev) (b_subs b)\<rparr>"

text \<open>\<open>Subscription.Close\<close>, and the receive \<open><-sub.Events\<close> of the subscriber's goroutine.\<close>

definition Close :: "Bus \<Rightarrow> nat \<Rightarrow> Bus" where
  "Close b i = (if i < length (b_subs b) then b\<lparr>b_subs := (b_subs b)[i := remove (b_subs b ! i)]\<rparr> else b)"

definition Receive :: "Bus \<Rightarrow> nat \<Rightarrow> Event option \<times> Bus" where
  "Receive b i =
     (if i < length (b_subs b) then
        (case sb_events (b_subs b ! i) of
           [] \<Rightarrow> (None, b)
         | e # es \<Rightarrow> (Some e, b\<lparr>b_subs := (b_subs b)[i := (b_subs b ! i)\<lparr>sb_events := es\<rparr>]\<rparr>))
      else (None, b))"

section \<open>Runs of the bus\<close>

datatype bus_op = OpSubscribe string | OpPublish Event | OpReceive nat | OpClose nat

text \<open>A run collects what each subscriber has received, as pairs of subscriber and event.\<close>

fun bus_step :: "Bus \<Rightarrow> bus_op \<Rightarrow> Bus \<times> (nat \<times> Event) list" where
  "bus_step b (OpSubscribe task) = (snd (Subscribe b task), [])"
| "bus_step b (OpPublish ev) = (Publish b ev, [])"
| "bus_step b (OpClose i) = (Close b i, [])"
| "bus_step b (OpReceive i) =
     (case Receive b i of (r, b') \<Rightarrow> (b', case r of None \<Rightarrow> [] | Some e \<Rightarrow> [(i, e)]))"

fun run_bus :: "Bus \<Rightarrow> bus_op list \<Rightarrow> Bus \<times> (nat \<times> Event) list" where
  "run_bus b [] = (b, [])"
| "run_bus b (op # ops) =
     (let (b1, g1) = bus_step b op; (b2, g2) = run_bus b1 ops in (b2, g1 @ g2))"

definition matches :: "string \<Rightarrow> Event \<Rightarrow> bool" where
  "matches task ev \<longleftrightarrow> task = [] \<or> task = ev_TaskID ev"

fun published :: "bus_op list \<Rightarrow> Event list" where
  "published [] = []"
| "published (OpPublish ev # ops) = ev # published ops"
| "published (_ # ops) = published ops"

definition received :: "nat \<Rightarrow> (nat \<times> Event) list \<Rightarrow> Event list" where
  "received i got = map snd (filter (\<lambda>x. fst x = i) got)"

lemma received_append [simp]: "received i (g @ h) = received i g @ received i h"
  by (simp add: received_def)

section \<open>One subscriber\<close>

text \<open>The specification of a subscriber on its own: what an operation of the bus does to it.\<close>

fun sub_step :: "nat \<Rightarrow> subscriber \<Rightarrow> bus_op \<Rightarrow> subscriber \<times> Event list" where
  "sub_step i s (OpSubscribe task) = (s, [])"
| "sub_step i s (OpPublish ev) = (deliver ev s, [])"
| "sub_step i s (OpClose j) = (if j = i then remove s else s, [])"
| "sub_step i s (OpReceive j) =
     (if j = i then (case sb_events s of [] \<Rightarrow> (s, []) | e # es \<Rightarrow> (s\<lparr>sb_events := es\<rparr>, [e])) else (s, []))"

fun run_sub :: "nat \<Rightarrow> subscriber \<Rightarrow> bus_op list \<Rightarrow> subscriber \<times> Event list" where
  "run_sub i s [] = (s, [])"
| "run_sub i s (op # ops) =
     (let (s1, g1) = sub_step i s op; (s2, g2) = run_sub i s1 ops in (s2, g1 @ g2))"

lemma bus_step_sub:
  assumes "i < length (b_subs b)"
  shows "i < length (b_subs (fst (bus_step b op))) \<and>
     b_subs (fst (bus_step b op)) ! i = fst (sub_step i (b_subs b ! i) op) \<and>
     received i (snd (bus_step b op)) = snd (sub_step i (b_subs b ! i) op)"
  using assms
  by (cases op)
    (auto simp: Subscribe_def Publish_def Close_def Receive_def received_def nth_append nth_list_update
      split: list.splits)

lemma run_bus_sub:
  assumes "i < length (b_subs b)"
  shows "i < length (b_subs (fst (run_bus b ops))) \<and>
     b_subs (fst (run_bus b ops)) ! i = fst (run_sub i (b_subs b ! i) ops) \<and>
     received i (snd (run_bus b ops)) = snd (run_sub i (b_subs b ! i) ops)"
  using assms
proof (induction ops arbitrary: b)
  case Nil
  then show ?case by (simp add: received_def)
next
  case (Cons op ops)
  from bus_step_sub [OF Cons.prems, of op] Cons.IH [of "fst (bus_step b op)"]
  show ?case by (simp add: case_prod_beta Let_def)
qed

lemma deliver_simps [simp]:
  "sb_task (deliver ev s) = sb_task s" "sb_cap (deliver ev s) = sb_cap s"
  "sb_task (remove s) = sb_task s" "sb_cap (remove s) = sb_cap s" "sb_events (remove s) = sb_events s"
  "\<not> sb_in (remove s)"
  by (auto simp: deliver_def remove_def)

lemma sub_step_static: "sb_task (fst (sub_step i s op)) = sb_task s \<and> sb_cap (fst (sub_step i s op)) = sb_cap s"
  by (cases op) (auto split: list.splits)

text \<open>A disconnected subscriber keeps draining its buffer and gains nothing.\<close>

lemma sub_step_out:
  "\<not> sb_in s \<Longrightarrow> \<not> sb_in (fst (sub_step i s op)) \<and>
     snd (sub_step i s op) @ sb_events (fst (sub_step i s op)) = sb_events s"
  by (cases op) (auto simp: deliver_def remove_def split: list.splits)

lemma run_sub_out:
  "\<not> sb_in s \<Longrightarrow> \<not> sb_in (fst (run_sub i s ops)) \<and>
     snd (run_sub i s ops) @ sb_events (fst (run_sub i s ops)) = sb_events s"
proof (induction ops arbitrary: s)
  case (Cons op ops)
  from sub_step_out [OF Cons.prems, of i op] Cons.IH [of "fst (sub_step i s op)"]
  show ?case by (simp add: case_prod_beta Let_def)
qed simp

lemma sub_step_in:
  assumes "sb_in (fst (sub_step i s op))"
  shows "snd (sub_step i s op) @ sb_events (fst (sub_step i s op)) =
     sb_events s @ filter (matches (sb_task s)) (published [op])"
  using assms by (cases op) (auto simp: deliver_def remove_def matches_def split: list.splits if_splits)

lemma sub_step_drop:
  assumes "sb_in s" "\<not> sb_in (fst (sub_step i s op))"
  shows "snd (sub_step i s op) @ sb_events (fst (sub_step i s op)) = sb_events s"
  using assms by (cases op) (auto simp: deliver_def remove_def split: list.splits if_splits)

lemma published_Cons: "published (op # ops) = published [op] @ published ops"
  by (cases op) simp_all

lemma run_sub_in:
  assumes "sb_in s"
  shows "prefix (snd (run_sub i s ops) @ sb_events (fst (run_sub i s ops)))
       (sb_events s @ filter (matches (sb_task s)) (published ops)) \<and>
     (sb_in (fst (run_sub i s ops)) \<longrightarrow>
       snd (run_sub i s ops) @ sb_events (fst (run_sub i s ops)) =
       sb_events s @ filter (matches (sb_task s)) (published ops))"
  using assms
proof (induction ops arbitrary: s)
  case (Cons op ops)
  define s1 where "s1 = fst (sub_step i s op)"
  define g1 where "g1 = snd (sub_step i s op)"
  have run: "run_sub i s (op # ops) = (fst (run_sub i s1 ops), g1 @ snd (run_sub i s1 ops))"
    by (simp add: s1_def g1_def case_prod_beta Let_def)
  show ?case
  proof (cases "sb_in s1")
    case True
    have eq: "g1 @ sb_events s1 = sb_events s @ filter (matches (sb_task s)) (published [op])"
      using sub_step_in True by (simp add: s1_def g1_def)
    have "sb_task s1 = sb_task s" using sub_step_static by (simp add: s1_def)
    with Cons.IH [OF True]
    have IH: "prefix (g1 @ snd (run_sub i s1 ops) @ sb_events (fst (run_sub i s1 ops)))
        ((g1 @ sb_events s1) @ filter (matches (sb_task s)) (published ops))"
      "sb_in (fst (run_sub i s1 ops)) \<longrightarrow> g1 @ snd (run_sub i s1 ops) @ sb_events (fst (run_sub i s1 ops)) =
        (g1 @ sb_events s1) @ filter (matches (sb_task s)) (published ops)"
      by simp_all
    show ?thesis
      using IH unfolding run eq by (subst (1 2) published_Cons) simp
  next
    case False
    have "g1 @ sb_events s1 = sb_events s"
      using sub_step_drop [OF Cons.prems] False by (simp add: s1_def g1_def)
    with run_sub_out [OF False, of i ops] show ?thesis
      unfolding run by (auto simp: prefix_def)
  qed
qed simp

lemma sub_step_cap:
  "length (sb_events s) \<le> sb_cap s \<Longrightarrow>
     length (sb_events (fst (sub_step i s op))) \<le> sb_cap (fst (sub_step i s op))"
  by (cases op) (auto simp: deliver_def remove_def split: list.splits)

lemma run_sub_cap:
  "length (sb_events s) \<le> sb_cap s \<Longrightarrow>
     length (sb_events (fst (run_sub i s ops))) \<le> sb_cap (fst (run_sub i s ops))"
proof (induction ops arbitrary: s)
  case (Cons op ops)
  from Cons.IH [OF sub_step_cap [OF Cons.prems, of i op]]
  show ?case by (simp add: case_prod_beta Let_def)
qed simp

lemma run_sub_static:
  "sb_task (fst (run_sub i s ops)) = sb_task s \<and> sb_cap (fst (run_sub i s ops)) = sb_cap s"
proof (induction ops arbitrary: s)
  case (Cons op ops)
  then show ?case by (simp add: case_prod_beta Let_def sub_step_static)
qed simp

text \<open>
  From a subscription on: what the subscriber received together with its buffer is a prefix of
  the matching events published since, all of them while it is connected, and the buffer stays
  within the capacity.
\<close>

lemma subscription_fifo:
  assumes "Subscribe b task = (i, b1)" "run_bus b1 ops = (b2, got)"
  shows "i < length (b_subs b2)"
    "prefix (received i got @ sb_events (b_subs b2 ! i)) (filter (matches task) (published ops))"
    "sb_in (b_subs b2 ! i) \<Longrightarrow>
       received i got @ sb_events (b_subs b2 ! i) = filter (matches task) (published ops)"
    "length (sb_events (b_subs b2 ! i)) \<le> nat (max 1 (b_Capacity b))"
proof -
  define s where "s = b_subs b1 ! i"
  have i: "i < length (b_subs b1)"
    and s: "sb_events s = []" "sb_in s" "sb_task s = task" "sb_cap s = nat (max 1 (b_Capacity b))"
    using assms(1) by (auto simp: Subscribe_def s_def)
  have run: "i < length (b_subs b2)" "b_subs b2 ! i = fst (run_sub i s ops)"
    "received i got = snd (run_sub i s ops)"
    using run_bus_sub [OF i, of ops] assms(2) by (simp_all add: s_def)
  note fifo = run_sub_in [OF s(2), of i ops]
  show "i < length (b_subs b2)" by (rule run(1))
  show "prefix (received i got @ sb_events (b_subs b2 ! i)) (filter (matches task) (published ops))"
    using fifo s by (simp add: run)
  show "sb_in (b_subs b2 ! i) \<Longrightarrow>
       received i got @ sb_events (b_subs b2 ! i) = filter (matches task) (published ops)"
    using fifo s by (simp add: run)
  show "length (sb_events (b_subs b2 ! i)) \<le> nat (max 1 (b_Capacity b))"
    using run_sub_cap [of s i ops] run_sub_static [of i s ops] s by (simp add: run)
qed

section \<open>Properties\<close>

text \<open>
  C29. From its subscription on, what a subscriber has received together with what its channel
  holds is a prefix of the matching events published since, in order; it is all of them while
  the subscriber is connected, and the channel never holds more than its capacity.
\<close>

theorem subscriber_sees_all_in_order:
  assumes "Subscribe b task = (i, b1)" "run_bus b1 ops = (b2, got)"
  shows "prefix (received i got @ sb_events (b_subs b2 ! i)) (filter (matches task) (published ops)) \<and>
    (sb_in (b_subs b2 ! i) \<longrightarrow>
       received i got @ sb_events (b_subs b2 ! i) = filter (matches task) (published ops)) \<and>
    length (sb_events (b_subs b2 ! i)) \<le> nat (max 1 (b_Capacity b))"
  using subscription_fifo [OF assms] by blast

definition bus_event :: "string \<Rightarrow> int \<Rightarrow> Event" where
  "bus_event task n = \<lparr>ev_EventID = ''e'', ev_TaskID = task, ev_Seq = n, ev_TS = 0, ev_StageKey = None, ev_Agent = None,
     ev_Type = ''k'', ev_Payload = JNull\<rparr>"

theorem subscriber_sees_all_in_order_witness:
  "\<exists>b2 got. run_bus (snd (Subscribe NewBus ''t''))
       [OpPublish (bus_event ''t'' 1), OpPublish (bus_event ''u'' 1), OpReceive 0, OpPublish (bus_event ''t'' 2)] = (b2, got) \<and>
     received 0 got @ sb_events (b_subs b2 ! 0) = [bus_event ''t'' 1, bus_event ''t'' 2]"
proof -
  let ?ops = "[OpPublish (bus_event ''t'' 1), OpPublish (bus_event ''u'' 1), OpReceive 0, OpPublish (bus_event ''t'' 2)]"
  obtain b2 got where run: "run_bus (snd (Subscribe NewBus ''t'')) ?ops = (b2, got)" by fastforce
  have "Subscribe NewBus ''t'' = (0, snd (Subscribe NewBus ''t''))" by (simp add: Subscribe_def NewBus_def)
  note all = subscriber_sees_all_in_order [OF this run]
  have "sb_in (b_subs b2 ! 0)"
    using run by (auto simp: Subscribe_def NewBus_def Publish_def Receive_def deliver_def bus_event_def)
  with all run show ?thesis by (simp add: matches_def bus_event_def)
qed

end
