(* ===== verification/Path_Guard.thy ===== *)
theory Path_Guard
  imports Go_Base
begin

text \<open>
  The path checks of \<open>internal/pathguard/path.go\<close> that need no file system: relative paths
  without traversal, and the protected names (credentials, keys, VCS data) no agent may touch.
  On Unix \<open>filepath.ToSlash\<close> is the identity. Shown: a safe path never leaves the directory it
  is resolved in; a protected name stays protected in any letter case and everything below a
  protected directory is protected.
\<close>

abbreviation slash :: char where
  "slash \<equiv> CHR ''/''"

definition IsAbs :: "string \<Rightarrow> bool" where
  "IsAbs name \<longleftrightarrow> HasPrefix name ''/''"

definition SafeRelative :: "string \<Rightarrow> bool" where
  "SafeRelative name \<longleftrightarrow>
     \<not> (name = [] \<or> HasPrefix name ''~'' \<or> CHR 0x5C \<in> set name \<or> IsAbs name) \<and>
     list_all (\<lambda>part. part \<noteq> ''..'') (Split name slash)"

definition protected_names :: "string list" where
  "protected_names = [''.git'', ''.ssh'', ''.aws'', ''secrets'', ''node_modules'', ''.venv'', ''.devsquad-runtime'']"

definition protected_patterns :: "string list" where
  "protected_patterns = [''.env*'', ''*.pem'', ''*.key'', ''*.p12'', ''*.jks'', ''id_rsa*'', ''id_ed25519*'']"

definition protected_part :: "string \<Rightarrow> bool" where
  "protected_part part \<longleftrightarrow> part \<in> set protected_names \<or> list_ex (\<lambda>p. Match p part) protected_patterns"

definition Protected :: "string \<Rightarrow> bool" where
  "Protected name \<longleftrightarrow> list_ex protected_part (Split (ToLower name) slash)"

section \<open>Traversal\<close>

text \<open>
  How the kernel walks a path without symbolic links from a directory, given as the list of its
  components from the root: empty and \<open>.\<close> parts stay, \<open>..\<close> goes up.
\<close>

fun walk :: "string list \<Rightarrow> string list \<Rightarrow> string list" where
  "walk dir [] = dir"
| "walk dir (p # ps) =
     walk (if p = [] \<or> p = ''.'' then dir else if p = ''..'' then butlast dir else dir @ [p]) ps"

lemma walk_down:
  "list_all (\<lambda>p. p \<noteq> ''..'') ps \<Longrightarrow> walk dir ps = dir @ filter (\<lambda>p. p \<noteq> [] \<and> p \<noteq> ''.'') ps"
  by (induction ps arbitrary: dir) auto

lemma SafeRelative_walk:
  "SafeRelative name \<Longrightarrow> prefix dir (walk dir (Split name slash))"
  by (simp add: SafeRelative_def walk_down)

section \<open>Lower case\<close>

lemma runes_ascii:
  "\<forall>c\<in>set s. of_char c < (128::nat) \<Longrightarrow> runes s = map (\<lambda>c. (of_char c, [c])) s"
  by (induction s) (auto simp: DecodeRune_def)

lemma ToLower_ascii:
  "\<forall>c\<in>set s. of_char c < (128::nat) \<Longrightarrow>
     ToLower s = map (\<lambda>c. if 65 \<le> (of_char c :: nat) \<and> (of_char c :: nat) \<le> 90
       then char_of (of_char c + 32 :: nat) else c) s"
  by (induction s) (auto simp: ToLower_def runes_ascii lower_rune_def EncodeRune_def DecodeRune_def)

lemma DecodeRune_slash: "DecodeRune (slash # s) = (47, 1)"
  by (simp add: DecodeRune_def)

lemma DecodeRune_append_slash:
  "s \<noteq> [] \<Longrightarrow> DecodeRune (s @ slash # t) = DecodeRune s"
  by (cases s rule: runes.cases)
    (auto simp: DecodeRune_def utf8_cont_def split: list.splits)

lemma DecodeRune_width_le: "snd (DecodeRune s) \<le> length s"
  by (cases s) (auto simp: DecodeRune_def split: list.splits)

lemma runes_append_slash: "runes (a @ slash # b) = runes a @ (47, [slash]) # runes b"
proof (induction a rule: runes.induct)
  case 1
  then show ?case by (simp add: DecodeRune_slash)
next
  case (2 c cs)
  obtain r w where rw: "DecodeRune (c # cs) = (r, w)" by fastforce
  then have w: "w - 1 \<le> length cs" using DecodeRune_width_le [of "c # cs"] by simp
  have "DecodeRune (c # cs @ slash # b) = (r, w)"
    using DecodeRune_append_slash [of "c # cs" b] rw by simp
  with "2.IH" [OF rw [symmetric] refl] rw w show ?case by simp
qed

lemma ToLower_append_slash: "ToLower (a @ slash # b) = ToLower a @ slash # ToLower b"
proof -
  have "EncodeRune (lower_rune 47) = [slash]" by code_simp
  then show ?thesis by (simp add: ToLower_def runes_append_slash)
qed

lemma Protected_join: "Protected (a @ slash # b) \<longleftrightarrow> Protected a \<or> Protected b"
  by (simp add: Protected_def ToLower_append_slash Split_append_sep)

text \<open>UTF-8: a valid rune survives encoding and decoding.\<close>

definition valid_rune :: "nat \<Rightarrow> bool" where
  "valid_rune r \<longleftrightarrow> r \<le> 0x10FFFF \<and> \<not> (0xD800 \<le> r \<and> r \<le> 0xDFFF)"

lemma valid_rune_small [simp]: "valid_rune RuneError" "r < 0xD800 \<Longrightarrow> valid_rune r"
  by (simp_all add: valid_rune_def RuneError_def)

lemma DecodeRune_valid3:
  assumes "0xE0 \<le> b0" "b0 \<le> 0xEF" "(if b0 = 0xE0 then 0xA0 else 0x80) \<le> b1"
    "b1 \<le> (if b0 = 0xED then 0x9F else 0xBF)" "utf8_cont b2"
  shows "valid_rune ((b0 - 0xE0) * 4096 + (b1 - 0x80) * 64 + (b2 - 0x80))"
proof -
  consider "b0 < 0xED" | "b0 = 0xED" | "0xED < b0" by linarith
  then show ?thesis
    using assms by cases (auto simp: valid_rune_def utf8_cont_def split: if_splits)
qed

lemma DecodeRune_valid4:
  assumes "0xF0 \<le> b0" "b0 \<le> 0xF4" "(if b0 = 0xF0 then 0x90 else 0x80) \<le> b1"
    "b1 \<le> (if b0 = 0xF4 then 0x8F else 0xBF)" "utf8_cont b2" "utf8_cont b3"
  shows "valid_rune ((b0 - 0xF0) * 262144 + (b1 - 0x80) * 4096 + (b2 - 0x80) * 64 + (b3 - 0x80))"
proof -
  consider "b0 = 0xF0" | "0xF0 < b0 \<and> b0 < 0xF4" | "b0 = 0xF4" using assms(1,2) by linarith
  then show ?thesis
    using assms by cases (auto simp: valid_rune_def utf8_cont_def split: if_splits)
qed

lemma DecodeRune_valid: "valid_rune (fst (DecodeRune s))"
proof (cases "map of_char s :: nat list")
  case (Cons b0 bs)
  have two: "valid_rune ((b0 - 0xC0) * 64 + (b1 - 0x80))" if "b0 \<le> 0xDF" "utf8_cont b1" for b1
    using that by (intro valid_rune_small) (auto simp: utf8_cont_def)
  consider "b0 < 0x80" | "0x80 \<le> b0" "\<not> (0xC2 \<le> b0 \<and> b0 \<le> 0xF4)" | "0xC2 \<le> b0" "b0 \<le> 0xDF"
    | "0xE0 \<le> b0" "b0 \<le> 0xEF" | "0xF0 \<le> b0" "b0 \<le> 0xF4" by linarith
  then show ?thesis
  proof cases
    case 1
    then show ?thesis by (simp add: DecodeRune_def Cons)
  next
    case 2
    then show ?thesis by (auto simp: DecodeRune_def Cons)
  next
    case 3
    then show ?thesis using two by (simp add: DecodeRune_def Cons split: list.split)
  next
    case 4
    with DecodeRune_valid3 [OF 4] show ?thesis by (cases bs; cases "tl bs") (simp_all add: DecodeRune_def Cons)
  next
    case 5
    with DecodeRune_valid4 [OF 5] show ?thesis
      by (cases bs; cases "tl bs"; cases "tl (tl bs)") (simp_all add: DecodeRune_def Cons)
  qed
qed (simp add: DecodeRune_def)

lemma base64_digits:
  fixes r :: nat
  shows "r div 4096 * 4096 + r div 64 mod 64 * 64 + r mod 64 = r"
    "r div 262144 * 262144 + r div 4096 mod 64 * 4096 + r div 64 mod 64 * 64 + r mod 64 = r"
proof -
  have "r div 64 div 64 = r div 4096" "r div 4096 div 64 = r div 262144"
    by (simp_all flip: div_mult2_eq)
  moreover have "r div 64 * 64 + r mod 64 = r" "r div 64 div 64 * 64 + r div 64 mod 64 = r div 64"
    "r div 4096 div 64 * 64 + r div 4096 mod 64 = r div 4096" by (simp_all only: div_mult_mod_eq)
  ultimately show "r div 4096 * 4096 + r div 64 mod 64 * 64 + r mod 64 = r"
    "r div 262144 * 262144 + r div 4096 mod 64 * 4096 + r div 64 mod 64 * 64 + r mod 64 = r"
    by linarith+
qed

lemma decode_encode:
  assumes "valid_rune r"
  shows "DecodeRune (EncodeRune r @ t) = (r, length (EncodeRune r))"
proof -
  consider "r < 0x80" | "0x80 \<le> r" "r < 0x800" | "0x800 \<le> r" "r < 0x10000" | "0x10000 \<le> r" "r \<le> 0x10FFFF"
    using assms by (fastforce simp: valid_rune_def)
  then show ?thesis
  proof cases
    case 1
    then show ?thesis by (simp add: DecodeRune_def EncodeRune_def)
  next
    case 2
    define a b where "a = r div 64" and "b = r mod 64"
    have ab: "2 \<le> a" "a < 32" "b < 64" "a * 64 + b = r"
      using 2 by (auto simp: a_def b_def)
    have enc: "EncodeRune r = map char_of [0xC0 + a, 0x80 + b]"
      using 2 by (auto simp: EncodeRune_def a_def b_def)
    show ?thesis
      unfolding enc using ab by (auto simp: DecodeRune_def utf8_cont_def)
  next
    case 3
    define a b c where "a = r div 4096" and "b = (r div 64) mod 64" and "c = r mod 64"
    have abc: "a < 16" "b < 64" "c < 64" "a * 4096 + b * 64 + c = r"
      using 3 base64_digits by (simp_all add: a_def b_def c_def less_mult_imp_div_less)
    have lo: "a = 0 \<Longrightarrow> 32 \<le> b" and hi: "a = 13 \<Longrightarrow> b < 32"
      using 3 assms abc by (auto simp: valid_rune_def)
    have enc: "EncodeRune r = map char_of [0xE0 + a, 0x80 + b, 0x80 + c]"
      using 3 assms by (auto simp: EncodeRune_def valid_rune_def a_def b_def c_def)
    show ?thesis
      unfolding enc using abc lo hi by (auto simp: DecodeRune_def utf8_cont_def)
  next
    case 4
    define a b c d where "a = r div 262144" and "b = (r div 4096) mod 64" and "c = (r div 64) mod 64"
      and "d = r mod 64"
    have abc: "a < 5" "b < 64" "c < 64" "d < 64" "a * 262144 + b * 4096 + c * 64 + d = r"
      using 4 base64_digits by (simp_all add: a_def b_def c_def d_def less_mult_imp_div_less)
    have lo: "a = 0 \<Longrightarrow> 16 \<le> b" and hi: "a = 4 \<Longrightarrow> b < 16"
      using 4 abc by auto
    have enc: "EncodeRune r = map char_of [0xF0 + a, 0x80 + b, 0x80 + c, 0x80 + d]"
      using 4 by (auto simp: EncodeRune_def a_def b_def c_def d_def)
    show ?thesis
      unfolding enc using abc lo hi by (auto simp: DecodeRune_def utf8_cont_def)
  qed
qed

lemma EncodeRune_nonempty [simp]: "EncodeRune r \<noteq> []"
  by (simp add: EncodeRune_def)

lemma runes_encode:
  "list_all valid_rune rs \<Longrightarrow> runes (concat (map EncodeRune rs)) = map (\<lambda>r. (r, EncodeRune r)) rs"
proof (induction rs)
  case (Cons r rs)
  obtain c cs where enc: "EncodeRune r = c # cs" by (cases "EncodeRune r") auto
  have "DecodeRune ((c # cs) @ concat (map EncodeRune rs)) = (r, length (c # cs))"
    using decode_encode [of r] Cons.prems enc by simp
  with Cons enc show ?case by simp
qed simp

lemma runes_valid: "x \<in> set (runes s) \<Longrightarrow> valid_rune (fst x)"
proof (induction s rule: runes.induct)
  case (2 c cs)
  obtain r w where rw: "DecodeRune (c # cs) = (r, w)" by fastforce
  from "2.IH" [OF rw [symmetric] refl] "2.prems" rw DecodeRune_valid [of "c # cs"] show ?case by auto
qed simp

lemma ToLower_idem: "ToLower (ToLower s) = ToLower s"
proof -
  let ?rs = "map (lower_rune \<circ> fst) (runes s)"
  have "list_all valid_rune ?rs"
    using runes_valid [of _ s] by (fastforce simp: list_all_iff lower_rune_def valid_rune_def)
  then have "runes (ToLower s) = map (\<lambda>r. (r, EncodeRune r)) ?rs"
    using runes_encode by (fastforce simp: ToLower_def comp_def)
  then have "ToLower (ToLower s) = concat (map (EncodeRune \<circ> lower_rune) ?rs)"
    by (simp add: ToLower_def comp_def)
  moreover have "lower_rune (lower_rune r) = lower_rune r" for r
    by (simp add: lower_rune_def)
  ultimately show ?thesis by (simp add: ToLower_def comp_def)
qed

lemma Protected_ToLower: "Protected (ToLower name) = Protected name"
  by (simp add: Protected_def ToLower_idem)

end
