(* ===== verification/Agent_Def.thy ===== *)
theory Agent_Def
  imports File_System Pipeline_Spec
begin

text \<open>
  Loading a project's agent definitions (\<open>internal/agentdef\<close>): the pipeline file, the agents'
  front matter and knowledge files read through \<open>NoSymlinks\<close>, the checks on write paths, and
  \<open>checkWriteConflicts\<close>. Also \<open>stage.Model\<close> and the tool names of \<open>tools.Sandbox.Tools\<close>,
  which task creation validates against. The YAML decoders and doublestar's pattern check are
  parameters. A Go map of agents is an association list; a key that is missing reads as the zero
  value. Shown: what a loaded definition guarantees, and that no file can be written by two stages.
\<close>

record AgentSpec =
  ag_Color :: string
  ag_Name :: string
  ag_DisplayName :: string
  ag_ToolProfile :: string
  ag_WritePaths :: "string list"
  ag_Model :: string
  ag_TestCommand :: string
  ag_Persona :: string
  ag_Conventions :: string
  ag_Knowledge :: string

definition zero_AgentSpec :: AgentSpec where
  "zero_AgentSpec = \<lparr>ag_Color = [], ag_Name = [], ag_DisplayName = [], ag_ToolProfile = [],
     ag_WritePaths = [], ag_Model = [], ag_TestCommand = [], ag_Persona = [], ag_Conventions = [],
     ag_Knowledge = []\<rparr>"

record Definition =
  df_Pipeline :: Pipeline
  df_Agents :: "(string \<times> AgentSpec) list"
  df_ProjectSpec :: string
  df_Workspace :: string

definition agent_of :: "Definition \<Rightarrow> string \<Rightarrow> AgentSpec" where
  "agent_of d name = (case map_of (df_Agents d) name of None \<Rightarrow> zero_AgentSpec | Some a \<Rightarrow> a)"

section \<open>Write path ownership\<close>

definition is_literal :: "string \<Rightarrow> bool" where
  "is_literal part \<longleftrightarrow> \<not> ContainsAny part (''*?[{'' @ [CHR 0x5C])"

definition literalRoot :: "string \<Rightarrow> string" where
  "literalRoot p = Join (takeWhile is_literal (Split p slash)) ''/''"

definition roots_conflict :: "string \<Rightarrow> string \<Rightarrow> bool" where
  "roots_conflict p q \<longleftrightarrow>
     (let x = literalRoot p; y = literalRoot q
      in x = [] \<or> y = [] \<or> x = y \<or> HasPrefix x (y @ ''/'') \<or> HasPrefix y (x @ ''/''))"

definition conflict_error :: "StageSpec \<Rightarrow> StageSpec \<Rightarrow> string \<Rightarrow> string \<Rightarrow> err" where
  "conflict_error s other p q = Errorf (''write_paths conflict: '' @ sp_ID s @ '' and '' @ sp_ID other
     @ '' ('' @ p @ '', '' @ q @ '')'')"

fun check_conflicts :: "(string \<Rightarrow> bool) \<Rightarrow> Definition \<Rightarrow> StageSpec list \<Rightarrow> unit result" where
  "check_conflicts ValidatePattern d [] = Inr ()"
| "check_conflicts ValidatePattern d (s # rest) =
     (let a = agent_of d (sp_Agent s)
      in bindR (eachR (\<lambda>p. if \<not> ValidatePattern p \<or> Protected p
                 then Inl (Errorf (''invalid write_path: '' @ p)) else Inr ()) (ag_WritePaths a)) (\<lambda>_.
         bindR (eachR (\<lambda>other. eachR (\<lambda>p. eachR (\<lambda>q.
                   if roots_conflict p q then Inl (conflict_error s other p q) else Inr ())
                 (ag_WritePaths (agent_of d (sp_Agent other)))) (ag_WritePaths a)) rest) (\<lambda>_.
         check_conflicts ValidatePattern d rest)))"

definition checkWriteConflicts :: "(string \<Rightarrow> bool) \<Rightarrow> Definition \<Rightarrow> unit result" where
  "checkWriteConflicts ValidatePattern d = check_conflicts ValidatePattern d (pl_Stages (df_Pipeline d))"

section \<open>Loading\<close>

definition read_plain :: "node \<Rightarrow> string \<Rightarrow> string result" where
  "read_plain root rel = bindR (NoSymlinks root rel) (\<lambda>_. ReadFile root rel)"

definition publisher_spec :: AgentSpec where
  "publisher_spec = zero_AgentSpec\<lparr>ag_Name := ''publisher'', ag_ToolProfile := ''publisher'',
     ag_Persona := ''Collect approved deliverables into a PR draft.'',
     ag_Conventions := ''Return the PR draft as Markdown. Publishing is not implemented yet.''\<rparr>"

text \<open>The switch over \<open>tool_profile\<close> and the check of every write path.\<close>

definition check_profile :: "AgentSpec \<Rightarrow> AgentSpec result" where
  "check_profile a =
     bindR
       (if ag_ToolProfile a = ''docs-writer'' \<or> ag_ToolProfile a = ''code-writer'' then
          let a = (if ag_WritePaths a = [] \<and> ag_ToolProfile a = ''docs-writer''
                   then a\<lparr>ag_WritePaths := [''docs/**'']\<rparr> else a)
          in if ag_WritePaths a = [] then Inl (Errorf (ag_Name a @ '' requires write_paths'')) else Inr a
        else if ag_ToolProfile a = ''reader'' \<or> ag_ToolProfile a = ''publisher'' then
          bindR (eachR (\<lambda>wp. if HasPrefix wp ''docs/'' then Inr ()
            else Inl (Errorf (ag_Name a @ '' may only write docs''))) (ag_WritePaths a)) (\<lambda>_. Inr a)
        else Inl (Errorf (''invalid tool_profile: '' @ ag_ToolProfile a)))
       (\<lambda>a. bindR (eachR (\<lambda>wp. if SafeRelative wp then Inr ()
          else Inl (Errorf (''invalid write_path: '' @ wp))) (ag_WritePaths a)) (\<lambda>_. Inr a))"

text \<open>
  The callback of \<open>filepath.WalkDir\<close> over the knowledge directory; \<open>rel\<close> is the path
  from the workspace. The walk stops at the first error, does not enter a protected directory,
  and appends every other file to the knowledge text.
\<close>

fun walk_knowledge :: "node \<Rightarrow> string \<Rightarrow> node \<Rightarrow> string \<Rightarrow> string result"
  and walk_entries :: "node \<Rightarrow> string \<Rightarrow> (string \<times> node) list \<Rightarrow> string \<Rightarrow> string result" where
  "walk_knowledge root rel (Lnk _) acc = Inl (Errorf ''knowledge symlink is not allowed'')"
| "walk_knowledge root rel (Reg _) acc =
     (if Protected rel then Inr acc
      else bindR (read_plain root rel) (\<lambda>content.
        Inr (acc @ [CHR 0x0A] @ ''### '' @ rel @ [CHR 0x0A] @ content)))"
| "walk_knowledge root rel (Dir es) acc =
     (if Protected rel then Inr acc else walk_entries root rel es acc)"
| "walk_entries root rel [] acc = Inr acc"
| "walk_entries root rel ((name, n) # es) acc =
     bindR (walk_knowledge root (Join_path [rel, name]) n acc) (walk_entries root rel es)"

definition load_knowledge :: "node \<Rightarrow> string \<Rightarrow> string result" where
  "load_knowledge root dir =
     (let kdir = Join_path [dir, ''knowledge'']
      in case Lstat root (Split kdir slash) of
           Inl ErrNotExist \<Rightarrow> Inr []
         | Inl e \<Rightarrow> Inl e
         | Inr n \<Rightarrow> walk_knowledge root kdir n [])"

definition load_agent :: "(string \<Rightarrow> AgentSpec result) \<Rightarrow> node \<Rightarrow> string \<Rightarrow> string \<Rightarrow> AgentSpec result" where
  "load_agent frontmatter root contextPath agent =
     (let dir = Join_path [contextPath, ''agents'', agent]
      in bindR (read_plain root (Join_path [dir, ''persona.md''])) (\<lambda>persona.
         let parts = SplitN persona ''---'' 3
         in if length parts \<noteq> 3 \<or> TrimSpace (parts ! 0) \<noteq> []
            then Inl (Errorf (''agent '' @ agent @ '' requires YAML frontmatter''))
            else bindR (frontmatter (parts ! 1)) (\<lambda>a.
              let a = a\<lparr>ag_Persona := parts ! 2\<rparr>
              in if ag_Name a \<noteq> agent then Inl (Errorf (''agent name must match directory: '' @ agent))
                 else bindR (check_profile a) (\<lambda>a.
                   bindR (read_plain root (Join_path [dir, ''conventions.md''])) (\<lambda>conventions.
                   bindR (load_knowledge root dir) (\<lambda>knowledge.
                     Inr (a\<lparr>ag_Conventions := conventions, ag_Knowledge := knowledge\<rparr>)))))))"

fun load_agents :: "(string \<Rightarrow> AgentSpec result) \<Rightarrow> node \<Rightarrow> string \<Rightarrow> (string \<times> AgentSpec) list
    \<Rightarrow> StageSpec list \<Rightarrow> (string \<times> AgentSpec) list result" where
  "load_agents frontmatter root contextPath agents [] = Inr agents"
| "load_agents frontmatter root contextPath agents (s # ss) =
     (if map_of agents (sp_Agent s) \<noteq> None then load_agents frontmatter root contextPath agents ss
      else if sp_Agent s = ''publisher''
        then load_agents frontmatter root contextPath (agents @ [(sp_Agent s, publisher_spec)]) ss
      else bindR (load_agent frontmatter root contextPath (sp_Agent s)) (\<lambda>a.
        load_agents frontmatter root contextPath (agents @ [(ag_Name a, a)]) ss))"

text \<open>\<open>LoadDefinition\<close>; \<open>opened\<close> is what \<open>os.OpenRoot(workspace)\<close> returns.\<close>

definition LoadDefinition :: "(string \<Rightarrow> Pipeline \<Rightarrow> Pipeline result) \<Rightarrow> (string \<Rightarrow> AgentSpec result)
    \<Rightarrow> (string \<Rightarrow> bool) \<Rightarrow> node result \<Rightarrow> string \<Rightarrow> string \<Rightarrow> Definition result" where
  "LoadDefinition unmarshal frontmatter ValidatePattern opened workspace contextPath =
     (if \<not> SafeRelative contextPath then Inl (Errorf ''invalid context_path'')
      else bindR opened (\<lambda>root.
        bindR (read_plain root (Join_path [contextPath, ''pipeline.yaml''])) (\<lambda>text.
        bindR (ParsePipeline unmarshal text) (\<lambda>pl.
        bindR (case read_plain root (Join_path [contextPath, ''spec.md'']) of
                 Inl ErrNotExist \<Rightarrow> Inr [] | r \<Rightarrow> r) (\<lambda>spec.
        bindR (load_agents frontmatter root contextPath [] (pl_Stages pl)) (\<lambda>agents.
          let out = \<lparr>df_Pipeline = pl, df_Agents = agents, df_ProjectSpec = spec, df_Workspace = workspace\<rparr>
          in bindR (checkWriteConflicts ValidatePattern out) (\<lambda>_. Inr out)))))))"

section \<open>Models and tools of a stage\<close>

definition Model :: "Definition \<Rightarrow> StageSpec \<Rightarrow> string" where
  "Model d s =
     (if sp_Model s \<noteq> [] then sp_Model s
      else if ag_Model (agent_of d (sp_Agent s)) \<noteq> [] then ag_Model (agent_of d (sp_Agent s))
      else DefaultModel (pl_Policy (df_Pipeline d)))"

text \<open>The names of \<open>Sandbox.Tools\<close> for an agent and the stage's \<open>tools\<close> list.\<close>

definition tool_names :: "AgentSpec \<Rightarrow> string slice \<Rightarrow> string list" where
  "tool_names a allowed =
     (let tools = [''read_file'', ''list_dir'', ''search'']
            @ (if ag_ToolProfile a \<noteq> ''publisher'' \<and> ag_WritePaths a \<noteq> [] then [''write_file''] else [])
            @ (if ag_ToolProfile a = ''code-writer'' \<and> ag_TestCommand a \<noteq> [] then [''run_tests''] else [])
      in case allowed of None \<Rightarrow> tools | Some l \<Rightarrow> filter (\<lambda>t. t \<in> set l) tools)"

section \<open>What a loaded definition guarantees\<close>

lemma check_conflicts_Inr:
  "check_conflicts V d ss = Inr u \<longleftrightarrow>
     (\<forall>s\<in>set ss. \<forall>p\<in>set (ag_WritePaths (agent_of d (sp_Agent s))). V p \<and> \<not> Protected p) \<and>
     (\<forall>j<length ss. \<forall>i<j. \<forall>p\<in>set (ag_WritePaths (agent_of d (sp_Agent (ss ! i)))).
        \<forall>q\<in>set (ag_WritePaths (agent_of d (sp_Agent (ss ! j)))). \<not> roots_conflict p q)"
proof (induction ss)
  case (Cons s ss)
  let ?W = "\<lambda>s. set (ag_WritePaths (agent_of d (sp_Agent s)))"
  let ?C = "\<lambda>s t. \<forall>p\<in>?W s. \<forall>q\<in>?W t. \<not> roots_conflict p q"
  have split: "(\<forall>j<length (s # ss). \<forall>i<j. ?C ((s # ss) ! i) ((s # ss) ! j)) \<longleftrightarrow>
      (\<forall>t\<in>set ss. ?C s t) \<and> (\<forall>j<length ss. \<forall>i<j. ?C (ss ! i) (ss ! j))" (is "?L \<longleftrightarrow> ?R")
  proof
    assume L: ?L
    have "?C s t" if t: "t \<in> set ss" for t
    proof -
      from t obtain j where "j < length ss" "ss ! j = t" by (auto simp: in_set_conv_nth)
      with L [rule_format, of "Suc j" 0] show ?thesis by simp
    qed
    moreover have "?C (ss ! i) (ss ! j)" if "j < length ss" "i < j" for i j
      using L [rule_format, of "Suc j" "Suc i"] that by simp
    ultimately show ?R by blast
  next
    assume R: ?R
    show ?L
    proof (intro allI impI)
      fix j i assume ji: "j < length (s # ss)" "i < j"
      then obtain k where k: "j = Suc k" "k < length ss" by (cases j) auto
      have "?C s (ss ! k)" using R nth_mem [OF k(2)] by blast
      then show "?C ((s # ss) ! i) ((s # ss) ! j)" using R ji k by (cases i) simp_all
    qed
  qed
  have guard: "(if b then Inl e else Inr ()) = (Inr () :: unit result) \<longleftrightarrow> \<not> b" for b and e :: err
    by simp
  have "check_conflicts V d (s # ss) = Inr u \<longleftrightarrow>
      (\<forall>p\<in>?W s. V p \<and> \<not> Protected p) \<and> (\<forall>t\<in>set ss. ?C s t) \<and> check_conflicts V d ss = Inr u"
    by (simp add: Let_def bindR_eq_Inr eachR_Inr guard)
  then show ?case unfolding split Cons by auto
qed simp

lemma Join_prefix:
  assumes "prefix P Q" "P \<noteq> []"
  shows "Join Q ''/'' = Join P ''/'' \<or> HasPrefix (Join Q ''/'') (Join P ''/'' @ ''/'')"
proof -
  have app: "Join (P @ R) ''/'' = Join P ''/'' @ (if R = [] then [] else ''/'' @ Join R ''/'')"
    if "P \<noteq> []" for P R
    using that
  proof (induction P)
    case (Cons p P)
    then show ?case by (cases P; cases R) auto
  qed simp
  from assms(1) obtain R where "Q = P @ R" by (auto simp: prefix_def)
  with app [OF assms(2), of R] show ?thesis by (auto simp: HasPrefix_def)
qed

text \<open>Two patterns that match a common file have roots that conflict.\<close>

lemma common_file_conflict:
  assumes glob: "\<And>n p. GlobMatch n p \<Longrightarrow> prefix (takeWhile is_literal (Split p slash)) (Split n slash)"
    and m: "GlobMatch name p" "GlobMatch name q"
  shows "roots_conflict p q"
proof -
  let ?P = "takeWhile is_literal (Split p slash)" and ?Q = "takeWhile is_literal (Split q slash)"
  have "prefix ?P ?Q \<or> prefix ?Q ?P"
    using glob [OF m(1)] glob [OF m(2)] prefix_same_cases by blast
  moreover have "?P = [] \<Longrightarrow> literalRoot p = []" "?Q = [] \<Longrightarrow> literalRoot q = []"
    by (simp_all add: literalRoot_def)
  ultimately show ?thesis
    using Join_prefix [of ?P ?Q] Join_prefix [of ?Q ?P]
    unfolding roots_conflict_def literalRoot_def Let_def by metis
qed

lemma writers_disjoint:
  assumes "checkWriteConflicts V d = Inr u"
    and "\<And>n p. GlobMatch n p \<Longrightarrow> prefix (takeWhile is_literal (Split p slash)) (Split n slash)"
    and "i < j" "j < length (pl_Stages (df_Pipeline d))"
    and "p \<in> set (ag_WritePaths (agent_of d (sp_Agent (pl_Stages (df_Pipeline d) ! i))))"
    and "q \<in> set (ag_WritePaths (agent_of d (sp_Agent (pl_Stages (df_Pipeline d) ! j))))"
  shows "\<not> (GlobMatch name p \<and> GlobMatch name q)"
  using assms(1,3-) common_file_conflict [of GlobMatch name p q, OF assms(2)]
  unfolding checkWriteConflicts_def check_conflicts_Inr by blast

definition agent_ok :: "AgentSpec \<Rightarrow> bool" where
  "agent_ok a \<longleftrightarrow>
     ag_ToolProfile a \<in> {''docs-writer'', ''code-writer'', ''reader'', ''publisher''} \<and>
     (\<forall>wp\<in>set (ag_WritePaths a). SafeRelative wp) \<and>
     (ag_ToolProfile a \<in> {''docs-writer'', ''code-writer''} \<longrightarrow> ag_WritePaths a \<noteq> []) \<and>
     (ag_ToolProfile a \<in> {''reader'', ''publisher''} \<longrightarrow> (\<forall>wp\<in>set (ag_WritePaths a). HasPrefix wp ''docs/''))"

lemma check_profile_Inr:
  assumes "check_profile a = Inr b"
  shows "agent_ok b" "ag_Name b = ag_Name a" "ag_ToolProfile b = ag_ToolProfile a" "ag_Model b = ag_Model a"
  using assms
  by (auto simp: check_profile_def agent_ok_def bindR_eq_Inr eachR_Inr Let_def split: if_splits)

lemma load_agent_Inr:
  assumes "load_agent fm root cp agent = Inr a"
  shows "agent_ok a" "ag_Name a = agent"
proof -
  from assms obtain b c k x where b: "check_profile b = Inr c" "ag_Name b = agent"
    and a: "a = c\<lparr>ag_Conventions := x, ag_Knowledge := k\<rparr>"
    unfolding load_agent_def Let_def bindR_eq_Inr by (auto simp: bindR_eq_Inr split: if_splits)
  from check_profile_Inr [OF b(1)] a b(2) show "agent_ok a" "ag_Name a = agent"
    by (simp_all add: agent_ok_def)
qed

lemma publisher_spec_ok: "agent_ok publisher_spec" "ag_Name publisher_spec = ''publisher''"
  by (simp_all add: publisher_spec_def zero_AgentSpec_def agent_ok_def)

lemma load_agents_Inr:
  assumes "load_agents fm root cp agents ss = Inr out"
    and "\<forall>(k, a)\<in>set agents. agent_ok a \<and> ag_Name a = k" "distinct (map fst agents)"
  shows "(\<forall>(k, a)\<in>set out. agent_ok a \<and> ag_Name a = k) \<and> distinct (map fst out)
     \<and> fst ` set out = fst ` set agents \<union> sp_Agent ` set ss"
  using assms
proof (induction ss arbitrary: agents)
  case (Cons s ss)
  have new: "sp_Agent s \<notin> fst ` set agents" if "map_of agents (sp_Agent s) = None"
    using that by (simp add: map_of_eq_None_iff)
  show ?case
  proof (cases "map_of agents (sp_Agent s)")
    case (Some a)
    then have "sp_Agent s \<in> fst ` set agents" by (force dest: map_of_SomeD)
    with Cons Some show ?thesis by auto
  next
    case None
    show ?thesis
    proof (cases "sp_Agent s = ''publisher''")
      case True
      with None Cons.prems(1) have eq: "load_agents fm root cp (agents @ [(sp_Agent s, publisher_spec)]) ss = Inr out"
        by simp
      from Cons.IH [OF eq] Cons.prems(2,3) new [OF None] True publisher_spec_ok show ?thesis by auto
    next
      case False
      with None Cons.prems(1) obtain a where a: "load_agent fm root cp (sp_Agent s) = Inr a"
        and eq: "load_agents fm root cp (agents @ [(ag_Name a, a)]) ss = Inr out"
        by (auto simp: bindR_eq_Inr)
      from Cons.IH [OF eq] Cons.prems(2,3) new [OF None] load_agent_Inr [OF a] show ?thesis by auto
    qed
  qed
qed simp

lemma LoadDefinition_Inr:
  assumes "LoadDefinition um fm V opened ws cp = Inr d"
  shows "\<exists>src. ParsePipeline um src = Inr (df_Pipeline d)" "SafeRelative cp" "df_Workspace d = ws"
    "checkWriteConflicts V d = Inr ()"
    "\<And>s. s \<in> set (pl_Stages (df_Pipeline d)) \<Longrightarrow>
       agent_ok (agent_of d (sp_Agent s)) \<and> ag_Name (agent_of d (sp_Agent s)) = sp_Agent s"
proof -
  from assms obtain root content pl sp agents where
    pl: "ParsePipeline um content = Inr pl" and ag: "load_agents fm root cp [] (pl_Stages pl) = Inr agents"
    and chk: "checkWriteConflicts V d = Inr ()" and safe: "SafeRelative cp"
    and d: "d = \<lparr>df_Pipeline = pl, df_Agents = agents, df_ProjectSpec = sp, df_Workspace = ws\<rparr>"
    unfolding LoadDefinition_def Let_def by (auto simp: bindR_eq_Inr split: if_splits)
  show "\<exists>src. ParsePipeline um src = Inr (df_Pipeline d)" "SafeRelative cp" "df_Workspace d = ws"
    "checkWriteConflicts V d = Inr ()" using pl d chk safe by auto
  fix s assume s: "s \<in> set (pl_Stages (df_Pipeline d))"
  from load_agents_Inr [OF ag] have ok: "\<forall>(k, a)\<in>set agents. agent_ok a \<and> ag_Name a = k"
    and dom: "fst ` set agents = sp_Agent ` set (pl_Stages pl)" by auto
  from s d dom have "sp_Agent s \<in> fst ` set agents" by auto
  then obtain a where a: "map_of agents (sp_Agent s) = Some a"
    by (metis map_of_eq_None_iff not_None_eq)
  with ok have "agent_ok a \<and> ag_Name a = sp_Agent s" by (fastforce dest: map_of_SomeD)
  with a d show "agent_ok (agent_of d (sp_Agent s)) \<and> ag_Name (agent_of d (sp_Agent s)) = sp_Agent s"
    by (simp add: agent_of_def)
qed

section \<open>Properties\<close>

text \<open>
  C40. No two stages may write the same file: when \<open>checkWriteConflicts\<close> accepts a definition, then
  whatever file name is given, the write patterns of two different stages never both match it.
  The hypothesis on the glob matcher is that a matching name starts with the literal directories
  the pattern starts with.
\<close>

theorem stages_write_disjoint_files:
  assumes "checkWriteConflicts V d = Inr ()"
    and "\<And>n p. GlobMatch n p \<Longrightarrow> prefix (takeWhile is_literal (Split p slash)) (Split n slash)"
    and "i < j" "j < length (pl_Stages (df_Pipeline d))"
    and "p \<in> set (ag_WritePaths (agent_of d (sp_Agent (pl_Stages (df_Pipeline d) ! i))))"
    and "q \<in> set (ag_WritePaths (agent_of d (sp_Agent (pl_Stages (df_Pipeline d) ! j))))"
  shows "\<not> (GlobMatch name p \<and> GlobMatch name q)"
  using writers_disjoint [where GlobMatch = GlobMatch, OF assms] .

text \<open>A matcher of whole directories and the pattern \<open>*\<close>, and two writers.\<close>

definition star_match :: "string \<Rightarrow> string \<Rightarrow> bool" where
  "star_match n p = list_all2 (\<lambda>x y. y = ''*'' \<or> y = x) (Split n slash) (Split p slash)"

definition two_writers :: Definition where
  "two_writers = \<lparr>df_Pipeline = zero_Pipeline\<lparr>pl_Stages :=
       [\<lparr>sp_ID = ''a'', sp_Agent = ''x'', sp_DependsOn = None, sp_Approvals = None, sp_Model = [], sp_Tools = None\<rparr>,
        \<lparr>sp_ID = ''b'', sp_Agent = ''y'', sp_DependsOn = None, sp_Approvals = None, sp_Model = [], sp_Tools = None\<rparr>]\<rparr>,
     df_Agents = [(''x'', zero_AgentSpec\<lparr>ag_WritePaths := [''docs/x/*'']\<rparr>), (''y'', zero_AgentSpec\<lparr>ag_WritePaths := [''docs/y/*'']\<rparr>)],
     df_ProjectSpec = [], df_Workspace = []\<rparr>"

lemma star_match_literal: "star_match n p \<Longrightarrow> prefix (takeWhile is_literal (Split p slash)) (Split n slash)"
proof -
  have star: "\<not> is_literal ''*''" by (simp add: is_literal_def ContainsAny_def)
  have "list_all2 (\<lambda>x y. y = ''*'' \<or> y = x) ns ps \<Longrightarrow> prefix (takeWhile is_literal ps) ns" for ns ps
    by (induction ns ps rule: list_all2_induct) (auto simp: star)
  then show "star_match n p \<Longrightarrow> ?thesis" by (simp add: star_match_def)
qed

theorem stages_write_disjoint_files_witness:
  "checkWriteConflicts (\<lambda>p. True) two_writers = Inr () \<and>
   \<not> (star_match ''docs/x/plan.md'' ''docs/x/*'' \<and> star_match ''docs/x/plan.md'' ''docs/y/*'')"
proof -
  have ok: "checkWriteConflicts (\<lambda>p. True) two_writers = Inr ()"
    by (simp add: checkWriteConflicts_def two_writers_def agent_of_def Protected_def ToLower_ascii protected_part_def
        protected_names_def protected_patterns_def roots_conflict_def literalRoot_def is_literal_def ContainsAny_def HasPrefix_def
        zero_AgentSpec_def)
  have "''docs/x/*'' \<in> set (ag_WritePaths (agent_of two_writers (sp_Agent (pl_Stages (df_Pipeline two_writers) ! 0))))"
    "''docs/y/*'' \<in> set (ag_WritePaths (agent_of two_writers (sp_Agent (pl_Stages (df_Pipeline two_writers) ! 1))))"
    by (simp_all add: two_writers_def agent_of_def)
  with stages_write_disjoint_files [where GlobMatch = star_match, OF ok star_match_literal, of 0 1 "''docs/x/*''" "''docs/y/*''" "''docs/x/plan.md''"] ok
  show ?thesis by (simp add: two_writers_def)
qed

end
