(* ===== verification/Store_DB.thy ===== *)
theory Store_DB
  imports Domain_Model "HOL-Library.Product_Lexorder"
begin

text \<open>
  The store (\<open>internal/store\<close>): the tables of the goose migrations as lists of rows in
  insertion order, every query of \<open>sqlc/queries.sql.go\<close> with the constraints PostgreSQL
  checks (primary keys, foreign keys, unique indexes, check constraints), the reader methods,
  and the transactions of \<open>store.go\<close>. A transaction is a function from the transaction state
  to an error or a result with the next state; \<open>WithTx\<close> runs one from the committed database,
  keeps the result on commit and the old database otherwise, and hands over the functions
  registered with \<open>AfterCommit\<close>. Every transaction on a task starts by locking its row, so
  two of them never interleave and a transaction is one atomic step.

  Parameters of a transaction, collected in \<open>env\<close>: PostgreSQL's \<open>now()\<close>, the clock and
  the UUIDs drawn during it, and whether beginning or committing it fails. A query that fails
  half way (a lost connection, a cancelled context) rolls back, which is the case of a failed
  \<open>BeginTx\<close>. \<open>order by\<close> on text is bytewise.
\<close>

section \<open>Tables\<close>

record Project = ProjectEntity +
  pr_CreatedAt :: time

record Stage = StageEntity +
  sr_StartedAt :: "time option"
  sr_CompletedAt :: "time option"
  sr_LeaseOwner :: "string option"
  sr_LeaseUntil :: "time option"

record Deliverable =
  d_ID :: string
  d_TaskID :: string
  d_StageID :: string
  d_Kind :: string
  d_Uri :: "string option"
  d_Content :: "string option"
  d_CommitSha :: "string option"
  d_Summary :: "string option"
  d_CreatedAt :: time

record UsageRecord =
  u_TaskID :: string
  u_StageKey :: "string option"
  u_Agent :: "string option"
  u_Model :: string
  u_InputTokens :: int
  u_OutputTokens :: int
  u_CacheReadTokens :: int
  u_CacheWriteTokens :: int
  u_Ts :: time

record db =
  db_projects :: "Project list"
  db_tasks :: "TaskEntity list"
  db_stages :: "Stage list"
  db_approvals :: "ApprovalEntity list"
  db_deliverables :: "Deliverable list"
  db_events :: "Event list"
  db_usages :: "UsageRecord list"

definition empty_db :: db where
  "empty_db = \<lparr>db_projects = [], db_tasks = [], db_stages = [], db_approvals = [],
     db_deliverables = [], db_events = [], db_usages = []\<rparr>"

section \<open>Transactions\<close>

datatype hook = PublishEvent Event | WakeTask string | CancelTask string | MarkCommitted

record env =
  e_now :: time
  e_clock :: "nat \<Rightarrow> int"
  e_uuid :: "nat \<Rightarrow> string"
  e_begin :: "err option"
  e_commit :: "(err \<times> bool) option"

record Tx =
  tx_db :: db
  tx_after :: "hook list"
  tx_env :: env
  tx_n :: nat

type_synonym 'a txm = "Tx \<Rightarrow> err + ('a \<times> Tx)"

definition retT :: "'a \<Rightarrow> 'a txm" where
  "retT v = (\<lambda>tx. Inr (v, tx))"

definition failT :: "err \<Rightarrow> 'a txm" where
  "failT e = (\<lambda>tx. Inl e)"

definition bindT :: "'a txm \<Rightarrow> ('a \<Rightarrow> 'b txm) \<Rightarrow> 'b txm" where
  "bindT m f = (\<lambda>tx. case m tx of Inl e \<Rightarrow> Inl e | Inr (v, tx') \<Rightarrow> f v tx')"

definition liftT :: "'a result \<Rightarrow> 'a txm" where
  "liftT r = (\<lambda>tx. case r of Inl e \<Rightarrow> Inl e | Inr v \<Rightarrow> Inr (v, tx))"

definition readT :: "(db \<Rightarrow> 'a result) \<Rightarrow> 'a txm" where
  "readT f = (\<lambda>tx. liftT (f (tx_db tx)) tx)"

definition whenT :: "bool \<Rightarrow> unit txm \<Rightarrow> unit txm" where
  "whenT b m = (if b then m else retT ())"

fun eachT :: "('a \<Rightarrow> unit txm) \<Rightarrow> 'a list \<Rightarrow> unit txm" where
  "eachT f [] = retT ()"
| "eachT f (x # xs) = bindT (f x) (\<lambda>_. eachT f xs)"

text \<open>Drawing a UUID (\<open>uuid.NewString\<close>) and reading the clock (\<open>time.Now\<close>).\<close>

definition NewString :: "string txm" where
  "NewString tx = Inr (e_uuid (tx_env tx) (tx_n tx), tx\<lparr>tx_n := tx_n tx + 1\<rparr>)"

definition TimeNow :: "int txm" where
  "TimeNow tx = Inr (e_clock (tx_env tx) (tx_n tx), tx)"

definition AfterCommit :: "hook \<Rightarrow> unit txm" where
  "AfterCommit h tx = Inr ((), tx\<lparr>tx_after := tx_after tx @ [h]\<rparr>)"

definition begin_tx :: "env \<Rightarrow> db \<Rightarrow> Tx" where
  "begin_tx env db = \<lparr>tx_db = db, tx_after = [], tx_env = env, tx_n = 0\<rparr>"

definition WithTx :: "env \<Rightarrow> 'a txm \<Rightarrow> db \<Rightarrow> 'a result \<times> db \<times> hook list" where
  "WithTx env fn db =
     (case e_begin env of Some e \<Rightarrow> (Inl e, db, [])
      | None \<Rightarrow>
        (case fn (begin_tx env db) of
           Inl e \<Rightarrow> (Inl e, db, [])
         | Inr (v, tx) \<Rightarrow>
             (case e_commit env of
                Some (e, applied) \<Rightarrow> (Inl (ErrCommit e), if applied then tx_db tx else db, [])
              | None \<Rightarrow> (Inr v, tx_db tx, tx_after tx))))"

section \<open>Queries\<close>

definition first_row :: "'r list \<Rightarrow> 'r result" where
  "first_row rows = (case rows of [] \<Rightarrow> Inl ErrNoRows | r # _ \<Rightarrow> Inr r)"

definition constraint :: "string \<Rightarrow> bool \<Rightarrow> unit txm" where
  "constraint name ok = (if ok then retT () else failT (ErrConstraint name))"

definition modT :: "(db \<Rightarrow> db) \<Rightarrow> unit txm" where
  "modT f tx = Inr ((), tx\<lparr>tx_db := f (tx_db tx)\<rparr>)"

definition GetProject :: "db \<Rightarrow> string \<Rightarrow> Project result" where
  "GetProject db rid = first_row (filter (\<lambda>p. p_ID p = rid) (db_projects db))"

definition ListProjects :: "db \<Rightarrow> Project list" where
  "ListProjects db = sort_key (\<lambda>p. (pr_CreatedAt p, p_ID p)) (db_projects db)"

definition CreateProject :: "string \<Rightarrow> string \<Rightarrow> string \<Rightarrow> string \<Rightarrow> string \<Rightarrow> int option \<Rightarrow> string option
    \<Rightarrow> unit txm" where
  "CreateProject rid name owner repo branch installation local tx =
     bindT (constraint ''project_pkey'' (rid \<notin> set (map p_ID (db_projects (tx_db tx))))) (\<lambda>_.
       modT (\<lambda>db. db\<lparr>db_projects := db_projects db @
         [\<lparr>p_ID = rid, p_Name = name, p_GithubOwner = owner, p_GithubRepo = repo, p_DefaultBranch = branch,
           p_InstallationID = installation, p_ContextPath = ''.devsquad'', p_LocalPath = local,
           p_TokenBudget = 2000000, pr_CreatedAt = e_now (tx_env tx)\<rparr>]\<rparr>)) tx"

definition GetTask :: "db \<Rightarrow> string \<Rightarrow> TaskEntity result" where
  "GetTask db rid = first_row (filter (\<lambda>t. t_ID t = rid) (db_tasks db))"

definition ListTasks :: "db \<Rightarrow> string option \<Rightarrow> string slice \<Rightarrow> TaskEntity list" where
  "ListTasks db project statuses =
     sort_key (\<lambda>t. (- t_CreatedAt t, t_ID t))
       (filter (\<lambda>t. (case project of None \<Rightarrow> True | Some p \<Rightarrow> t_ProjectID t = p)
          \<and> (case statuses of None \<Rightarrow> True | Some l \<Rightarrow> t_Status t \<in> set l)) (db_tasks db))"

definition new_task :: "string \<Rightarrow> string \<Rightarrow> string \<Rightarrow> string \<Rightarrow> Pipeline \<Rightarrow> string \<Rightarrow> int \<Rightarrow> time \<Rightarrow> TaskEntity" where
  "new_task rid project command createdBy pipeline workspace budget now =
     \<lparr>t_Pipeline = Some pipeline, t_Workspace = workspace, t_Version = 0, t_EventSeq = 0,
       t_TokenBudget = budget, t_ID = rid, t_ProjectID = project, t_Command = command,
       t_Status = ''queued'', t_CreatedBy = createdBy, t_CreatedAt = now, t_UpdatedAt = now,
       t_DiscordThreadID = None\<rparr>"

definition CreateTask :: "string \<Rightarrow> string \<Rightarrow> string \<Rightarrow> string \<Rightarrow> Pipeline \<Rightarrow> string \<Rightarrow> int \<Rightarrow> unit txm" where
  "CreateTask rid project command createdBy pipeline workspace budget tx =
     bindT (constraint ''task_pkey'' (rid \<notin> set (map t_ID (db_tasks (tx_db tx))))) (\<lambda>_.
     bindT (constraint ''task_project_id_fkey'' (project \<in> set (map p_ID (db_projects (tx_db tx))))) (\<lambda>_.
     bindT (constraint ''ck_task_token_budget'' (0 < budget)) (\<lambda>_.
       modT (\<lambda>db. db\<lparr>db_tasks := db_tasks db @
         [new_task rid project command createdBy pipeline workspace budget (e_now (tx_env tx))]\<rparr>)))) tx"

definition status_write :: "string \<Rightarrow> time \<Rightarrow> TaskEntity \<Rightarrow> TaskEntity" where
  "status_write status now t = t\<lparr>t_Status := status, t_Version := t_Version t + 1, t_UpdatedAt := now\<rparr>"

definition UpdateTaskStatus :: "string \<Rightarrow> string \<Rightarrow> int \<Rightarrow> int txm" where
  "UpdateTaskStatus rid status version tx =
     (let P = (\<lambda>t. t_ID t = rid \<and> t_Version t = version);
          n = length (filter P (db_tasks (tx_db tx)))
      in bindT (constraint ''ck_task_status'' (n = 0 \<or> status \<in> set task_statuses)) (\<lambda>_.
         bindT (modT (\<lambda>db. db\<lparr>db_tasks := update_where P (status_write status (e_now (tx_env tx)))
           (db_tasks db)\<rparr>)) (\<lambda>_. retT (int n))) tx)"

definition UpdateTaskBudget :: "string \<Rightarrow> int \<Rightarrow> int \<Rightarrow> int txm" where
  "UpdateTaskBudget rid budget version tx =
     (let P = (\<lambda>t. t_ID t = rid \<and> t_Version t = version);
          n = length (filter P (db_tasks (tx_db tx)))
      in bindT (constraint ''ck_task_token_budget'' (n = 0 \<or> 0 < budget)) (\<lambda>_.
         bindT (modT (\<lambda>db. db\<lparr>db_tasks := update_where P
           (\<lambda>t. t\<lparr>t_TokenBudget := budget, t_Version := t_Version t + 1, t_UpdatedAt := e_now (tx_env tx)\<rparr>)
           (db_tasks db)\<rparr>)) (\<lambda>_. retT (int n))) tx)"

definition TaskTokensUsed :: "db \<Rightarrow> string \<Rightarrow> int" where
  "TaskTokensUsed db rid = sum_list (map (\<lambda>u. u_InputTokens u + u_OutputTokens u + u_CacheReadTokens u
     + u_CacheWriteTokens u) (filter (\<lambda>u. u_TaskID u = rid) (db_usages db)))"

definition ListStages :: "db \<Rightarrow> string \<Rightarrow> Stage list" where
  "ListStages db task = sort_key s_StageKey (filter (\<lambda>s. s_TaskID s = task) (db_stages db))"

definition new_stage :: "string \<Rightarrow> string \<Rightarrow> string \<Rightarrow> string \<Rightarrow> string list \<Rightarrow> Stage" where
  "new_stage rid task key role deps =
     \<lparr>s_Plan = None, s_PlanRetryNo = 0, s_DeliverableRef = None, s_DeliverableSummary = None,
       s_DeliverableRetryNo = 0, s_LastFeedback = None, s_BlockedReason = None, s_Attempt = 0,
       s_Version = 0, s_ID = rid, s_TaskID = task, s_StageKey = key, s_Role = role,
       s_Status = ''pending'', s_DependsOn = deps, s_RetryCount = 0,
       sr_StartedAt = None, sr_CompletedAt = None, sr_LeaseOwner = None, sr_LeaseUntil = None\<rparr>"

definition CreateStage :: "string \<Rightarrow> string \<Rightarrow> string \<Rightarrow> string \<Rightarrow> string slice \<Rightarrow> unit txm" where
  "CreateStage rid task key role deps tx =
     bindT (constraint ''stage_pkey'' (rid \<notin> set (map s_ID (db_stages (tx_db tx))))) (\<lambda>_.
     bindT (constraint ''stage_task_id_fkey'' (task \<in> set (map t_ID (db_tasks (tx_db tx))))) (\<lambda>_.
     bindT (constraint ''ux_stage_task_key''
        ((task, key) \<notin> set (map (\<lambda>s. (s_TaskID s, s_StageKey s)) (db_stages (tx_db tx))))) (\<lambda>_.
     bindT (constraint ''stage_depends_on_not_null'' (deps \<noteq> None)) (\<lambda>_.
       modT (\<lambda>db. db\<lparr>db_stages := db_stages db @ [new_stage rid task key role (elems deps)]\<rparr>))))) tx"

definition claim_write :: "string \<Rightarrow> time \<Rightarrow> Stage \<Rightarrow> Stage" where
  "claim_write status now s = s\<lparr>s_Status := status, s_Attempt := s_Attempt s + 1,
     s_Version := s_Version s + 1,
     sr_StartedAt := (case sr_StartedAt s of None \<Rightarrow> Some now | Some t \<Rightarrow> Some t)\<rparr>"

definition ClaimStage :: "string \<Rightarrow> int \<Rightarrow> string \<Rightarrow> string \<Rightarrow> int txm" where
  "ClaimStage rid attempt status oldStatus tx =
     (let P = (\<lambda>s. s_ID s = rid \<and> s_Attempt s = attempt \<and> s_Status s = oldStatus);
          f = claim_write status (e_now (tx_env tx))
      in case filter P (db_stages (tx_db tx)) of
           [] \<Rightarrow> Inl ErrNoRows
         | r # _ \<Rightarrow>
             bindT (constraint ''ck_stage_status'' (status \<in> set stage_statuses)) (\<lambda>_.
             bindT (modT (\<lambda>db. db\<lparr>db_stages := update_where P f (db_stages db)\<rparr>)) (\<lambda>_.
             retT (s_Attempt (f r)))) tx)"

definition stage_match :: "StageEntity \<Rightarrow> string \<Rightarrow> Stage \<Rightarrow> bool" where
  "stage_match arg oldStatus s \<longleftrightarrow> s_ID s = s_ID arg \<and> s_Attempt s = s_Attempt arg
     \<and> s_Status s = oldStatus \<and> s_Version s = s_Version arg"

definition stage_write :: "StageEntity \<Rightarrow> time \<Rightarrow> Stage \<Rightarrow> Stage" where
  "stage_write arg now s = s\<lparr>s_Status := s_Status arg, s_Plan := s_Plan arg,
     s_PlanRetryNo := s_PlanRetryNo arg, s_DeliverableRef := s_DeliverableRef arg,
     s_DeliverableSummary := s_DeliverableSummary arg, s_DeliverableRetryNo := s_DeliverableRetryNo arg,
     s_LastFeedback := s_LastFeedback arg, s_BlockedReason := s_BlockedReason arg,
     s_RetryCount := s_PlanRetryNo arg + s_DeliverableRetryNo arg, s_Version := s_Version s + 1,
     sr_CompletedAt := (if s_Status arg = ''approved'' then Some now else sr_CompletedAt s)\<rparr>"

definition UpdateStageRow :: "StageEntity \<Rightarrow> string \<Rightarrow> int txm" where
  "UpdateStageRow arg oldStatus tx =
     (let P = stage_match arg oldStatus;
          n = length (filter P (db_stages (tx_db tx)))
      in bindT (constraint ''ck_stage_status'' (n = 0 \<or> s_Status arg \<in> set stage_statuses)) (\<lambda>_.
         bindT (modT (\<lambda>db. db\<lparr>db_stages := update_where P (stage_write arg (e_now (tx_env tx)))
           (db_stages db)\<rparr>)) (\<lambda>_. retT (int n))) tx)"

definition GetApproval :: "db \<Rightarrow> string \<Rightarrow> ApprovalEntity result" where
  "GetApproval db rid = first_row (filter (\<lambda>a. a_ID a = rid) (db_approvals db))"

definition ListApprovals :: "db \<Rightarrow> string option \<Rightarrow> string option \<Rightarrow> ApprovalEntity list" where
  "ListApprovals db task status =
     sort_key (\<lambda>a. (a_RequestedAt a, a_ID a))
       (filter (\<lambda>a. (case task of None \<Rightarrow> True | Some t \<Rightarrow> a_TaskID a = t)
          \<and> (case status of None \<Rightarrow> True | Some st \<Rightarrow> a_Status a = st)
          \<and> (status \<noteq> Some ''pending''
             \<or> list_ex (\<lambda>t. t_ID t = a_TaskID a
                  \<and> t_Status t \<notin> {''completed'', ''failed'', ''cancelled''}) (db_tasks db)))
        (db_approvals db))"

definition new_approval :: "string \<Rightarrow> string \<Rightarrow> string \<Rightarrow> string \<Rightarrow> int \<Rightarrow> string \<Rightarrow> string \<Rightarrow> time
    \<Rightarrow> ApprovalEntity" where
  "new_approval rid task stage kind retry title content now =
     \<lparr>a_Version = 0, a_ID = rid, a_TaskID = task, a_StageID = stage, a_Kind = kind, a_RetryNo = retry,
       a_Status = ''pending'', a_Title = title, a_Content = Some content, a_DecisionFeedback = None,
       a_EditedContent = None, a_DecidedBy = None, a_DecidedVia = None,
       a_RequestedAt = now, a_DecidedAt = None, a_ResumePending = False\<rparr>"

definition CreateApproval :: "string \<Rightarrow> string \<Rightarrow> string \<Rightarrow> string \<Rightarrow> int \<Rightarrow> string \<Rightarrow> string \<Rightarrow> unit txm" where
  "CreateApproval rid task stage kind retry title content tx =
     bindT (constraint ''approval_pkey'' (rid \<notin> set (map a_ID (db_approvals (tx_db tx))))) (\<lambda>_.
     bindT (constraint ''approval_task_id_fkey'' (task \<in> set (map t_ID (db_tasks (tx_db tx))))) (\<lambda>_.
     bindT (constraint ''approval_stage_id_fkey'' (stage \<in> set (map s_ID (db_stages (tx_db tx))))) (\<lambda>_.
     bindT (constraint ''ux_approval_stage_pending''
        (\<not> list_ex (\<lambda>a. a_StageID a = stage \<and> a_Status a = ''pending'') (db_approvals (tx_db tx)))) (\<lambda>_.
     bindT (constraint ''ux_approval_stage_kind_retry''
        ((stage, kind, retry) \<notin> set (map (\<lambda>a. (a_StageID a, a_Kind a, a_RetryNo a))
           (db_approvals (tx_db tx))))) (\<lambda>_.
       modT (\<lambda>db. db\<lparr>db_approvals := db_approvals db @
         [new_approval rid task stage kind retry title content (e_now (tx_env tx))]\<rparr>)))))) tx"

definition decision_write :: "string \<Rightarrow> string option \<Rightarrow> string option \<Rightarrow> string \<Rightarrow> time
    \<Rightarrow> ApprovalEntity \<Rightarrow> ApprovalEntity" where
  "decision_write status feedback edited user now a = a\<lparr>a_Status := status, a_DecisionFeedback := feedback,
     a_EditedContent := edited, a_DecidedBy := Some user, a_DecidedVia := Some ''web'',
     a_DecidedAt := Some now, a_Version := a_Version a + 1\<rparr>"

definition DecideApproval :: "string \<Rightarrow> string \<Rightarrow> string option \<Rightarrow> string option \<Rightarrow> string \<Rightarrow> int \<Rightarrow> int txm" where
  "DecideApproval rid status feedback edited user version tx =
     (let P = (\<lambda>a. a_ID a = rid \<and> a_Status a = ''pending'' \<and> a_Version a = version);
          n = length (filter P (db_approvals (tx_db tx)))
      in bindT (modT (\<lambda>db. db\<lparr>db_approvals := update_where P
           (decision_write status feedback edited user (e_now (tx_env tx))) (db_approvals db)\<rparr>)) (\<lambda>_.
         retT (int n)) tx)"

definition new_deliverable :: "string \<Rightarrow> string \<Rightarrow> string \<Rightarrow> string option \<Rightarrow> string option \<Rightarrow> string option
    \<Rightarrow> time \<Rightarrow> Deliverable" where
  "new_deliverable rid task stage uri content summary now =
     \<lparr>d_ID = rid, d_TaskID = task, d_StageID = stage, d_Kind = ''markdown'', d_Uri = uri,
       d_Content = content, d_CommitSha = None, d_Summary = summary, d_CreatedAt = now\<rparr>"

definition CreateDeliverable :: "string \<Rightarrow> string \<Rightarrow> string \<Rightarrow> string option \<Rightarrow> string option \<Rightarrow> string option
    \<Rightarrow> unit txm" where
  "CreateDeliverable rid task stage uri content summary tx =
     bindT (constraint ''deliverable_pkey'' (rid \<notin> set (map d_ID (db_deliverables (tx_db tx))))) (\<lambda>_.
     bindT (constraint ''deliverable_task_id_fkey'' (task \<in> set (map t_ID (db_tasks (tx_db tx))))) (\<lambda>_.
     bindT (constraint ''deliverable_stage_id_fkey'' (stage \<in> set (map s_ID (db_stages (tx_db tx))))) (\<lambda>_.
       modT (\<lambda>db. db\<lparr>db_deliverables := db_deliverables db @
         [new_deliverable rid task stage uri content summary (e_now (tx_env tx))]\<rparr>)))) tx"

definition LatestDeliverableID :: "db \<Rightarrow> string \<Rightarrow> string result" where
  "LatestDeliverableID db stage =
     bindR (first_row (rev (sort_key (\<lambda>d. (d_CreatedAt d, d_ID d))
       (filter (\<lambda>d. d_StageID d = stage) (db_deliverables db))))) (\<lambda>d. Inr (d_ID d))"

definition NextSequence :: "string \<Rightarrow> int txm" where
  "NextSequence rid tx =
     (case filter (\<lambda>t. t_ID t = rid) (db_tasks (tx_db tx)) of
        [] \<Rightarrow> Inl ErrNoRows
      | r # _ \<Rightarrow>
          bindT (modT (\<lambda>db. db\<lparr>db_tasks := update_where (\<lambda>t. t_ID t = rid)
            (\<lambda>t. t\<lparr>t_EventSeq := t_EventSeq t + 1\<rparr>) (db_tasks db)\<rparr>)) (\<lambda>_.
          retT (t_EventSeq r + 1)) tx)"

definition CreateEvent :: "Event \<Rightarrow> unit txm" where
  "CreateEvent ev tx =
     bindT (constraint ''task_event_task_id_fkey'' (ev_TaskID ev \<in> set (map t_ID (db_tasks (tx_db tx))))) (\<lambda>_.
     bindT (constraint ''ux_task_event_event_id''
        (ev_EventID ev \<notin> set (map ev_EventID (db_events (tx_db tx))))) (\<lambda>_.
     bindT (constraint ''ux_task_event_task_seq''
        ((ev_TaskID ev, ev_Seq ev) \<notin> set (map (\<lambda>e. (ev_TaskID e, ev_Seq e)) (db_events (tx_db tx))))) (\<lambda>_.
       modT (\<lambda>db. db\<lparr>db_events := db_events db @ [ev]\<rparr>)))) tx"

definition CreateUsage :: "UsageRecord \<Rightarrow> unit txm" where
  "CreateUsage u tx =
     bindT (constraint ''usage_record_task_id_fkey'' (u_TaskID u \<in> set (map t_ID (db_tasks (tx_db tx))))) (\<lambda>_.
       modT (\<lambda>db. db\<lparr>db_usages := db_usages db @ [u]\<rparr>)) tx"

text \<open>\<open>select distinct on (url)\<close> over rows ordered by url and seq: the first row of each url.\<close>

function distinct_on :: "('a \<Rightarrow> 'b) \<Rightarrow> 'a list \<Rightarrow> 'a list" where
  "distinct_on f [] = []"
| "distinct_on f (x # xs) = x # distinct_on f (dropWhile (\<lambda>y. f y = f x) xs)"
  by pat_completeness auto
termination
  by (relation "measure (length \<circ> snd)") (auto simp: less_Suc_eq_le length_dropWhile_le)

definition PullRequestURLs :: "db \<Rightarrow> string \<Rightarrow> (string \<times> int) list" where
  "PullRequestURLs db task =
     distinct_on fst (map (\<lambda>e. (jget_str (ev_Payload e) ''url'', ev_Seq e))
       (sort_key (\<lambda>e. (jget_str (ev_Payload e) ''url'', ev_Seq e))
         (filter (\<lambda>e. ev_TaskID e = task \<and> ev_Type e = ''pr.opened'') (db_events db))))"

definition ListEvents :: "db \<Rightarrow> string \<Rightarrow> int \<Rightarrow> int \<Rightarrow> Event list result" where
  "ListEvents db task after limit =
     (if limit < 0 then Inl (Errorf ''LIMIT must not be negative'')
      else Inr (take (nat limit) (sort_key ev_Seq
        (filter (\<lambda>e. ev_TaskID e = task \<and> after < ev_Seq e) (db_events db)))))"

section \<open>Readers and the methods of a transaction\<close>

definition ToUpper_ascii :: "string \<Rightarrow> string" where
  "ToUpper_ascii s = map (\<lambda>c. if is_lower c then char_of (of_char c - 32 :: nat) else c) s"

definition decode :: "string \<Rightarrow> 'a result \<Rightarrow> 'a result" where
  "decode resource r = (case r of
     Inl ErrNoRows \<Rightarrow> Inl (Fault 404 (ToUpper_ascii resource @ ''_NOT_FOUND'') (resource @ '' not found''))
   | _ \<Rightarrow> r)"

definition Reader_Project :: "db \<Rightarrow> string \<Rightarrow> ProjectEntity result" where
  "Reader_Project db rid = bindR (decode ''project'' (GetProject db rid)) (\<lambda>p. Inr (ProjectEntity.truncate p))"

definition Reader_Projects :: "db \<Rightarrow> ProjectEntity list" where
  "Reader_Projects db = map ProjectEntity.truncate (ListProjects db)"

definition Reader_Task :: "db \<Rightarrow> string \<Rightarrow> TaskEntity result" where
  "Reader_Task db rid = decode ''task'' (GetTask db rid)"

definition LockTask :: "string \<Rightarrow> TaskEntity txm" where
  "LockTask rid = readT (\<lambda>db. decode ''task'' (GetTask db rid))"

definition Reader_Tasks :: "db \<Rightarrow> string option \<Rightarrow> string slice \<Rightarrow> TaskEntity list" where
  "Reader_Tasks db project statuses = ListTasks db project statuses"

definition Reader_Stages :: "db \<Rightarrow> string \<Rightarrow> StageEntity list" where
  "Reader_Stages db task = map StageEntity.truncate (ListStages db task)"

definition Reader_Approval :: "db \<Rightarrow> string \<Rightarrow> ApprovalEntity result" where
  "Reader_Approval db rid = decode ''approval'' (GetApproval db rid)"

definition Reader_Approvals :: "db \<Rightarrow> string option \<Rightarrow> string option \<Rightarrow> ApprovalEntity list" where
  "Reader_Approvals db task status = ListApprovals db task status"

definition Completion :: "db \<Rightarrow> string \<Rightarrow> json" where
  "Completion db task =
     (let rows = PullRequestURLs db task
      in if rows = [] then JObj []
         else JObj [(''pr_urls'', JArr (map (JStr \<circ> fst) (sort_key snd rows)))])"

definition SetStatus :: "TaskEntity \<Rightarrow> string \<Rightarrow> TaskEntity txm" where
  "SetStatus task status =
     bindT (UpdateTaskStatus (t_ID task) status (t_Version task)) (\<lambda>n.
       if n \<noteq> 1 then failT (Fault 409 ''INVALID_TRANSITION'' ''task version changed'')
       else retT (task\<lparr>t_Status := status, t_Version := t_Version task + 1\<rparr>))"

definition UpdateStage :: "StageEntity \<Rightarrow> string \<Rightarrow> unit txm" where
  "UpdateStage s oldStatus =
     bindT (UpdateStageRow s oldStatus) (\<lambda>n. if n \<noteq> 1 then failT ErrStale else retT ())"

fun FindStage :: "StageEntity list \<Rightarrow> string \<Rightarrow> StageEntity result" where
  "FindStage [] rid = Inl (Errorf (''missing stage '' @ rid))"
| "FindStage (s # ss) rid = (if s_ID s = rid then Inr s else FindStage ss rid)"

text \<open>\<open>json.Unmarshal\<close> of the task's pipeline column into a struct holding \<open>p\<close>: SQL null
  (JSON \<open>null\<close>) leaves the struct as it is.\<close>

definition UnmarshalPipeline :: "Pipeline option \<Rightarrow> Pipeline \<Rightarrow> Pipeline" where
  "UnmarshalPipeline raw p = (case raw of None \<Rightarrow> p | Some q \<Rightarrow> q)"

section \<open>Rows and what the writes leave alone\<close>

lemma truncate_simps [simp]:
  "s_Plan (StageEntity.truncate r) = s_Plan r"
  "s_PlanRetryNo (StageEntity.truncate r) = s_PlanRetryNo r"
  "s_DeliverableRef (StageEntity.truncate r) = s_DeliverableRef r"
  "s_DeliverableSummary (StageEntity.truncate r) = s_DeliverableSummary r"
  "s_DeliverableRetryNo (StageEntity.truncate r) = s_DeliverableRetryNo r"
  "s_LastFeedback (StageEntity.truncate r) = s_LastFeedback r"
  "s_BlockedReason (StageEntity.truncate r) = s_BlockedReason r"
  "s_Attempt (StageEntity.truncate r) = s_Attempt r"
  "s_Version (StageEntity.truncate r) = s_Version r"
  "s_ID (StageEntity.truncate r) = s_ID r"
  "s_TaskID (StageEntity.truncate r) = s_TaskID r"
  "s_StageKey (StageEntity.truncate r) = s_StageKey r"
  "s_Role (StageEntity.truncate r) = s_Role r"
  "s_Status (StageEntity.truncate r) = s_Status r"
  "s_DependsOn (StageEntity.truncate r) = s_DependsOn r"
  "s_RetryCount (StageEntity.truncate r) = s_RetryCount r"
  by (simp_all add: StageEntity.truncate_def)

lemma status_write_simps [simp]:
  "t_ID (status_write st now t) = t_ID t" "t_Status (status_write st now t) = st"
  "t_Pipeline (status_write st now t) = t_Pipeline t" "t_EventSeq (status_write st now t) = t_EventSeq t"
  "t_Version (status_write st now t) = t_Version t + 1" "t_Workspace (status_write st now t) = t_Workspace t"
  "t_ProjectID (status_write st now t) = t_ProjectID t" "t_TokenBudget (status_write st now t) = t_TokenBudget t"
  by (simp_all add: status_write_def)

lemma claim_write_simps [simp]:
  "s_ID (claim_write st now s) = s_ID s" "s_TaskID (claim_write st now s) = s_TaskID s"
  "s_StageKey (claim_write st now s) = s_StageKey s" "s_DependsOn (claim_write st now s) = s_DependsOn s"
  "s_Role (claim_write st now s) = s_Role s" "s_Status (claim_write st now s) = st"
  "s_Attempt (claim_write st now s) = s_Attempt s + 1" "s_Version (claim_write st now s) = s_Version s + 1"
  "s_PlanRetryNo (claim_write st now s) = s_PlanRetryNo s"
  "s_DeliverableRetryNo (claim_write st now s) = s_DeliverableRetryNo s"
  "s_RetryCount (claim_write st now s) = s_RetryCount s"
  "s_BlockedReason (claim_write st now s) = s_BlockedReason s"
  by (simp_all add: claim_write_def)

lemma stage_write_simps [simp]:
  "s_ID (stage_write arg now s) = s_ID s" "s_TaskID (stage_write arg now s) = s_TaskID s"
  "s_StageKey (stage_write arg now s) = s_StageKey s" "s_DependsOn (stage_write arg now s) = s_DependsOn s"
  "s_Role (stage_write arg now s) = s_Role s" "s_Status (stage_write arg now s) = s_Status arg"
  "s_Attempt (stage_write arg now s) = s_Attempt s" "s_Version (stage_write arg now s) = s_Version s + 1"
  "s_PlanRetryNo (stage_write arg now s) = s_PlanRetryNo arg"
  "s_DeliverableRetryNo (stage_write arg now s) = s_DeliverableRetryNo arg"
  "s_RetryCount (stage_write arg now s) = s_PlanRetryNo arg + s_DeliverableRetryNo arg"
  "s_BlockedReason (stage_write arg now s) = s_BlockedReason arg"
  by (simp_all add: stage_write_def)

lemma decision_write_simps [simp]:
  "a_ID (decision_write st f e u now a) = a_ID a" "a_TaskID (decision_write st f e u now a) = a_TaskID a"
  "a_StageID (decision_write st f e u now a) = a_StageID a" "a_Kind (decision_write st f e u now a) = a_Kind a"
  "a_RetryNo (decision_write st f e u now a) = a_RetryNo a" "a_Status (decision_write st f e u now a) = st"
  "a_Version (decision_write st f e u now a) = a_Version a + 1"
  by (simp_all add: decision_write_def)

lemma first_row_Inr: "first_row rows = Inr r \<Longrightarrow> r \<in> set rows"
  by (auto simp: first_row_def split: list.splits)

lemma first_row_key:
  assumes "distinct (map f rows)"
  shows "first_row (filter (\<lambda>r. f r = k) rows) = Inr r \<longleftrightarrow> r \<in> set rows \<and> f r = k"
  using assms
proof (induction rows)
  case (Cons a rows)
  have none: "filter (\<lambda>r. f r = f a) rows = []"
    using Cons.prems by (auto simp: filter_empty_conv image_iff)
  show ?case
  proof (cases "f a = k")
    case True
    then show ?thesis using none Cons.prems by (auto simp: first_row_def image_iff)
  next
    case False
    then show ?thesis using Cons by auto
  qed
qed (simp add: first_row_def)

lemma decode_Inr [simp]: "decode res r = Inr v \<longleftrightarrow> r = Inr v"
  by (auto simp: decode_def split: sum.splits err.splits)

lemma set_Reader_Stages: "set (Reader_Stages db task) = StageEntity.truncate ` {s \<in> set (db_stages db). s_TaskID s = task}"
  by (auto simp: Reader_Stages_def ListStages_def)

lemma FindStage_Inr: "FindStage ss rid = Inr s \<Longrightarrow> s \<in> set ss \<and> s_ID s = rid"
  by (induction ss rid rule: FindStage.induct) (auto split: if_splits)

lemma FindStage_key:
  assumes "distinct (map s_ID ss)"
  shows "FindStage ss rid = Inr s \<longleftrightarrow> s \<in> set ss \<and> s_ID s = rid"
  using assms by (induction ss) (auto simp: image_iff)

section \<open>Reasoning about transactions\<close>

lemma bindT_Inr:
  "bindT m f tx = Inr r \<longleftrightarrow> (\<exists>v tx'. m tx = Inr (v, tx') \<and> f v tx' = Inr r)"
  by (auto simp: bindT_def split: sum.splits prod.splits)

lemma bindT_InrE:
  assumes "bindT m f tx = Inr r"
  obtains v tx' where "m tx = Inr (v, tx')" "f v tx' = Inr r"
  using assms by (auto simp: bindT_Inr)

lemma guard_InrE:
  assumes "(if b then failT e else m) tx = Inr r"
  obtains "\<not> b" "m tx = Inr r"
  using assms by (cases b) (auto simp: failT_def)

lemma bindT_step: "m tx = Inr (v, tx') \<Longrightarrow> bindT m f tx = f v tx'"
  by (simp add: bindT_def)

lemma bindT_fail: "m tx = Inl e \<Longrightarrow> bindT m f tx = Inl e"
  by (simp add: bindT_def)

lemma tx_basic [simp]:
  "retT v tx = Inr (v, tx)"
  "failT e tx = Inl e"
  "modT f tx = Inr ((), tx\<lparr>tx_db := f (tx_db tx)\<rparr>)"
  "AfterCommit h tx = Inr ((), tx\<lparr>tx_after := tx_after tx @ [h]\<rparr>)"
  "NewString tx = Inr (e_uuid (tx_env tx) (tx_n tx), tx\<lparr>tx_n := tx_n tx + 1\<rparr>)"
  "TimeNow tx = Inr (e_clock (tx_env tx) (tx_n tx), tx)"
  "liftT (Inr v) tx = Inr (v, tx)"
  "liftT (Inl e) tx = Inl e"
  by (simp_all add: retT_def failT_def modT_def AfterCommit_def NewString_def TimeNow_def liftT_def)

lemma liftT_Inr: "liftT r tx = Inr (v, tx') \<longleftrightarrow> r = Inr v \<and> tx' = tx"
  by (cases r) auto

lemma readT_Inr: "readT f tx = Inr (v, tx') \<longleftrightarrow> f (tx_db tx) = Inr v \<and> tx' = tx"
  by (simp add: readT_def liftT_Inr)

lemma constraint_Inr: "constraint c ok tx = Inr (u, tx') \<longleftrightarrow> ok \<and> tx' = tx"
  by (auto simp: constraint_def)

lemma constraint_True [simp]: "constraint c True tx = Inr ((), tx)"
  by (simp add: constraint_def)

lemma whenT_Inr: "whenT b m tx = Inr (u, tx') \<longleftrightarrow> (if b then m tx = Inr (u, tx') else tx' = tx)"
  by (auto simp: whenT_def)

lemmas tx_Inr = bindT_Inr liftT_Inr readT_Inr constraint_Inr whenT_Inr

text \<open>What each query needs to succeed and what it then does.\<close>

lemma LockTask_Inr: "LockTask rid tx = Inr (t, tx') \<longleftrightarrow> GetTask (tx_db tx) rid = Inr t \<and> tx' = tx"
  by (simp add: LockTask_def readT_Inr)

lemma SetStatus_Inr:
  "SetStatus t st tx = Inr (t', tx') \<longleftrightarrow>
     (let P = (\<lambda>r. t_ID r = t_ID t \<and> t_Version r = t_Version t); d = tx_db tx in
      length (filter P (db_tasks d)) = 1 \<and> st \<in> set task_statuses \<and>
      t' = t\<lparr>t_Status := st, t_Version := t_Version t + 1\<rparr> \<and>
      tx' = tx\<lparr>tx_db := d\<lparr>db_tasks := update_where P (status_write st (e_now (tx_env tx))) (db_tasks d)\<rparr>\<rparr>)"
  by (auto simp: SetStatus_def UpdateTaskStatus_def Let_def tx_Inr split: if_splits)

lemma UpdateTaskBudget_Inr:
  "UpdateTaskBudget rid budget version tx = Inr (n, tx') \<Longrightarrow>
     (\<exists>P f. (\<forall>t. P t \<longrightarrow> t_ID t = rid) \<and> (\<forall>t. \<exists>v u. f t = t\<lparr>t_TokenBudget := budget, t_Version := v, t_UpdatedAt := u\<rparr>) \<and>
      tx' = tx\<lparr>tx_db := (tx_db tx)\<lparr>db_tasks := update_where P f (db_tasks (tx_db tx))\<rparr>\<rparr>)"
  unfolding UpdateTaskBudget_def Let_def tx_Inr
  by (rule exI [of _ "\<lambda>t. t_ID t = rid \<and> t_Version t = version"],
      rule exI [of _ "\<lambda>t. t\<lparr>t_TokenBudget := budget, t_Version := t_Version t + 1, t_UpdatedAt := e_now (tx_env tx)\<rparr>"])
    auto

lemma UpdateStage_Inr:
  "UpdateStage s old tx = Inr (u, tx') \<longleftrightarrow>
     (let d = tx_db tx in
      length (filter (stage_match s old) (db_stages d)) = 1 \<and> s_Status s \<in> set stage_statuses \<and>
      tx' = tx\<lparr>tx_db := d\<lparr>db_stages :=
        update_where (stage_match s old) (stage_write s (e_now (tx_env tx))) (db_stages d)\<rparr>\<rparr>)"
  by (auto simp: UpdateStage_def UpdateStageRow_def Let_def tx_Inr split: if_splits)

lemma ClaimStage_Inr:
  "ClaimStage rid attempt status old tx = Inr (n, tx') \<longleftrightarrow>
     (let P = (\<lambda>s. s_ID s = rid \<and> s_Attempt s = attempt \<and> s_Status s = old); d = tx_db tx in
      (\<exists>r\<in>set (db_stages d). P r) \<and> status \<in> set stage_statuses \<and> n = attempt + 1 \<and>
      tx' = tx\<lparr>tx_db := d\<lparr>db_stages := update_where P (claim_write status (e_now (tx_env tx))) (db_stages d)\<rparr>\<rparr>)"
proof (cases "filter (\<lambda>s. s_ID s = rid \<and> s_Attempt s = attempt \<and> s_Status s = old) (db_stages (tx_db tx))")
  case Nil
  then show ?thesis by (auto simp: ClaimStage_def Let_def filter_empty_conv)
next
  case (Cons r rs)
  then have "r \<in> set (db_stages (tx_db tx)) \<and> s_ID r = rid \<and> s_Attempt r = attempt \<and> s_Status r = old"
    by (metis (mono_tags, lifting) filter_eq_ConsD in_set_conv_decomp)
  with Cons show ?thesis by (auto simp: ClaimStage_def Let_def tx_Inr)
qed

lemma ClaimStage_NoRows:
  "(\<And>r. r \<in> set (db_stages (tx_db tx)) \<Longrightarrow> \<not> (s_ID r = rid \<and> s_Attempt r = attempt \<and> s_Status r = old)) \<Longrightarrow>
     ClaimStage rid attempt status old tx = Inl ErrNoRows"
  by (simp add: ClaimStage_def Let_def filter_False)

lemma DecideApproval_Inr:
  "DecideApproval rid st f e u v tx = Inr (n, tx') \<longleftrightarrow>
     (let P = (\<lambda>a. a_ID a = rid \<and> a_Status a = ''pending'' \<and> a_Version a = v); d = tx_db tx in
      n = int (length (filter P (db_approvals d))) \<and>
      tx' = tx\<lparr>tx_db := d\<lparr>db_approvals :=
        update_where P (decision_write st f e u (e_now (tx_env tx))) (db_approvals d)\<rparr>\<rparr>)"
  by (auto simp: DecideApproval_def Let_def tx_Inr)

lemma NextSequence_Inr:
  assumes "distinct (map t_ID (db_tasks (tx_db tx)))"
  shows "NextSequence rid tx = Inr (n, tx') \<longleftrightarrow>
     (\<exists>t. GetTask (tx_db tx) rid = Inr t \<and> n = t_EventSeq t + 1 \<and>
      tx' = tx\<lparr>tx_db := (tx_db tx)\<lparr>db_tasks := update_where (\<lambda>t. t_ID t = rid)
        (\<lambda>t. t\<lparr>t_EventSeq := t_EventSeq t + 1\<rparr>) (db_tasks (tx_db tx))\<rparr>\<rparr>)"
  by (cases "filter (\<lambda>t. t_ID t = rid) (db_tasks (tx_db tx))")
    (auto simp: NextSequence_def GetTask_def first_row_def tx_Inr)

lemma CreateEvent_Inr:
  "CreateEvent ev tx = Inr (u, tx') \<longleftrightarrow>
     ev_TaskID ev \<in> set (map t_ID (db_tasks (tx_db tx))) \<and>
     ev_EventID ev \<notin> set (map ev_EventID (db_events (tx_db tx))) \<and>
     (ev_TaskID ev, ev_Seq ev) \<notin> set (map (\<lambda>e. (ev_TaskID e, ev_Seq e)) (db_events (tx_db tx))) \<and>
     tx' = tx\<lparr>tx_db := (tx_db tx)\<lparr>db_events := db_events (tx_db tx) @ [ev]\<rparr>\<rparr>"
  by (auto simp: CreateEvent_def tx_Inr)

lemma CreateUsage_Inr:
  "CreateUsage r tx = Inr (u, tx') \<longleftrightarrow>
     u_TaskID r \<in> set (map t_ID (db_tasks (tx_db tx))) \<and>
     tx' = tx\<lparr>tx_db := (tx_db tx)\<lparr>db_usages := db_usages (tx_db tx) @ [r]\<rparr>\<rparr>"
  by (auto simp: CreateUsage_def tx_Inr)

lemma CreateTask_Inr:
  "CreateTask rid p c by pl w b tx = Inr (u, tx') \<longleftrightarrow>
     rid \<notin> t_ID ` set (db_tasks (tx_db tx)) \<and> p \<in> p_ID ` set (db_projects (tx_db tx)) \<and> 0 < b \<and>
     tx' = tx\<lparr>tx_db := (tx_db tx)\<lparr>db_tasks := db_tasks (tx_db tx) @
       [new_task rid p c by pl w b (e_now (tx_env tx))]\<rparr>\<rparr>"
  by (auto simp: CreateTask_def tx_Inr)

lemma CreateStage_Inr:
  "CreateStage rid t k r ds tx = Inr (u, tx') \<longleftrightarrow>
     rid \<notin> s_ID ` set (db_stages (tx_db tx)) \<and> t \<in> t_ID ` set (db_tasks (tx_db tx)) \<and>
     (t, k) \<notin> (\<lambda>s. (s_TaskID s, s_StageKey s)) ` set (db_stages (tx_db tx)) \<and> ds \<noteq> None \<and>
     tx' = tx\<lparr>tx_db := (tx_db tx)\<lparr>db_stages := db_stages (tx_db tx) @ [new_stage rid t k r (elems ds)]\<rparr>\<rparr>"
  by (auto simp: CreateStage_def tx_Inr)

lemma CreateApproval_Inr:
  "CreateApproval rid t st k n ti c tx = Inr (u, tx') \<longleftrightarrow>
     rid \<notin> a_ID ` set (db_approvals (tx_db tx)) \<and> t \<in> t_ID ` set (db_tasks (tx_db tx)) \<and>
     st \<in> s_ID ` set (db_stages (tx_db tx)) \<and>
     (\<forall>a\<in>set (db_approvals (tx_db tx)). \<not> (a_StageID a = st \<and> a_Status a = ''pending'')) \<and>
     (\<forall>a\<in>set (db_approvals (tx_db tx)). \<not> (a_StageID a = st \<and> a_Kind a = k \<and> a_RetryNo a = n)) \<and>
     tx' = tx\<lparr>tx_db := (tx_db tx)\<lparr>db_approvals := db_approvals (tx_db tx) @
       [new_approval rid t st k n ti c (e_now (tx_env tx))]\<rparr>\<rparr>"
  unfolding CreateApproval_def tx_Inr by (auto simp: list_ex_iff image_iff tx_Inr)

lemma CreateDeliverable_Inr:
  "CreateDeliverable rid t st ur c su tx = Inr (u, tx') \<longleftrightarrow>
     rid \<notin> d_ID ` set (db_deliverables (tx_db tx)) \<and> t \<in> t_ID ` set (db_tasks (tx_db tx)) \<and>
     st \<in> s_ID ` set (db_stages (tx_db tx)) \<and>
     tx' = tx\<lparr>tx_db := (tx_db tx)\<lparr>db_deliverables := db_deliverables (tx_db tx) @
       [new_deliverable rid t st ur c su (e_now (tx_env tx))]\<rparr>\<rparr>"
  by (auto simp: CreateDeliverable_def tx_Inr)

text \<open>A transaction changes the database only through the state it returns.\<close>

lemma WithTx_cases:
  assumes "WithTx env fn db = (r, db', hs)"
  obtains (rolled_back) e where "r = Inl e" "db' = db" "hs = []"
  | (committed) v tx where "fn (begin_tx env db) = Inr (v, tx)" "db' = tx_db tx"
      "r = Inr v \<and> hs = tx_after tx \<or> (\<exists>e. r = Inl (ErrCommit e)) \<and> hs = []"
  using assms
  by (auto simp: WithTx_def split: option.splits sum.splits prod.splits if_splits)

lemma WithTx_ok:
  assumes "e_begin env = None" "e_commit env = None"
  shows "WithTx env fn db = (case fn (begin_tx env db) of Inl e \<Rightarrow> (Inl e, db, [])
     | Inr (v, tx) \<Rightarrow> (Inr v, tx_db tx, tx_after tx))"
  using assms by (simp add: WithTx_def split: sum.split prod.split)

lemma begin_tx_simps [simp]:
  "tx_db (begin_tx env db) = db" "tx_after (begin_tx env db) = []"
  "tx_env (begin_tx env db) = env" "tx_n (begin_tx env db) = 0"
  by (simp_all add: begin_tx_def)

text \<open>
  What every step of a transaction does to the database, as a relation. The locale is the
  contract: for a reflexive and transitive relation it is enough to look at the primitive
  queries, and whole transactions follow by composition.
\<close>

definition obeys :: "(db \<Rightarrow> db \<Rightarrow> bool) \<Rightarrow> 'a txm \<Rightarrow> bool" where
  "obeys R m \<longleftrightarrow> (\<forall>tx v tx'. m tx = Inr (v, tx') \<longrightarrow> R (tx_db tx) (tx_db tx'))"

lemma obeysI: "(\<And>tx v tx'. m tx = Inr (v, tx') \<Longrightarrow> R (tx_db tx) (tx_db tx')) \<Longrightarrow> obeys R m"
  by (simp add: obeys_def)

lemma obeysD: "obeys R m \<Longrightarrow> m tx = Inr (v, tx') \<Longrightarrow> R (tx_db tx) (tx_db tx')"
  by (simp add: obeys_def)

locale tx_relation =
  fixes R :: "db \<Rightarrow> db \<Rightarrow> bool"
  assumes R_refl: "R d d"
    and R_trans: "R a b \<Longrightarrow> R b c \<Longrightarrow> R a c"
begin

lemma ret: "obeys R (retT v)"
  and fail: "obeys R (failT e)"
  and new_string: "obeys R NewString"
  and time_now: "obeys R TimeNow"
  and after_commit: "obeys R (AfterCommit h)"
  and lift: "obeys R (liftT r)"
  and read: "obeys R (readT f)"
  and check: "obeys R (constraint c ok)"
  by (auto simp: obeys_def R_refl tx_Inr)

lemma bind:
  assumes "obeys R m" and "\<And>v. obeys R (f v)"
  shows "obeys R (bindT m f)"
proof (rule obeysI)
  fix tx w tx'
  assume "bindT m f tx = Inr (w, tx')"
  then obtain v tx1 where "m tx = Inr (v, tx1)" "f v tx1 = Inr (w, tx')"
    by (auto simp: bindT_Inr)
  with assms show "R (tx_db tx) (tx_db tx')" by (meson obeysD R_trans)
qed

lemma lift_bind: "(\<And>v. r = Inr v \<Longrightarrow> obeys R (f v)) \<Longrightarrow> obeys R (bindT (liftT r) f)"
  by (cases r) (auto simp: obeys_def bindT_Inr)

lemma guard: "(b \<Longrightarrow> obeys R m) \<Longrightarrow> obeys R (whenT b m)"
  by (auto simp: whenT_def intro: ret)

lemma each: "(\<And>x. x \<in> set xs \<Longrightarrow> obeys R (f x)) \<Longrightarrow> obeys R (eachT f xs)"
  by (induction xs) (auto intro: ret bind)

lemma cond: "(b \<Longrightarrow> obeys R m) \<Longrightarrow> (\<not> b \<Longrightarrow> obeys R n) \<Longrightarrow> obeys R (if b then m else n)"
  by simp

lemma with_tx:
  assumes "obeys R fn" "WithTx env fn db = (r, db', hs)"
  shows "R db db'"
  using assms(2) by (cases rule: WithTx_cases) (use assms(1) obeysD R_refl in fastforce)+

lemmas compose = ret fail new_string time_now after_commit lift read check bind guard each cond

end

end
