(* ===== verification/Stage_Types.thy ===== *)
theory Stage_Types
  imports Agent_Def Store_DB
begin

text \<open>
  The data a stage run exchanges with the orchestrator (\<open>internal/stage/runner.go\<close>): its input,
  its result, and \<open>Truncate\<close>, which cuts a text after a number of runes.
\<close>

record Input =
  in_TaskID :: string
  in_Command :: string
  in_Mode :: string
  in_Plan :: string
  in_Feedback :: string
  in_Inputs :: string
  in_Stage :: StageSpec
  in_Definition :: Definition
  in_RetryNo :: int

record Result =
  rs_Content :: string
  rs_Ref :: "string option"
  rs_WrittenPaths :: "string list"
  rs_Iterations :: int
  rs_HitLimit :: bool

definition zero_Result :: Result where
  "zero_Result = \<lparr>rs_Content = [], rs_Ref = None, rs_WrittenPaths = [], rs_Iterations = 0, rs_HitLimit = False\<rparr>"

text \<open>The conversions \<open>[]rune(s)\<close> and \<open>string(r)\<close>; the ellipsis is U+2026.\<close>

definition Truncate :: "string \<Rightarrow> nat \<Rightarrow> string" where
  "Truncate s n =
     (let r = map fst (runes s)
      in if n < length r then concat (map EncodeRune (take n r)) @ EncodeRune 0x2026 else s)"

lemma length_runes_encode:
  "list_all valid_rune rs \<Longrightarrow> length (runes (concat (map EncodeRune rs))) = length rs"
  by (simp add: runes_encode)

text \<open>A truncated text has at most \<open>n + 1\<close> runes and a text that is short enough is not changed.\<close>

lemma Truncate_bound: "length (runes (Truncate s n)) \<le> n + 1"
proof -
  let ?r = "map fst (runes s)"
  show ?thesis
  proof (cases "n < length ?r")
    case True
    let ?rs = "take n ?r @ [0x2026]"
    have "list_all valid_rune ?rs"
      using runes_valid [of _ s] by (auto simp: list_all_iff valid_rune_def dest!: in_set_takeD)
    moreover have "Truncate s n = concat (map EncodeRune ?rs)"
      using True by (simp add: Truncate_def)
    ultimately show ?thesis by (simp add: length_runes_encode del: map_append)
  qed (simp add: Truncate_def)
qed

lemma Truncate_short: "length (runes s) \<le> n \<Longrightarrow> Truncate s n = s"
  by (simp add: Truncate_def)

text \<open>
  \<open>Truncate\<close> returns at most \<open>n + 1\<close> runes of well-formed UTF-8, keeps the first \<open>n\<close> of the
  text, and returns a text of at most \<open>n\<close> runes unchanged.
\<close>

lemma truncate_bounded:
  "length (runes (Truncate s n)) \<le> n + 1 \<and>
   (if length (runes s) \<le> n then Truncate s n = s
    else map fst (runes (Truncate s n)) = take n (map fst (runes s)) @ [0x2026])"
proof (cases "length (runes s) \<le> n")
  case True
  with Truncate_bound [of s n] Truncate_short [OF True] show ?thesis by simp
next
  case False
  let ?rs = "take n (map fst (runes s)) @ [0x2026]"
  have "list_all valid_rune ?rs"
    using runes_valid [of _ s] by (auto simp: list_all_iff valid_rune_def dest!: in_set_takeD)
  moreover have "Truncate s n = concat (map EncodeRune ?rs)" using False by (simp add: Truncate_def)
  ultimately have "map fst (runes (Truncate s n)) = ?rs" using runes_encode [of ?rs] by (simp add: comp_def)
  with False Truncate_bound [of s n] show ?thesis by simp
qed

end
