(* ===== verification/Scm_Report.thy ===== *)
theory Scm_Report
  imports Stage_Types
begin

text \<open>
  The text of pull requests (\<open>internal/scm/body.go\<close>): titles, Markdown table cells and quotes,
  and the report body. Korean literals are given by their code points. Times are microseconds
  since 1970-01-01 UTC. Shown: a title is one line of bounded length, a table cell can neither end
  its row nor open another cell without a backslash, a quotation cannot leave its block, and the
  approval table has one line per approval.
\<close>

abbreviation nl :: char where
  "nl \<equiv> CHR 0x0A"

abbreviation utf8 :: "nat list \<Rightarrow> string" where
  "utf8 rs \<equiv> concat (map EncodeRune rs)"

record ApprovalReport =
  ar_Kind :: string
  ar_RetryNo :: int
  ar_Status :: string
  ar_DecidedBy :: string
  ar_DecidedAt :: "time option"
  ar_Feedback :: string

record StageReport =
  sr_Key :: string
  sr_Role :: string
  sr_Branch :: string
  sr_Ref :: string
  sr_Summary :: string
  sr_Approvals :: "ApprovalReport list"

record Report =
  rp_TaskID :: string
  rp_Command :: string
  rp_Owner :: string
  rp_Repo :: string
  rp_WebURL :: string
  rp_Stages :: "StageReport list"

definition Title :: "string \<Rightarrow> string \<Rightarrow> string" where
  "Title command role =
     (let line = map fst (runes (TrimSpace (SplitN (TrimSpace command) [nl] 2 ! 0)));
          line = (if 80 < length line then take 80 line @ [0x2026] else line)
      in if role = [] then ''[DevSquad] '' @ utf8 line
         else ''[DevSquad] '' @ utf8 line @ '' ('' @ role @ '')'')"

text \<open>\<open>strings.ReplaceAll\<close> of a single byte, \<open>strings.TrimRight\<close> with a cutset of one byte.\<close>

definition ReplaceAll :: "string \<Rightarrow> char \<Rightarrow> string \<Rightarrow> string" where
  "ReplaceAll s old new = concat (map (\<lambda>c. if c = old then new else [c]) s)"

definition TrimRight :: "string \<Rightarrow> char \<Rightarrow> string" where
  "TrimRight s c = rev (dropWhile (\<lambda>x. x = c) (rev s))"

definition cell :: "string \<Rightarrow> string" where
  "cell s = ReplaceAll (ReplaceAll (TrimSpace s) (CHR ''|'') [CHR 0x5C, CHR ''|'']) nl '' ''"

definition quote :: "string \<Rightarrow> string" where
  "quote s = ''> '' @ ReplaceAll (TrimSpace s) nl ([nl] @ ''> '')"

text \<open>\<open>Format("2006-01-02 15:04 UTC")\<close>; the date of a day number by the civil calendar.\<close>

definition civil :: "int \<Rightarrow> int \<times> int \<times> int" where
  "civil days =
     (let z = days + 719468; era = z div 146097; doe = z mod 146097;
          yoe = (doe - doe div 1460 + doe div 36524 - doe div 146096) div 365;
          doy = doe - (365 * yoe + yoe div 4 - yoe div 100);
          mp = (5 * doy + 2) div 153;
          d = doy - (153 * mp + 2) div 5 + 1;
          m = (if mp < 10 then mp + 3 else mp - 9)
      in (yoe + era * 400 + (if m \<le> 2 then 1 else 0), m, d))"

definition pad :: "nat \<Rightarrow> int \<Rightarrow> string" where
  "pad n i = (let s = show_int i in replicate (n - length s) (CHR ''0'') @ s)"

definition FormatUTC :: "time \<Rightarrow> string" where
  "FormatUTC t =
     (let minutes = t div 60000000; (y, m, d) = civil (minutes div 1440); rest = minutes mod 1440
      in pad 4 y @ ''-'' @ pad 2 m @ ''-'' @ pad 2 d @ '' '' @ pad 2 (rest div 60) @ '':'' @ pad 2 (rest mod 60) @ '' UTC'')"

definition stage_section :: "Report \<Rightarrow> StageReport \<Rightarrow> string" where
  "stage_section r s =
     [nl] @ ''### '' @ sr_Key s @ '' ('' @ sr_Role s @ '')'' @ [nl, nl]
     @ (if sr_Ref s \<noteq> [] \<and> rp_WebURL r \<noteq> [] \<and> sr_Branch s \<noteq> []
        then ''- '' @ utf8 [0xC0B0, 0xCD9C, 0xBB3C] @ '': ['' @ sr_Ref s @ '']('' @ TrimRight (rp_WebURL r) (CHR ''/'') @ ''/''
          @ rp_Owner r @ ''/'' @ rp_Repo r @ ''/blob/'' @ sr_Branch s @ ''/'' @ sr_Ref s @ '')'' @ [nl]
        else if sr_Ref s \<noteq> []
        then ''- '' @ utf8 [0xC0B0, 0xCD9C, 0xBB3C] @ '': `'' @ sr_Ref s @ ''`'' @ [nl] else [])
     @ (if TrimSpace (sr_Summary s) \<noteq> [] then [nl] @ quote (sr_Summary s) @ [nl] else [])"

definition approval_row :: "StageReport \<Rightarrow> ApprovalReport \<Rightarrow> string" where
  "approval_row s a =
     (let at = (case ar_DecidedAt a of None \<Rightarrow> [] | Some t \<Rightarrow> FormatUTC t)
      in ''| '' @ sr_Key s @ '' | '' @ ar_Kind a @ '' | v'' @ show_int (ar_RetryNo a + 1) @ '' | '' @ ar_Status a @ '' | ''
         @ cell (ar_DecidedBy a) @ '' | '' @ at @ '' | '' @ cell (ar_Feedback a) @ '' |'' @ [nl])"

definition Body :: "Report \<Rightarrow> string" where
  "Body r =
     ''## Task'' @ [nl, nl] @ quote (rp_Command r) @ [nl, nl] @ ''Task ID: `'' @ rp_TaskID r @ ''`'' @ [nl, nl] @ ''## ''
     @ utf8 [0xB2E8, 0xACC4, 0xBCC4, 0x20, 0xC0B0, 0xCD9C, 0xBB3C] @ [nl]
     @ concat (map (stage_section r) (rp_Stages r))
     @ [nl] @ ''## '' @ utf8 [0xC2B9, 0xC778, 0x20, 0xC774, 0xB825] @ [nl, nl]
     @ ''| '' @ utf8 [0xB2E8, 0xACC4] @ '' | '' @ utf8 [0xC885, 0xB958] @ '' | '' @ utf8 [0xBC84, 0xC804]
     @ '' | '' @ utf8 [0xACB0, 0xC815] @ '' | '' @ utf8 [0xACB0, 0xC815, 0xC790] @ '' | '' @ utf8 [0xC2DC, 0xAC01]
     @ '' | '' @ utf8 [0xD53C, 0xB4DC, 0xBC31] @ '' |'' @ [nl] @ ''|---|---|---|---|---|---|---|'' @ [nl]
     @ concat (map (\<lambda>s. concat (map (approval_row s) (sr_Approvals s))) (rp_Stages r))
     @ [nl] @ ''---'' @ [nl] @ ''DevSquad'' @ utf8 [0xAC00, 0x20, 0xC0AC, 0xB78C, 0xC758, 0x20, 0xC2B9, 0xC778, 0xC744, 0x20,
       0xAC70, 0xCE5C, 0x20, 0xC0B0, 0xCD9C, 0xBB3C, 0xB85C, 0x20, 0xB9CC, 0xB4E0, 0x20] @ ''PR'' @ utf8 [0xC785, 0xB2C8, 0xB2E4]
     @ ''.'' @ [nl]"

section \<open>Lines\<close>

lemma Cut_char:
  "Cut s [c] = None \<Longrightarrow> c \<notin> set s"
  "Cut s [c] = Some (a, b) \<Longrightarrow> c \<notin> set a"
proof (induction s arbitrary: a)
  case Nil
  { case 1 show ?case by simp }
  { case 2 then show ?case by (simp add: Cut.simps HasPrefix_def) }
next
  case (Cons x s)
  { case 1
    then have "x \<noteq> c" "Cut s [c] = None"
      by (auto simp: Cut.simps [of "x # s"] HasPrefix_def split: if_splits option.splits)
    with Cons.IH(1) show ?case by simp }
  { case 2
    show ?case
    proof (cases "x = c")
      case True
      with 2 show ?thesis by (simp add: Cut.simps HasPrefix_def)
    next
      case False
      with 2 obtain a' where "Cut s [c] = Some (a', b)" "a = x # a'"
        by (auto simp: Cut.simps [of "x # s"] HasPrefix_def split: option.splits)
      with Cons.IH(2) False show ?thesis by simp
    qed }
qed

lemma first_line: "nl \<notin> set (SplitN s [nl] 2 ! 0)"
  by (auto simp: numeral_2_eq_2 dest: Cut_char split: option.split)

text \<open>A newline byte comes only from a newline rune.\<close>

lemma EncodeRune_nl: "valid_rune r \<Longrightarrow> nl \<in> set (EncodeRune r) \<Longrightarrow> r = 10"
proof -
  have of_nl: "nl = char_of n \<longleftrightarrow> n mod 256 = 10" for n :: nat
    using char_of_eq_iff [of n nl] by (auto simp: take_bit_eq_mod)
  assume r: "valid_rune r" "nl \<in> set (EncodeRune r)"
  have m: "(0x80 + x mod 64) mod 256 \<noteq> (10::nat)" for x :: nat by simp
  have b: "(0xC0 + x) mod 256 \<noteq> (10::nat)" if "x < 32" for x :: nat using that by simp
  have b3: "(0xE0 + x) mod 256 \<noteq> (10::nat)" if "x < 16" for x :: nat using that by simp
  have b4: "(0xF0 + x) mod 256 \<noteq> (10::nat)" if "x < 5" for x :: nat using that by simp
  have d: "r < 0x800 \<Longrightarrow> r div 64 < 32" "r < 0x10000 \<Longrightarrow> r div 4096 < 16" "r div 262144 < 5"
    using r(1) by (auto simp: valid_rune_def)
  show "r = 10"
    using r m b [OF d(1)] b3 [OF d(2)] b4 [OF d(3)] unfolding EncodeRune_def valid_rune_def
    by (auto simp: of_nl split: if_splits)
qed

lemma DecodeRune_small: "fst (DecodeRune (c # cs)) = 10 \<Longrightarrow> c = nl"
proof -
  have "c = nl" if "of_char c = (10::nat)"
    using that of_char_eq_iff [of c nl, where 'a = nat] by simp
  then show "fst (DecodeRune (c # cs)) = 10 \<Longrightarrow> c = nl"
    by (auto simp: DecodeRune_def RuneError_def split: if_splits list.splits)
qed

lemma runes_nl: "nl \<notin> set s \<Longrightarrow> 10 \<notin> fst ` set (runes s)"
proof (induction s rule: runes.induct)
  case (2 c cs)
  obtain r w where rw: "DecodeRune (c # cs) = (r, w)" by fastforce
  have "nl \<notin> set (drop (w - 1) cs)" using "2.prems" by (auto dest: in_set_dropD)
  with "2.IH" [OF rw [symmetric] refl] have "10 \<notin> fst ` set (runes (drop (w - 1) cs))" by blast
  moreover have "r \<noteq> 10" using DecodeRune_small [of c cs] rw "2.prems" by auto
  ultimately show ?case using rw by simp
qed simp

lemma utf8_nl: "list_all valid_rune rs \<Longrightarrow> 10 \<notin> set rs \<Longrightarrow> nl \<notin> set (utf8 rs)"
  using EncodeRune_nl by (fastforce simp: list_all_iff)

text \<open>The runes of a title's command line.\<close>

definition title_line :: "string \<Rightarrow> nat list" where
  "title_line command =
     (let line = map fst (runes (TrimSpace (SplitN (TrimSpace command) [nl] 2 ! 0)))
      in if 80 < length line then take 80 line @ [0x2026] else line)"

lemma Title_line:
  "Title command role = ''[DevSquad] '' @ utf8 (title_line command) @ (if role = [] then [] else '' ('' @ role @ '')'')"
  by (simp add: Title_def title_line_def Let_def)

lemma title_line: "length (title_line command) \<le> 81" "list_all valid_rune (title_line command)" "10 \<notin> set (title_line command)"
proof -
  let ?s = "TrimSpace (SplitN (TrimSpace command) [nl] 2 ! 0)"
  show "length (title_line command) \<le> 81" by (simp add: title_line_def Let_def)
  have "\<forall>r\<in>fst ` set (runes ?s). valid_rune r" using runes_valid [of _ ?s] by auto
  moreover have "valid_rune 0x2026" by (simp add: valid_rune_def)
  ultimately show "list_all valid_rune (title_line command)"
    by (auto simp: title_line_def Let_def list_all_iff dest!: in_set_takeD)
  have "nl \<notin> set ?s" using first_line TrimSpace_subset by blast
  then have "10 \<notin> fst ` set (runes ?s)" by (rule runes_nl)
  then show "10 \<notin> set (title_line command)" by (auto simp: title_line_def Let_def dest: in_set_takeD)
qed

text \<open>ASCII characters of a prefix are runes of their own.\<close>

lemma runes_ascii_append: "\<forall>c\<in>set a. of_char c < (128::nat) \<Longrightarrow> runes (a @ b) = runes a @ runes b"
  by (induction a) (auto simp: DecodeRune_def)

lemma Title_runes: "length (runes (Title command [])) \<le> 92"
proof -
  have "runes (Title command []) = runes ''[DevSquad] '' @ runes (utf8 (title_line command))"
    by (simp add: Title_line runes_ascii_append del: append.simps)
  moreover have "length (runes ''[DevSquad] '') = 11" by (simp add: DecodeRune_def)
  ultimately show ?thesis using title_line(1,2) [of command] by (simp add: runes_encode)
qed

lemma Title_one_line: "nl \<notin> set role \<Longrightarrow> nl \<notin> set (Title command role)"
  using utf8_nl [OF title_line(2,3), of command] by (simp add: Title_line)

section \<open>Cells and quotations\<close>

lemma set_ReplaceAll: "set (ReplaceAll s old new) = (set s - {old}) \<union> (if old \<in> set s then set new else {})"
  by (auto simp: ReplaceAll_def)

lemma cell_one_line: "nl \<notin> set (cell s)"
  by (simp add: cell_def set_ReplaceAll)

text \<open>Every bar of the text comes right after a backslash.\<close>

fun bars_escaped :: "bool \<Rightarrow> string \<Rightarrow> bool" where
  "bars_escaped p [] = True"
| "bars_escaped p (c # cs) = ((c = CHR ''|'' \<longrightarrow> p) \<and> bars_escaped (c = CHR 0x5C) cs)"

lemma bars_escaped_cell: "bars_escaped p (cell s)"
proof -
  have "bars_escaped p (ReplaceAll (ReplaceAll t (CHR ''|'') [CHR 0x5C, CHR ''|'']) nl '' '')" for t
    by (induction t arbitrary: p) (auto simp: ReplaceAll_def)
  then show ?thesis by (simp add: cell_def)
qed

lemma cell_safe: "nl \<notin> set (cell s) \<and> bars_escaped False (cell s)"
  by (simp add: cell_one_line bars_escaped_cell)

text \<open>The lines of a quotation, each behind its mark.\<close>

fun lines_of :: "string \<Rightarrow> string list" where
  "lines_of [] = [[]]"
| "lines_of (c # cs) = (if c = nl then [] # lines_of cs else (c # hd (lines_of cs)) # tl (lines_of cs))"

lemma lines_of_nonempty [simp]: "lines_of s \<noteq> []"
  by (cases s) auto

lemma lines_of_append: "nl \<notin> set p \<Longrightarrow> lines_of (p @ s) = (p @ hd (lines_of s)) # tl (lines_of s)"
  by (induction p) auto

lemma quote_lines: "lines_of (quote s) = map (\<lambda>l. ''> '' @ l) (lines_of (TrimSpace s))"
proof -
  have "lines_of (''> '' @ ReplaceAll t nl ([nl] @ ''> '')) = map (\<lambda>l. ''> '' @ l) (lines_of t)" for t
  proof (induction t)
    case (Cons c t)
    then show ?case by (cases "lines_of t") (auto simp: ReplaceAll_def)
  qed (simp add: ReplaceAll_def)
  then show ?thesis by (simp add: quote_def)
qed

section \<open>Rows\<close>

lemma digits_one_line [simp]: "nl \<notin> set (digits n)"
proof (induction n rule: digits.induct)
  case (1 n)
  have "nl \<noteq> char_of (48 + k)" if "k < 10" for k :: nat
    using char_of_eq_iff [of "48 + k" nl] that by (auto simp: take_bit_eq_mod)
  then have "nl \<noteq> char_of (48 + n mod 10)" by simp
  with 1 show ?case by (subst digits.simps) auto
qed

lemma show_int_one_line [simp]: "nl \<notin> set (show_int i)"
  by (simp add: show_int_def)

lemma FormatUTC_one_line [simp]: "nl \<notin> set (FormatUTC t)"
  by (auto simp: FormatUTC_def pad_def Let_def split: prod.split)

lemma approval_row_line:
  assumes "nl \<notin> set (sr_Key s)" "nl \<notin> set (ar_Kind a)" "nl \<notin> set (ar_Status a)"
  shows "\<exists>row. approval_row s a = row @ [nl] \<and> nl \<notin> set row"
  using assms cell_one_line by (auto simp: approval_row_def Let_def split: option.split)

section \<open>Properties\<close>

text \<open>
  A pull request title is one line, whatever the command holds, and has at most 92 runes
  besides the role it names.
\<close>

theorem title_one_bounded_line:
  assumes "nl \<notin> set role"
  shows "nl \<notin> set (Title command role) \<and>
    (\<exists>line. Title command role = line @ (if role = [] then [] else '' ('' @ role @ '')'') \<and> length (runes line) \<le> 92)"
proof -
  have "Title command role = Title command [] @ (if role = [] then [] else '' ('' @ role @ '')'')"
    by (simp add: Title_line)
  with Title_one_line [OF assms] Title_runes show ?thesis by blast
qed

theorem title_one_bounded_line_witness:
  "nl \<notin> set (Title [CHR ''a'', nl, CHR ''b''] ''dev'')"
  using title_one_bounded_line [of "''dev''" "[CHR ''a'', nl, CHR ''b'']"] by simp

text \<open>
  User text cannot break out of the report's Markdown: a table cell holds no newline and no
  bar without a backslash before it, and every line of a quotation carries the quotation mark.
\<close>

lemma report_text_confined:
  "nl \<notin> set (cell s) \<and> bars_escaped False (cell s) \<and>
   lines_of (quote s) = map (\<lambda>l. ''> '' @ l) (lines_of (TrimSpace s))"
  using cell_safe quote_lines by blast

end
