(* ===== verification/Orch_Tx.thy ===== *)
theory Orch_Tx
  imports Event_Log Stage_Types
begin

text \<open>
  The transactions of the orchestrator (\<open>internal/orchestrator/orchestrator.go\<close>, and
  \<open>block\<close> of \<open>publish.go\<close>): each locks the task, checks that its stage snapshot is still
  current, writes, and emits. The stage argument \<open>s\<close> of \<open>claim\<close> is a row read earlier; that of
  \<open>progress\<close>, \<open>commit\<close> and \<open>block\<close> is the one \<open>claim\<close> returned.
\<close>

definition deriveTx :: "TaskEntity \<Rightarrow> unit txm" where
  "deriveTx t =
     bindT (readT (\<lambda>db. Inr (Reader_Stages db (t_ID t)))) (\<lambda>stages.
       let to = Derive (t_Status t) stages
       in if to = t_Status t then retT ()
          else bindT (SetStatus t to) (\<lambda>t.
            if to = ''completed''
            then bindT (readT (\<lambda>db. Inr (Completion db (t_ID t)))) (\<lambda>payload.
              Emit (t_ID t) [] [] ''run.completed'' payload)
            else retT ()))"

definition derive_tx :: "string \<Rightarrow> unit txm" where
  "derive_tx rid = bindT (LockTask rid) deriveTx"

definition json_stage :: "StageSpec \<Rightarrow> json" where
  "json_stage s =
     (let strs = (\<lambda>l. JArr (map JStr l)); slice = (\<lambda>l. case l of None \<Rightarrow> JNull | Some v \<Rightarrow> strs v)
      in JObj ([(''id'', JStr (sp_ID s)), (''agent'', JStr (sp_Agent s)), (''depends_on'', slice (sp_DependsOn s)),
            (''approvals'', slice (sp_Approvals s))]
          @ (if sp_Model s = [] then [] else [(''model'', JStr (sp_Model s))])
          @ [(''tools'', slice (sp_Tools s))]))"

definition start_tx :: "string \<Rightarrow> Definition \<Rightarrow> unit txm" where
  "start_tx rid d =
     bindT (LockTask rid) (\<lambda>t.
       if t_Status t \<noteq> ''queued'' then retT ()
       else bindT (SetStatus t ''running'') (\<lambda>_.
            bindT (liftT (Levels (df_Pipeline d))) (\<lambda>levels.
            Emit rid [] [] ''run.started''
              (JObj [(''stages'', JArr (map json_stage (pl_Stages (df_Pipeline d)))),
                (''levels'', JArr (map (\<lambda>l. JArr (map JStr l)) levels))]))))"

definition claim_tx :: "string \<Rightarrow> StageEntity \<Rightarrow> string \<Rightarrow> StageEntity txm" where
  "claim_tx rid s mode =
     bindT (LockTask rid) (\<lambda>t.
       if Terminal (t_Status t) \<or> t_Status t = ''paused'' \<or> t_Status t = ''blocked'' then failT ErrStale
       else
         bindT (whenT (s_Status s = ''pending'') (readT (\<lambda>db.
             if Ready s (Reader_Stages db rid) then Inr () else Inl ErrStale))) (\<lambda>_.
         let to = (if mode = ''execute'' then ''executing'' else ''planning'')
         in bindT (ClaimStage (s_ID s) (s_Attempt s) to (s_Status s)) (\<lambda>attempt.
            bindT (whenT (s_Status s = ''pending'')
                (Emit rid (s_StageKey s) (s_Role s) ''stage.started'' (JObj [(''role'', JStr (s_Role s))]))) (\<lambda>_.
            retT (s\<lparr>s_Status := to, s_Attempt := attempt, s_Version := s_Version s + 1\<rparr>)))))"

definition progress_tx :: "string \<Rightarrow> StageEntity \<Rightarrow> string \<Rightarrow> json \<Rightarrow> unit txm" where
  "progress_tx rid s kind payload =
     bindT (LockTask rid) (\<lambda>t.
       if Terminal (t_Status t) then failT ErrStale
       else
         bindT (readT (\<lambda>db. FindStage (Reader_Stages db rid) (s_ID s))) (\<lambda>current.
           if s_Attempt current \<noteq> s_Attempt s \<or> s_Status current \<noteq> s_Status s then failT ErrStale
           else Emit rid (s_StageKey s) (s_Role s) kind payload))"

text \<open>The stage \<open>commit\<close> writes back, the kind of its approval and the retry number.\<close>

definition commit_kind :: "Input \<Rightarrow> string" where
  "commit_kind inp = (if in_Mode inp = ''execute'' then ''deliverable'' else ''plan'')"

definition commit_retry :: "StageEntity \<Rightarrow> Input \<Rightarrow> int" where
  "commit_retry s inp = (if in_Mode inp = ''execute'' then s_DeliverableRetryNo s else s_PlanRetryNo s)"

definition commit_gate :: "Input \<Rightarrow> bool" where
  "commit_gate inp \<longleftrightarrow> commit_kind inp \<in> set (elems (sp_Approvals (in_Stage inp)))"

definition commit_stage :: "StageEntity \<Rightarrow> Input \<Rightarrow> Result \<Rightarrow> StageEntity" where
  "commit_stage s inp r =
     (let s = s\<lparr>s_Plan := Some (rs_Content r), s_Status := ''executing''\<rparr>;
          s = (if in_Mode inp = ''execute''
               then s\<lparr>s_Plan := Some (in_Plan inp), s_Status := ''approved'', s_DeliverableRef := rs_Ref r,
                 s_DeliverableSummary := Some (Truncate (rs_Content r) 400)\<rparr> else s)
      in if commit_gate inp then s\<lparr>s_Status := commit_kind inp @ ''_review''\<rparr> else s)"

definition optionalID :: "string \<Rightarrow> string option" where
  "optionalID rid = (if rid = [] then None else Some rid)"

text \<open>\<open>"%s %s \<dots> (v%d)"\<close> with the Korean word for approval, U+C2B9 U+C778.\<close>

definition approval_title :: "string \<Rightarrow> string \<Rightarrow> int \<Rightarrow> string" where
  "approval_title key kind retry = key @ '' '' @ kind @ '' '' @ EncodeRune 0xC2B9 @ EncodeRune 0xC778
     @ '' (v'' @ show_int (retry + 1) @ '')''"

definition commit_deliverable :: "string \<Rightarrow> StageEntity \<Rightarrow> Result \<Rightarrow> string txm" where
  "commit_deliverable rid s r =
     bindT NewString (\<lambda>did.
     bindT (CreateDeliverable did rid (s_ID s) (rs_Ref r) (Some (rs_Content r)) (s_DeliverableSummary s)) (\<lambda>_.
     bindT (Emit rid (s_StageKey s) (s_Role s) ''deliverable.produced''
       (JObj [(''deliverable_id'', JStr did), (''kind'', JStr ''markdown''), (''uri'', jopt (rs_Ref r)),
         (''summary'', jopt (s_DeliverableSummary s)),
         (''written_paths'', JArr (map JStr (rs_WrittenPaths r))), (''iterations'', JInt (rs_Iterations r)),
         (''hit_limit'', JBool (rs_HitLimit r))])) (\<lambda>_.
     retT did)))"

definition commit_approval :: "string \<Rightarrow> StageEntity \<Rightarrow> string \<Rightarrow> int \<Rightarrow> Result \<Rightarrow> string \<Rightarrow> unit txm" where
  "commit_approval rid s kind retry r did =
     bindT NewString (\<lambda>aid.
     let title = approval_title (s_StageKey s) kind retry
     in bindT (CreateApproval aid rid (s_ID s) kind retry title (rs_Content r)) (\<lambda>_.
        Emit rid (s_StageKey s) (s_Role s) ''approval.requested''
          (JObj [(''approval_id'', JStr aid), (''kind'', JStr kind), (''retry_no'', JInt retry),
            (''title'', JStr title), (''content'', JStr (rs_Content r)),
            (''content_preview'', JStr (Truncate (rs_Content r) 1500)),
            (''deliverable_id'', jopt (optionalID did))])))"

definition commit_announce :: "string \<Rightarrow> StageEntity \<Rightarrow> Input \<Rightarrow> int \<Rightarrow> Result \<Rightarrow> string \<Rightarrow> unit txm" where
  "commit_announce rid s inp retry r did =
     (if commit_gate inp then commit_approval rid s (commit_kind inp) retry r did
      else if in_Mode inp = ''execute''
      then Emit rid (s_StageKey s) (s_Role s) ''stage.completed''
        (JObj [(''deliverable_ref'', jopt (s_DeliverableRef s)), (''deliverable_id'', JStr did)])
      else retT ())"

definition commit_tx :: "string \<Rightarrow> StageEntity \<Rightarrow> Input \<Rightarrow> Result \<Rightarrow> unit txm" where
  "commit_tx rid s0 inp r =
     bindT (LockTask rid) (\<lambda>t.
       if Terminal (t_Status t) then failT ErrStale
       else
         let s = commit_stage s0 inp r in
         bindT (UpdateStage s (s_Status s0)) (\<lambda>_.
         bindT (if in_Mode inp = ''execute'' then commit_deliverable rid s r else retT []) (\<lambda>did.
         bindT (commit_announce rid s inp (commit_retry s0 inp) r did) (\<lambda>_.
         deriveTx t))))"

definition fail_tx :: "string \<Rightarrow> string \<Rightarrow> int \<Rightarrow> err \<Rightarrow> unit txm" where
  "fail_tx rid stageID attempt cause =
     bindT (LockTask rid) (\<lambda>t.
       if Terminal (t_Status t) then retT ()
       else
         bindT (if stageID \<noteq> []
                then bindT (readT (\<lambda>db. FindStage (Reader_Stages db rid) stageID)) (\<lambda>s.
                  if s_Attempt s \<noteq> attempt then failT ErrStale else retT (s_StageKey s))
                else retT []) (\<lambda>key.
         bindT (SetStatus t ''failed'') (\<lambda>_.
         bindT (Emit rid key [] ''run.failed''
             (JObj [(''error'', JStr (error_text cause)), (''node'', JStr key)])) (\<lambda>_.
         AfterCommit (CancelTask rid)))))"

definition block_tx :: "string \<Rightarrow> StageEntity \<Rightarrow> err \<Rightarrow> unit txm" where
  "block_tx rid s0 cause =
     bindT (LockTask rid) (\<lambda>t.
       if Terminal (t_Status t) then retT ()
       else
         let s = s0\<lparr>s_Status := ''blocked'', s_BlockedReason := Some ''publish''\<rparr> in
         bindT (UpdateStage s (s_Status s0)) (\<lambda>_.
         bindT (Emit rid (s_StageKey s) (s_Role s) ''stage.blocked''
             (JObj [(''reason'', JStr ''publish_failed''), (''error'', JStr (error_text cause)),
               (''last_feedback'', jopt (s_LastFeedback s))])) (\<lambda>_.
         deriveTx t)))"

text \<open>The mode \<open>Reconcile\<close> runs a stage in; empty when there is nothing to run.\<close>

definition stage_mode :: "StageEntity \<Rightarrow> StageEntity list \<Rightarrow> string" where
  "stage_mode s stages =
     (if s_Status s = ''pending'' then (if Ready s stages then ''plan'' else [])
      else if s_Status s = ''planning'' then ''plan''
      else if s_Status s = ''executing'' then ''execute'' else [])"

definition stage_input :: "TaskEntity \<Rightarrow> Definition \<Rightarrow> StageEntity list \<Rightarrow> StageEntity \<Rightarrow> StageEntity \<Rightarrow> string
    \<Rightarrow> StageSpec \<Rightarrow> Input" where
  "stage_input t d stages s claimed mode spec =
     \<lparr>in_TaskID = t_ID t, in_Command = t_Command t, in_Mode = mode, in_Plan = Text (s_Plan claimed),
       in_Feedback = Text (s_LastFeedback claimed),
       in_Inputs = concat (map (\<lambda>dep. s_StageKey dep @ '': '' @ Text (s_DeliverableRef dep) @ [CHR 0x0A]
           @ Text (s_DeliverableSummary dep) @ [CHR 0x0A])
         (filter (\<lambda>dep. s_StageKey dep \<in> set (s_DependsOn s)) stages)),
       in_Stage = spec, in_Definition = d,
       in_RetryNo = (if mode = ''execute'' then s_DeliverableRetryNo claimed else s_PlanRetryNo claimed)\<rparr>"

text \<open>
  The input of the run \<open>Reconcile\<close> spawns for a claimed stage: the specification is looked up by
  the stage's key in the pipeline snapshot; \<open>None\<close> is the error "missing stage in pipeline snapshot".
\<close>

definition pipeline_snapshot :: "TaskEntity \<Rightarrow> Definition \<Rightarrow> Definition" where
  "pipeline_snapshot t d = d\<lparr>df_Pipeline := UnmarshalPipeline (t_Pipeline t) (df_Pipeline d)\<rparr>"

definition claim_input :: "TaskEntity \<Rightarrow> Definition \<Rightarrow> StageEntity list \<Rightarrow> StageEntity \<Rightarrow> string \<Rightarrow> StageEntity
    \<Rightarrow> Input option" where
  "claim_input t d stages s mode claimed =
     (case find (\<lambda>v. sp_ID v = s_StageKey s) (pl_Stages (df_Pipeline d)) of
        None \<Rightarrow> None
      | Some spec \<Rightarrow> if sp_ID spec = [] then None else Some (stage_input t d stages s claimed mode spec))"

end
