(* ===== verification/App_Services.thy ===== *)
theory App_Services
  imports Event_Log Stage_Types
begin

text \<open>
  The application services (\<open>internal/app\<close>): approvals (\<open>approval.go\<close>), tasks (\<open>task.go\<close>),
  the budget guard (\<open>budget.go\<close>), projects (\<open>project.go\<close>) and their responses (\<open>dto.go\<close>).
  A handler that reads before its transaction takes two databases: the one it read and the one its
  transaction runs on, since other transactions may commit in between. It returns its result, the
  database afterwards and the functions to run after the commit; the coordinator is present.
  A response is read from one database.
\<close>

section \<open>Requests and responses\<close>

record DecisionRequest =
  rq_StageKey :: string
  rq_Kind :: string
  rq_RetryNo :: int
  rq_ApprovalID :: string
  rq_Decision :: string
  rq_Feedback :: "string option"
  rq_EditedContent :: "string option"

record DecidedResponse =
  dr_ID :: string
  dr_Status :: string
  dr_DecidedAt :: "time option"
  dr_DecidedVia :: "string option"

record ApprovalDTO =
  ad_ID :: string
  ad_TaskID :: string
  ad_StageID :: string
  ad_Kind :: string
  ad_RetryNo :: int
  ad_Status :: string
  ad_Title :: string
  ad_Content :: "string option"
  ad_DecisionFeedback :: "string option"
  ad_EditedContent :: "string option"
  ad_DecidedBy :: "string option"
  ad_DecidedVia :: "string option"
  ad_RequestedAt :: time
  ad_DecidedAt :: "time option"

record StageResponse =
  sg_Key :: string
  sg_Role :: string
  sg_Status :: string
  sg_DependsOn :: "string list"
  sg_RetryCount :: int

record PendingApprovalResponse =
  pa_ID :: string
  pa_Kind :: string
  pa_StageKey :: string
  pa_Title :: string
  pa_RequestedAt :: time

record LastEventResponse =
  le_Seq :: int
  le_Type :: string
  le_TS :: time

record TaskResponse =
  tr_ID :: string
  tr_ProjectID :: string
  tr_Command :: string
  tr_Status :: string
  tr_CreatedAt :: time
  tr_UpdatedAt :: time
  tr_DiscordThreadID :: "string option"
  tr_Stages :: "StageResponse list"
  tr_PendingApprovals :: "PendingApprovalResponse list"
  tr_LastEvent :: "LastEventResponse option"
  tr_TokenBudget :: int
  tr_TokensUsed :: int

record EventPage =
  ep_Items :: "Event list"
  ep_NextAfterSeq :: "int option"

record CreateProjectRequest =
  cp_Name :: string
  cp_GithubOwner :: string
  cp_GithubRepo :: string
  cp_DefaultBranch :: string
  cp_InstallationID :: "int option"
  cp_LocalPath :: "string option"

record CreateTaskRequest =
  ct_ProjectID :: string
  ct_Command :: string

section \<open>Approvals\<close>

definition approvalResponse :: "ApprovalEntity \<Rightarrow> ApprovalDTO" where
  "approvalResponse a = \<lparr>ad_ID = a_ID a, ad_TaskID = a_TaskID a, ad_StageID = a_StageID a,
     ad_Kind = a_Kind a, ad_RetryNo = a_RetryNo a, ad_Status = a_Status a, ad_Title = a_Title a,
     ad_Content = a_Content a, ad_DecisionFeedback = a_DecisionFeedback a,
     ad_EditedContent = a_EditedContent a, ad_DecidedBy = a_DecidedBy a, ad_DecidedVia = a_DecidedVia a,
     ad_RequestedAt = a_RequestedAt a, ad_DecidedAt = a_DecidedAt a\<rparr>"

definition FetchApproval :: "db \<Rightarrow> string \<Rightarrow> ApprovalDTO result" where
  "FetchApproval db rid = bindR (Reader_Approval db rid) (\<lambda>a. Inr (approvalResponse a))"

definition FetchApprovals :: "db \<Rightarrow> string option \<Rightarrow> string option \<Rightarrow> bool \<Rightarrow> ApprovalDTO list result" where
  "FetchApprovals db task status preview =
     (let status = map_option ToLower status
      in bindR (case status of None \<Rightarrow> Inr ()
           | Some v \<Rightarrow> if v \<noteq> ''pending'' \<and> v \<noteq> ''approved'' \<and> v \<noteq> ''rejected'' \<and> v \<noteq> ''edited''
               then Inl (Fault 400 ''BAD_REQUEST'' ''unknown approval status'') else Inr ()) (\<lambda>_.
         bindR (case task of None \<Rightarrow> Inr () | Some t \<Rightarrow> bindR (Reader_Task db t) (\<lambda>_. Inr ())) (\<lambda>_.
           let list = Reader_Approvals db task status;
               list = (if preview then map (\<lambda>a. a\<lparr>a_Content := None, a_EditedContent := None\<rparr>) list else list)
           in Inr (map approvalResponse list))))"

definition decision_status :: "string \<Rightarrow> string" where
  "decision_status decision =
     (if decision = ''approve'' then ''approved''
      else if decision = ''reject'' then ''rejected''
      else if decision = ''edit'' then ''edited'' else [])"

definition decided_payload :: "string \<Rightarrow> ApprovalEntity \<Rightarrow> string \<Rightarrow> string option \<Rightarrow> string option \<Rightarrow> string
    \<Rightarrow> json" where
  "decided_payload rid a decision feedback edited user =
     JObj [(''approval_id'', JStr rid), (''kind'', JStr (a_Kind a)), (''decision'', JStr decision),
       (''retry_no'', JInt (a_RetryNo a)), (''feedback'', jopt feedback), (''edited_content'', jopt edited),
       (''decided_by'', JStr user), (''decided_via'', JStr ''web'')]"

text \<open>The status derived after a decision, as \<open>UpdateApproval\<close> writes it.\<close>

definition decide_derive :: "TaskEntity \<Rightarrow> unit txm" where
  "decide_derive t =
     bindT (readT (\<lambda>db. Inr (Reader_Stages db (t_ID t)))) (\<lambda>stages.
       let to = Derive (t_Status t) stages
       in if to \<noteq> t_Status t
          then bindT (SetStatus t to) (\<lambda>t.
            if to = ''completed''
            then bindT (readT (\<lambda>db. Inr (Completion db (t_ID t)))) (\<lambda>payload.
              Emit (t_ID t) [] [] ''run.completed'' payload)
            else retT ())
          else retT ())"

definition decide_events :: "TaskEntity \<Rightarrow> StageEntity \<Rightarrow> ApprovalEntity \<Rightarrow> unit txm" where
  "decide_events t st a =
     bindT (whenT (s_Status st = ''blocked'')
       (Emit (t_ID t) (s_StageKey st) (s_Role st) ''stage.blocked''
         (JObj [(''reason'', JStr ''max_retries''), (''kind'', JStr (a_Kind a)),
           (''retry_no'', JInt (s_RetryCount st)), (''last_feedback'', jopt (s_LastFeedback st))]))) (\<lambda>_.
     whenT (s_Status st = ''approved'')
       (bindT (readT (\<lambda>db. LatestDeliverableID db (s_ID st))) (\<lambda>did.
          Emit (t_ID t) (s_StageKey st) (s_Role st) ''stage.completed''
            (JObj [(''deliverable_ref'', jopt (s_DeliverableRef st)), (''deliverable_id'', JStr did)]))))"

definition UpdateApproval_tx :: "string \<Rightarrow> ApprovalEntity \<Rightarrow> string \<Rightarrow> string option \<Rightarrow> string option \<Rightarrow> string
    \<Rightarrow> DecidedResponse txm" where
  "UpdateApproval_tx rid a decision feedback edited user =
     bindT (LockTask (a_TaskID a)) (\<lambda>t.
     bindT (DecideApproval rid (decision_status decision) feedback edited user (a_Version a)) (\<lambda>n.
       if n \<noteq> 1 then failT (Fault 409 ''APPROVAL_ALREADY_DECIDED'' ''approval already decided'')
       else if Terminal (t_Status t) then failT (Fault 409 ''INVALID_TRANSITION'' ''task is terminal'')
       else
         bindT (readT (\<lambda>db. FindStage (Reader_Stages db (t_ID t)) (a_StageID a))) (\<lambda>old.
         let p = UnmarshalPipeline (t_Pipeline t) zero_Pipeline
         in bindT (liftT (Decide old (a_Kind a) decision feedback edited (MaxRetries (pl_Policy p)))) (\<lambda>st.
            bindT (UpdateStage st (s_Status old)) (\<lambda>_.
            bindT (Emit (t_ID t) (s_StageKey st) (s_Role st) ''approval.decided''
                (decided_payload rid a decision feedback edited user)) (\<lambda>_.
            bindT (decide_events t st a) (\<lambda>_.
            bindT (decide_derive t) (\<lambda>_.
            bindT (readT (\<lambda>db. Reader_Approval db rid)) (\<lambda>decided.
            bindT (AfterCommit (WakeTask (t_ID t))) (\<lambda>_.
              retT \<lparr>dr_ID = a_ID decided, dr_Status = a_Status decided, dr_DecidedAt = a_DecidedAt decided,
                dr_DecidedVia = a_DecidedVia decided\<rparr>))))))))))"

definition UpdateApproval :: "env \<Rightarrow> db \<Rightarrow> db \<Rightarrow> string \<Rightarrow> DecisionRequest \<Rightarrow> string
    \<Rightarrow> DecidedResponse result \<times> db \<times> hook list" where
  "UpdateApproval env db0 db rid r user =
     (let decision = ToLower (rq_Decision r)
      in case ValidateDecision decision (rq_Feedback r) (rq_EditedContent r) of
           Inl e \<Rightarrow> (Inl e, db, [])
         | Inr _ \<Rightarrow>
             (case Reader_Approval db0 rid of
                Inl e \<Rightarrow> (Inl e, db, [])
              | Inr a \<Rightarrow> WithTx env
                  (UpdateApproval_tx rid a decision (rq_Feedback r) (rq_EditedContent r) user) db))"

section \<open>Task responses\<close>

definition response :: "db \<Rightarrow> TaskEntity \<Rightarrow> TaskResponse result" where
  "response db t =
     (let stages = Reader_Stages db (t_ID t);
          keys = map (\<lambda>st. (s_ID st, s_StageKey st)) stages;
          approvals = Reader_Approvals db (Some (t_ID t)) (Some ''pending'');
          out = \<lparr>tr_ID = t_ID t, tr_ProjectID = t_ProjectID t, tr_Command = t_Command t,
            tr_Status = t_Status t, tr_CreatedAt = t_CreatedAt t, tr_UpdatedAt = t_UpdatedAt t,
            tr_DiscordThreadID = t_DiscordThreadID t,
            tr_Stages = map (\<lambda>st. \<lparr>sg_Key = s_StageKey st, sg_Role = s_Role st, sg_Status = s_Status st,
              sg_DependsOn = s_DependsOn st, sg_RetryCount = s_RetryCount st\<rparr>) stages,
            tr_PendingApprovals = map (\<lambda>a. \<lparr>pa_ID = a_ID a, pa_Kind = a_Kind a,
              pa_StageKey = (case map_of keys (a_StageID a) of None \<Rightarrow> [] | Some k \<Rightarrow> k),
              pa_Title = a_Title a, pa_RequestedAt = a_RequestedAt a\<rparr>) approvals,
            tr_LastEvent = None, tr_TokenBudget = t_TokenBudget t, tr_TokensUsed = TaskTokensUsed db (t_ID t)\<rparr>
      in if 0 < t_EventSeq t
         then bindR (ListEvents db (t_ID t) (t_EventSeq t - 1) 1) (\<lambda>evs.
           Inr (case evs of [] \<Rightarrow> out
             | ev # _ \<Rightarrow> out\<lparr>tr_LastEvent := Some \<lparr>le_Seq = ev_Seq ev, le_Type = ev_Type ev, le_TS = ev_TS ev\<rparr>\<rparr>))
         else Inr out)"

definition FetchTask :: "db \<Rightarrow> string \<Rightarrow> TaskResponse result" where
  "FetchTask db rid = bindR (Reader_Task db rid) (response db)"

definition allowed_statuses :: string where
  "allowed_statuses = '',queued,running,waiting_approval,paused,blocked,completed,failed,cancelled,''"

fun collectR :: "('a \<Rightarrow> 'b result) \<Rightarrow> 'a list \<Rightarrow> 'b list result" where
  "collectR f [] = Inr []"
| "collectR f (x # xs) = bindR (f x) (\<lambda>y. bindR (collectR f xs) (\<lambda>ys. Inr (y # ys)))"

definition FetchTasks :: "db \<Rightarrow> string option \<Rightarrow> string slice \<Rightarrow> TaskResponse list result" where
  "FetchTasks db project statuses =
     (let statuses = map_option (map ToLower) statuses
      in bindR (eachR (\<lambda>v. if \<not> Contains allowed_statuses ('','' @ v @ '','')
            then Inl (Fault 400 ''BAD_REQUEST'' ''unknown task status'') else Inr ()) (elems statuses)) (\<lambda>_.
         collectR (response db) (Reader_Tasks db project statuses)))"

definition FetchEvents :: "db \<Rightarrow> string \<Rightarrow> int \<Rightarrow> int \<Rightarrow> EventPage result" where
  "FetchEvents db rid after limit =
     (if after < 0 then Inl (Fault 400 ''BAD_REQUEST'' ''after_seq must be nonnegative'')
      else
        let limit = max 1 (min limit 1000)
        in bindR (Reader_Task db rid) (\<lambda>_.
           bindR (ListEvents db rid after limit) (\<lambda>list.
             Inr \<lparr>ep_Items = list,
               ep_NextAfterSeq = (if int (length list) = limit then Some (ev_Seq (last list)) else None)\<rparr>)))"

section \<open>Task actions\<close>

definition unblock :: "StageEntity \<Rightarrow> StageEntity" where
  "unblock st =
     (let reason = Text (s_BlockedReason st)
      in st\<lparr>s_Status := (if reason = ''deliverable'' \<or> reason = ''publish'' then ''executing'' else ''planning''),
           s_BlockedReason := None\<rparr>)"

definition action_kind :: "string \<Rightarrow> string" where
  "action_kind action =
     (if action = ''pause'' then ''run.paused'' else if action = ''resume'' then ''run.resumed''
      else if action = ''cancel'' then ''run.cancelled'' else [])"

definition UpdateTask_tx :: "string \<Rightarrow> string \<Rightarrow> unit txm" where
  "UpdateTask_tx rid action =
     bindT (LockTask rid) (\<lambda>t.
     bindT (liftT (TaskTransition (t_Status t) action)) (\<lambda>to.
     bindT (whenT (action = ''resume'') (readT (\<lambda>db.
         if t_TokenBudget t \<le> TaskTokensUsed db rid
         then Inl (Fault 409 ''BUDGET_EXCEEDED'' ''token budget is exhausted; increase it before resuming'')
         else Inr ()))) (\<lambda>_.
     bindT (whenT (action = ''resume'' \<and> t_Status t = ''blocked'')
         (bindT (readT (\<lambda>db. Inr (Reader_Stages db rid))) (\<lambda>stages.
            eachT (\<lambda>st. if s_Status st \<noteq> ''blocked'' then retT () else UpdateStage (unblock st) ''blocked'')
              stages))) (\<lambda>_.
     bindT (SetStatus t to) (\<lambda>t.
     bindT (Emit rid [] [] (action_kind action)
         (JObj (if action = ''pause'' then [(''reason'', JStr ''user'')] else []))) (\<lambda>_.
       if action = ''cancel'' then AfterCommit (CancelTask rid)
       else if action = ''resume'' then AfterCommit (WakeTask rid)
       else retT ()))))))"

definition UpdateTask :: "env \<Rightarrow> db \<Rightarrow> string \<Rightarrow> string \<Rightarrow> TaskResponse result \<times> db \<times> hook list" where
  "UpdateTask env db rid action =
     (case WithTx env (UpdateTask_tx rid action) db of
        (Inl e, db', hs) \<Rightarrow> (Inl e, db', hs)
      | (Inr _, db', hs) \<Rightarrow> (FetchTask db' rid, db', hs))"

definition SetBudget_tx :: "string \<Rightarrow> int \<Rightarrow> unit txm" where
  "SetBudget_tx rid budget =
     bindT (LockTask rid) (\<lambda>t.
       if Terminal (t_Status t)
       then failT (Fault 409 ''INVALID_TRANSITION'' (''cannot change the budget of a '' @ t_Status t @ '' task''))
       else bindT (UpdateTaskBudget rid budget (t_Version t)) (\<lambda>_. retT ()))"

definition SetBudget :: "env \<Rightarrow> db \<Rightarrow> string \<Rightarrow> int \<Rightarrow> TaskResponse result \<times> db \<times> hook list" where
  "SetBudget env db rid budget =
     (if budget < 1 then (Inl (Fault 400 ''BAD_REQUEST'' ''token_budget must be positive''), db, [])
      else case WithTx env (SetBudget_tx rid budget) db of
             (Inl e, db', hs) \<Rightarrow> (Inl e, db', hs)
           | (Inr _, db', hs) \<Rightarrow> (FetchTask db' rid, db', hs))"

section \<open>The budget guard\<close>

definition Check_tx :: "string \<Rightarrow> bool txm" where
  "Check_tx rid =
     bindT (LockTask rid) (\<lambda>t.
     bindT (readT (\<lambda>db. Inr (TaskTokensUsed db rid))) (\<lambda>used.
       if used < t_TokenBudget t then retT False
       else if t_Status t \<noteq> ''running'' \<and> t_Status t \<noteq> ''waiting_approval'' then retT True
       else bindT (SetStatus t ''paused'') (\<lambda>t.
            bindT (Emit rid [] [] ''run.paused''
              (JObj [(''reason'', JStr ''budget''), (''tokens_used'', JInt used),
                (''token_budget'', JInt (t_TokenBudget t))])) (\<lambda>_. retT True))))"

definition Budget_Check :: "env \<Rightarrow> db \<Rightarrow> db \<Rightarrow> string \<Rightarrow> unit result \<times> db \<times> hook list" where
  "Budget_Check env db0 db rid =
     (case Reader_Task db0 rid of
        Inl e \<Rightarrow> (Inl e, db, [])
      | Inr t \<Rightarrow>
          if TaskTokensUsed db0 rid < t_TokenBudget t then (Inr (), db, [])
          else case WithTx env (Check_tx rid) db of
                 (Inl e, db', hs) \<Rightarrow> (Inl e, db', hs)
               | (Inr exceeded, db', hs) \<Rightarrow> (if exceeded then Inl ErrBudgetExceeded else Inr (), db', hs))"

section \<open>Projects\<close>

text \<open>\<open>rid\<close> is the UUID drawn before the transaction.\<close>

definition FetchProjects :: "db \<Rightarrow> ProjectEntity list" where
  "FetchProjects db = Reader_Projects db"

definition FetchProject :: "db \<Rightarrow> string \<Rightarrow> ProjectEntity result" where
  "FetchProject db rid = Reader_Project db rid"

definition ProjectService_Create :: "env \<Rightarrow> db \<Rightarrow> string \<Rightarrow> CreateProjectRequest
    \<Rightarrow> ProjectEntity result \<times> db \<times> hook list" where
  "ProjectService_Create env db rid r =
     (if TrimSpace (cp_Name r) = [] \<or> TrimSpace (cp_GithubOwner r) = [] \<or> TrimSpace (cp_GithubRepo r) = []
      then (Inl (Fault 400 ''BAD_REQUEST'' ''name, github_owner and github_repo are required''), db, [])
      else
        let branch = TrimSpace (cp_DefaultBranch r);
            branch = (if branch = [] then ''main'' else branch)
        in case WithTx env (CreateProject rid (TrimSpace (cp_Name r)) (cp_GithubOwner r) (cp_GithubRepo r)
                  branch (cp_InstallationID r) (cp_LocalPath r)) db of
             (Inl e, db', hs) \<Rightarrow> (Inl e, db', hs)
           | (Inr _, db', hs) \<Rightarrow> (Reader_Project db' rid, db', hs))"

section \<open>Task creation\<close>

text \<open>\<open>llm.Registry.Validate\<close>: \<open>providers\<close> are the registered provider names.\<close>

definition Registry_Validate :: "string list \<Rightarrow> string \<Rightarrow> unit result" where
  "Registry_Validate providers model =
     (if model = [] \<or> model = ''fake'' \<or> model = ''fake/echo'' then Inr ()
      else case Cut model ''/'' of
             None \<Rightarrow> Inl (Errorf (''model must be a supported 'provider/model': '' @ [CHR 0x22] @ model @ [CHR 0x22]))
           | Some (provider, name) \<Rightarrow>
               if TrimSpace name = [] \<or> provider \<notin> set providers
               then Inl (Errorf (''model must be a supported 'provider/model': '' @ [CHR 0x22] @ model @ [CHR 0x22])) else Inr ())"

text \<open>
  What the service calls outside the database: \<open>uuid.Parse\<close>, copying or cloning the project
  (\<open>workspace.Prepare\<close>, \<open>workspace.Clone\<close>), the loader of the prepared directory, writing the
  definition snapshot, and whether a hosting service is configured.
\<close>

record services =
  x_uuid_ok :: "string \<Rightarrow> bool"
  x_Prepare :: "string \<Rightarrow> string \<Rightarrow> string result"
  x_Clone :: "string \<Rightarrow> string \<Rightarrow> string \<Rightarrow> string \<Rightarrow> string result"
  x_SCM :: bool
  x_LoadDefinition :: "string \<Rightarrow> string \<Rightarrow> Definition result"
  x_SaveDefinition :: "string \<Rightarrow> Definition \<Rightarrow> unit result"
  x_providers :: "string list"

definition repo_char :: "char \<Rightarrow> bool" where
  "repo_char c \<longleftrightarrow> CHR ''A'' \<le> c \<and> c \<le> CHR ''Z'' \<or> is_lower c \<or> CHR ''0'' \<le> c \<and> c \<le> CHR ''9'' \<or> c = CHR ''_'' \<or> c = CHR ''.'' \<or> c = CHR ''-''"

definition repoName :: "string \<Rightarrow> bool" where
  "repoName s \<longleftrightarrow> s \<noteq> [] \<and> list_all repo_char s"

definition prepare :: "services \<Rightarrow> string \<Rightarrow> ProjectEntity \<Rightarrow> string result" where
  "prepare x rid p =
     (if Text (p_LocalPath p) \<noteq> [] then x_Prepare x rid (Text (p_LocalPath p))
      else if \<not> x_SCM x
        then Inl (Errorf ''project.local_path is required unless DEVSQUAD_GITHUB_TOKEN is set'')
      else bindR (eachR (\<lambda>name. if \<not> repoName name \<or> list_all (\<lambda>c. c = CHR ''.'') name
               then Inl (Errorf (''invalid GitHub owner or repository: '' @ [CHR 0x22] @ name @ [CHR 0x22])) else Inr ())
             [p_GithubOwner p, p_GithubRepo p]) (\<lambda>_.
        x_Clone x rid (p_GithubOwner p) (p_GithubRepo p) (p_DefaultBranch p)))"

definition check_stage_tools :: "services \<Rightarrow> Definition \<Rightarrow> StageSpec \<Rightarrow> unit result" where
  "check_stage_tools x d st =
     bindR (eachR (\<lambda>name. if name \<in> set (tool_names (agent_of d (sp_Agent st)) None) then Inr ()
         else Inl (Fault 400 ''PIPELINE_INVALID'' (''tool is not allowed for stage: '' @ name)))
       (elems (sp_Tools st))) (\<lambda>_.
     case Registry_Validate (x_providers x) (Model d st) of
       Inl e \<Rightarrow> Inl (Fault 400 ''PIPELINE_INVALID'' (error_text e)) | Inr _ \<Rightarrow> Inr ())"

definition CreateTask_tx :: "string \<Rightarrow> CreateTaskRequest \<Rightarrow> string \<Rightarrow> string \<Rightarrow> Pipeline \<Rightarrow> int \<Rightarrow> unit txm" where
  "CreateTask_tx rid r user dir pl budget =
     bindT (CreateTask rid (ct_ProjectID r) (TrimSpace (ct_Command r)) user pl dir budget) (\<lambda>_.
     bindT (eachT (\<lambda>st. bindT NewString (\<lambda>sid.
         CreateStage sid rid (sp_ID st) (sp_Agent st) (sp_DependsOn st))) (pl_Stages pl)) (\<lambda>_.
     bindT (AfterCommit MarkCommitted) (\<lambda>_. AfterCommit (WakeTask rid))))"

record created =
  cr_result :: "TaskResponse result"
  cr_db :: db
  cr_hooks :: "hook list"
  cr_removed :: "string option"

text \<open>
  \<open>TaskService.CreateTask\<close>. The deferred \<open>os.RemoveAll(dir)\<close> runs unless the hook has set
  \<open>committed\<close> or the outcome of the commit is unknown; \<open>cr_removed\<close> is the directory removed.
\<close>

definition TaskService_Create :: "services \<Rightarrow> env \<Rightarrow> db \<Rightarrow> db \<Rightarrow> string \<Rightarrow> CreateTaskRequest \<Rightarrow> string \<Rightarrow> created" where
  "TaskService_Create x env db0 db rid r user =
     (let stop = (\<lambda>e removed. \<lparr>cr_result = Inl e, cr_db = db, cr_hooks = [], cr_removed = removed\<rparr>)
      in if \<not> x_uuid_ok x (ct_ProjectID r)
           then stop (Fault 400 ''BAD_REQUEST'' ''project_id must be a UUID'') None
         else if TrimSpace (ct_Command r) = [] then stop (Fault 400 ''BAD_REQUEST'' ''command is required'') None
         else case Reader_Project db0 (ct_ProjectID r) of
           Inl e \<Rightarrow> stop e None
         | Inr p \<Rightarrow>
          (case prepare x rid p of
             Inl e \<Rightarrow> stop (Fault 400 ''PROJECT_INVALID'' (error_text e)) None
           | Inr dir \<Rightarrow>
            (case x_LoadDefinition x dir (p_ContextPath p) of
               Inl e \<Rightarrow> stop (Fault 400 ''PIPELINE_INVALID'' (error_text e)) (Some dir)
             | Inr d \<Rightarrow>
              (case bindR (eachR (check_stage_tools x d) (pl_Stages (df_Pipeline d))) (\<lambda>_. x_SaveDefinition x dir d) of
                 Inl e \<Rightarrow> stop e (Some dir)
               | Inr _ \<Rightarrow>
                  let budget = (case TokenBudget (pl_Policy (df_Pipeline d)) of
                        None \<Rightarrow> p_TokenBudget p | Some b \<Rightarrow> b)
                  in case WithTx env (CreateTask_tx rid r user dir (df_Pipeline d) budget) db of
                       (Inr _, db', hs) \<Rightarrow>
                          \<lparr>cr_result = FetchTask db' rid, cr_db = db', cr_hooks = hs,
                            cr_removed = (if MarkCommitted \<in> set hs then None else Some dir)\<rparr>
                     | (Inl e, db', hs) \<Rightarrow>
                          \<lparr>cr_result = Inl e, cr_db = db', cr_hooks = hs,
                            cr_removed = (if As_CommitError e then None else Some dir)\<rparr>))))"

end
