(* ===== verification/Db_Relations.thy ===== *)
theory Db_Relations
  imports Orch_Tx App_Services
begin

text \<open>
  Three relations between the database before and after a transaction, each an instance of
  \<open>tx_relation\<close>, and the proof that every transaction of the services and of the orchestrator
  obeys them: \<open>later\<close> (rows are never deleted, identifying columns never change, and a row that
  changes gets a larger version), \<open>log_kept\<close> (event ledgers stay gapless) and \<open>status_kept\<close>
  (a completed task has only approved stages).
\<close>

section \<open>later\<close>

definition stage_later :: "'a StageEntity_scheme \<Rightarrow> 'b StageEntity_scheme \<Rightarrow> bool" where
  "stage_later s r \<longleftrightarrow>
     s_ID r = s_ID s \<and> s_TaskID r = s_TaskID s \<and> s_StageKey r = s_StageKey s \<and> s_Role r = s_Role s \<and>
     s_DependsOn r = s_DependsOn s \<and> s_Version s \<le> s_Version r \<and> s_Attempt s \<le> s_Attempt r \<and>
     (s_Version s = s_Version r \<longrightarrow> StageEntity.truncate s = StageEntity.truncate r)"

definition approval_later :: "ApprovalEntity \<Rightarrow> ApprovalEntity \<Rightarrow> bool" where
  "approval_later a b \<longleftrightarrow>
     a_ID b = a_ID a \<and> a_TaskID b = a_TaskID a \<and> a_StageID b = a_StageID a \<and> a_Kind b = a_Kind a \<and>
     a_RetryNo b = a_RetryNo a \<and> a_Version a \<le> a_Version b \<and> (a_Version a = a_Version b \<longrightarrow> a = b) \<and>
     (a_Status a \<noteq> ''pending'' \<longrightarrow> a = b)"

definition task_later :: "TaskEntity \<Rightarrow> TaskEntity \<Rightarrow> bool" where
  "task_later t u \<longleftrightarrow> task_static u = task_static t \<and> t_Version t \<le> t_Version u \<and> t_EventSeq t \<le> t_EventSeq u
     \<and> (t_Version t = t_Version u \<longrightarrow> t_Status u = t_Status t)"

definition later :: "db \<Rightarrow> db \<Rightarrow> bool" where
  "later d d' \<longleftrightarrow>
     (\<forall>s\<in>set (db_stages d). \<exists>r\<in>set (db_stages d'). stage_later s r) \<and>
     (\<forall>a\<in>set (db_approvals d). \<exists>b\<in>set (db_approvals d'). approval_later a b) \<and>
     (\<forall>t\<in>set (db_tasks d). \<exists>u\<in>set (db_tasks d'). task_later t u) \<and>
     set (db_projects d) \<subseteq> set (db_projects d') \<and> set (db_deliverables d) \<subseteq> set (db_deliverables d') \<and>
     prefix (db_events d) (db_events d') \<and> prefix (db_usages d) (db_usages d')"

lemma stage_later_refl [simp]: "stage_later s s"
  by (simp add: stage_later_def)

lemma stage_later_trans: "stage_later a b \<Longrightarrow> stage_later b c \<Longrightarrow> stage_later a c"
  by (auto simp: stage_later_def)

lemma approval_later_refl [simp]: "approval_later a a"
  by (simp add: approval_later_def)

lemma approval_later_trans: "approval_later a b \<Longrightarrow> approval_later b c \<Longrightarrow> approval_later a c"
  by (auto simp: approval_later_def)

lemma task_later_refl [simp]: "task_later t t"
  by (simp add: task_later_def)

lemma task_later_trans: "task_later a b \<Longrightarrow> task_later b c \<Longrightarrow> task_later a c"
  by (auto simp: task_later_def)

lemma rows_kept:
  "S \<subseteq> T \<Longrightarrow> \<forall>s\<in>S. \<exists>r\<in>T. stage_later s r"
  "A \<subseteq> B \<Longrightarrow> \<forall>a\<in>A. \<exists>b\<in>B. approval_later a b"
  "U \<subseteq> V \<Longrightarrow> \<forall>t\<in>U. \<exists>u\<in>V. task_later t u"
  using stage_later_refl approval_later_refl task_later_refl by blast+

lemma row_kept:
  "s \<in> S \<Longrightarrow> Bex S (stage_later s)" "a \<in> A \<Longrightarrow> Bex A (approval_later a)" "t \<in> U \<Longrightarrow> Bex U (task_later t)"
  using stage_later_refl approval_later_refl task_later_refl by blast+

lemma later_more:
  assumes "set (db_stages d) \<subseteq> set (db_stages d')" "set (db_approvals d) \<subseteq> set (db_approvals d')"
    "set (db_tasks d) \<subseteq> set (db_tasks d')" "set (db_projects d) \<subseteq> set (db_projects d')"
    "set (db_deliverables d) \<subseteq> set (db_deliverables d')"
    "prefix (db_events d) (db_events d')" "prefix (db_usages d) (db_usages d')"
  shows "later d d'"
  using assms rows_kept unfolding later_def by (intro conjI) simp_all

interpretation lt: tx_relation later
proof
  show "later d d" for d by (rule later_more) auto
  show "later a c" if ab: "later a b" and bc: "later b c" for a b c
  proof -
    have "\<exists>r\<in>set (db_stages c). stage_later s r" if "s \<in> set (db_stages a)" for s
      using that ab bc unfolding later_def by (meson stage_later_trans)
    moreover have "\<exists>r\<in>set (db_approvals c). approval_later s r" if "s \<in> set (db_approvals a)" for s
      using that ab bc unfolding later_def by (meson approval_later_trans)
    moreover have "\<exists>r\<in>set (db_tasks c). task_later s r" if "s \<in> set (db_tasks a)" for s
      using that ab bc unfolding later_def by (meson task_later_trans)
    moreover have "set (db_projects a) \<subseteq> set (db_projects c)"
      "set (db_deliverables a) \<subseteq> set (db_deliverables c)"
      "prefix (db_events a) (db_events c)" "prefix (db_usages a) (db_usages c)"
      using ab bc by (auto simp: later_def)
    ultimately show ?thesis by (simp add: later_def)
  qed
qed

lemma rows_updated:
  "(\<And>r. P r \<Longrightarrow> R r (f r)) \<Longrightarrow> (\<And>r. R r r) \<Longrightarrow> \<forall>s\<in>set rows. \<exists>r\<in>set (update_where P f rows). R s r"
proof
  fix s assume "s \<in> set rows" and "\<And>r. P r \<Longrightarrow> R r (f r)" "\<And>r. R r r"
  then show "\<exists>r\<in>set (update_where P f rows). R s r"
    by (intro bexI [of _ "if P s then f s else s"]) (auto simp: set_update_where)
qed

lemma later_tasks:
  "(\<And>r. P r \<Longrightarrow> task_later r (f r)) \<Longrightarrow> later d (d\<lparr>db_tasks := update_where P f (db_tasks d)\<rparr>)"
  using rows_updated [of P task_later f "db_tasks d"] by (auto simp: later_def intro: row_kept)

lemma later_stages:
  "(\<And>r. P r \<Longrightarrow> stage_later r (f r)) \<Longrightarrow> later d (d\<lparr>db_stages := update_where P f (db_stages d)\<rparr>)"
  using rows_updated [of P stage_later f "db_stages d"] by (auto simp: later_def intro: row_kept)

lemma later_approvals:
  "(\<And>r. P r \<Longrightarrow> approval_later r (f r)) \<Longrightarrow> later d (d\<lparr>db_approvals := update_where P f (db_approvals d)\<rparr>)"
  using rows_updated [of P approval_later f "db_approvals d"] by (auto simp: later_def intro: row_kept)

lemma later_queries:
  "obeys later (SetStatus t st)" "obeys later (UpdateTaskBudget rid budget v)"
  "obeys later (NextSequence rid)" "obeys later (UpdateStage sg old)"
  "obeys later (ClaimStage rid att to old)" "obeys later (DecideApproval rid dst f e u v)"
  "obeys later (CreateEvent ev)" "obeys later (CreateUsage us)"
  "obeys later (CreateTask rid p c by pl w b)" "obeys later (CreateStage rid tid k r ds)"
  "obeys later (CreateApproval rid tid sid k n ti co)" "obeys later (CreateDeliverable rid tid sid ur dc su)"
  "obeys later (CreateProject rid nm ow re br i l)"
  subgoal by (rule obeysI)
      (auto simp: SetStatus_Inr Let_def task_later_def task_static_def status_write_def intro!: later_tasks)
  subgoal by (rule obeysI)
      (auto simp: UpdateTaskBudget_def Let_def tx_Inr task_later_def task_static_def intro!: later_tasks)
  subgoal by (rule obeysI)
      (auto simp: NextSequence_def tx_Inr task_later_def task_static_def intro!: later_tasks split: list.splits)
  subgoal by (rule obeysI) (auto simp: UpdateStage_Inr Let_def stage_later_def intro!: later_stages)
  subgoal by (rule obeysI) (auto simp: ClaimStage_Inr Let_def stage_later_def intro!: later_stages)
  subgoal by (rule obeysI) (auto simp: DecideApproval_Inr Let_def approval_later_def intro!: later_approvals)
  subgoal by (rule obeysI) (auto simp: CreateEvent_Inr intro!: later_more)
  subgoal by (rule obeysI) (auto simp: CreateUsage_Inr intro!: later_more)
  subgoal by (rule obeysI) (auto simp: CreateTask_Inr intro!: later_more)
  subgoal by (rule obeysI) (auto simp: CreateStage_Inr intro!: later_more)
  subgoal by (rule obeysI) (auto simp: CreateApproval_Inr intro!: later_more)
  subgoal by (rule obeysI) (auto simp: CreateDeliverable_Inr intro!: later_more)
  subgoal by (rule obeysI) (auto simp: CreateProject_def tx_Inr intro!: later_more)
  done

lemma Emit_later: "obeys later (Emit task stage agent kind payload)"
  unfolding Emit_def Let_def by (intro lt.compose later_queries)

lemmas later_steps = lt.compose later_queries Emit_later LockTask_obeys [OF lt.tx_relation_axioms]

lemmas log_steps = lk.compose log_kept_queries

lemmas tx_defs = decide_derive_def decide_events_def deriveTx_def commit_announce_def commit_deliverable_def commit_approval_def

lemma later_transactions:
  "obeys later (UpdateApproval_tx rid a dec fb ed user)" "obeys later (UpdateTask_tx rid action)"
  "obeys later (SetBudget_tx rid budget)" "obeys later (Check_tx rid)"
  "obeys later (CreateTask_tx rid r user dir pl budget)"
  "obeys later (start_tx rid d)" "obeys later (claim_tx rid s mode)" "obeys later (progress_tx rid s kind payload)"
  "obeys later (commit_tx rid s inp res)" "obeys later (derive_tx rid)" "obeys later (fail_tx rid sid att e)"
  "obeys later (block_tx rid s e)"
  unfolding UpdateApproval_tx_def UpdateTask_tx_def SetBudget_tx_def Check_tx_def CreateTask_tx_def start_tx_def
    claim_tx_def progress_tx_def commit_tx_def derive_tx_def fail_tx_def block_tx_def tx_defs Let_def
  by (intro later_steps)+

lemma log_transactions:
  "obeys log_kept (UpdateApproval_tx rid a dec fb ed user)" "obeys log_kept (UpdateTask_tx rid action)"
  "obeys log_kept (SetBudget_tx rid budget)" "obeys log_kept (Check_tx rid)"
  "obeys log_kept (CreateTask_tx rid r user dir pl budget)"
  "obeys log_kept (start_tx rid d)" "obeys log_kept (claim_tx rid s mode)"
  "obeys log_kept (progress_tx rid s kind payload)"
  "obeys log_kept (commit_tx rid s inp res)" "obeys log_kept (derive_tx rid)" "obeys log_kept (fail_tx rid sid att e)"
  "obeys log_kept (block_tx rid s e)"
  unfolding UpdateApproval_tx_def UpdateTask_tx_def SetBudget_tx_def Check_tx_def CreateTask_tx_def start_tx_def
    claim_tx_def progress_tx_def commit_tx_def derive_tx_def fail_tx_def block_tx_def tx_defs Let_def
  by (intro log_steps)+

section \<open>status_kept\<close>

text \<open>Task statuses are those of the check constraint, and a completed task has only approved stages.\<close>

definition status_ok :: "db \<Rightarrow> bool" where
  "status_ok d \<longleftrightarrow>
     (\<forall>t\<in>set (db_tasks d). t_Status t \<in> set task_statuses \<and>
       (t_Status t = ''completed'' \<longrightarrow>
          (\<forall>s\<in>set (db_stages d). s_TaskID s = t_ID t \<longrightarrow> s_Status s = ''approved'') \<and>
          (\<exists>s\<in>set (db_stages d). s_TaskID s = t_ID t)))"

definition status_kept :: "db \<Rightarrow> db \<Rightarrow> bool" where
  "status_kept d d' \<longleftrightarrow> (status_ok d \<longrightarrow> status_ok d')"

interpretation sk: tx_relation status_kept
  by unfold_locales (auto simp: status_kept_def)

definition all_approved :: "db \<Rightarrow> string \<Rightarrow> bool" where
  "all_approved d tid \<longleftrightarrow>
     (\<forall>s\<in>set (db_stages d). s_TaskID s = tid \<longrightarrow> s_Status s = ''approved'') \<and>
     (\<exists>s\<in>set (db_stages d). s_TaskID s = tid)"

lemma status_ok_alt:
  "status_ok d \<longleftrightarrow> (\<forall>t\<in>set (db_tasks d). t_Status t \<in> set task_statuses \<and>
     (t_Status t = ''completed'' \<longrightarrow> all_approved d (t_ID t)))"
  by (simp add: status_ok_def all_approved_def)

lemma status_ok_tasks:
  assumes "status_ok d" and "\<And>r. P r \<Longrightarrow> t_ID (f r) = t_ID r \<and> t_Status (f r) \<in> {t_Status r, st}"
    and "st \<in> set task_statuses" "\<And>r. st = ''completed'' \<Longrightarrow> P r \<Longrightarrow> all_approved d (t_ID r)"
  shows "status_ok (d\<lparr>db_tasks := update_where P f (db_tasks d)\<rparr>)"
proof -
  have frame: "all_approved (d\<lparr>db_tasks := ts\<rparr>) tid = all_approved d tid" for ts tid
    by (simp add: all_approved_def)
  have "t_Status t \<in> set task_statuses \<and> (t_Status t = ''completed'' \<longrightarrow> all_approved d (t_ID t))"
    if "t \<in> set (update_where P f (db_tasks d))" for t
  proof -
    from that obtain r where r: "r \<in> set (db_tasks d)" "t = (if P r then f r else r)"
      by (auto simp: set_update_where)
    have old: "t_Status r \<in> set task_statuses \<and> (t_Status r = ''completed'' \<longrightarrow> all_approved d (t_ID r))"
      using assms(1) r(1) by (simp add: status_ok_alt)
    show ?thesis
    proof (cases "P r")
      case True
      with r assms(2) [OF True] assms(3,4) old show ?thesis by auto
    next
      case False
      with r old show ?thesis by simp
    qed
  qed
  then show ?thesis by (simp add: status_ok_alt frame)
qed

lemma status_ok_stages:
  assumes "status_ok d" and "\<And>r. P r \<Longrightarrow> s_TaskID (f r) = s_TaskID r \<and> s_Status r \<noteq> ''approved''"
  shows "status_ok (d\<lparr>db_stages := update_where P f (db_stages d)\<rparr>)"
  unfolding status_ok_def
proof (intro ballI, simp)
  fix t assume t: "t \<in> set (db_tasks d)"
  have ok: "t_Status t \<in> set task_statuses"
    and app: "\<And>s. t_Status t = ''completed'' \<Longrightarrow> s \<in> set (db_stages d) \<Longrightarrow> s_TaskID s = t_ID t \<Longrightarrow> s_Status s = ''approved''"
    and ex: "t_Status t = ''completed'' \<Longrightarrow> \<exists>s\<in>set (db_stages d). s_TaskID s = t_ID t"
    using assms(1) t unfolding status_ok_def by blast+
  have same: "(if P r then f r else r) = r" if "t_Status t = ''completed''" "r \<in> set (db_stages d)"
    "s_TaskID (if P r then f r else r) = t_ID t" for r
    using that assms(2) [of r] app [of r] by (auto split: if_splits)
  have "\<exists>s\<in>set (update_where P f (db_stages d)). s_TaskID s = t_ID t" if "t_Status t = ''completed''"
  proof -
    from ex [OF that] obtain r where "r \<in> set (db_stages d)" "s_TaskID r = t_ID t" by blast
    then show ?thesis
      using assms(2) [of r] by (intro bexI [of _ "if P r then f r else r"]) (auto simp: set_update_where)
  qed
  moreover have "s_Status s = ''approved''" if c: "t_Status t = ''completed''"
    and s: "s \<in> set (update_where P f (db_stages d))" "s_TaskID s = t_ID t" for s
  proof -
    from s(1) obtain r where r: "r \<in> set (db_stages d)" "s = (if P r then f r else r)"
      by (auto simp: set_update_where)
    with same [OF c r(1)] s(2) have "s = r" by simp
    with app [OF c r(1)] s(2) show ?thesis by simp
  qed
  ultimately show "t_Status t \<in> set task_statuses \<and> (t_Status t = ''completed'' \<longrightarrow>
      (\<forall>s\<in>set (update_where P f (db_stages d)). s_TaskID s = t_ID t \<longrightarrow> s_Status s = ''approved'') \<and>
      (\<exists>s\<in>set (update_where P f (db_stages d)). s_TaskID s = t_ID t))" using ok by blast
qed

lemma status_ok_frame:
  "db_tasks d' = db_tasks d \<Longrightarrow> db_stages d' = db_stages d \<Longrightarrow> status_kept d d'"
  by (simp add: status_kept_def status_ok_def)

lemma SetStatus_derived:
  assumes "SetStatus t st tx = Inr (t', tx')" "st = ''completed'' \<Longrightarrow> all_approved (tx_db tx) (t_ID t)"
  shows "status_kept (tx_db tx) (tx_db tx')"
  using assms by (auto simp: SetStatus_Inr Let_def status_kept_def intro!: status_ok_tasks [where st = st])

lemma SetStatus_status: "st \<noteq> ''completed'' \<Longrightarrow> obeys status_kept (SetStatus t st)"
  by (rule obeysI) (auto intro: SetStatus_derived)

lemma UpdateStage_status: "old \<noteq> ''approved'' \<Longrightarrow> obeys status_kept (UpdateStage s old)"
  by (rule obeysI) (auto simp: UpdateStage_Inr Let_def status_kept_def stage_match_def intro!: status_ok_stages)

lemma ClaimStage_status: "old \<noteq> ''approved'' \<Longrightarrow> obeys status_kept (ClaimStage rid att to old)"
  by (rule obeysI) (auto simp: ClaimStage_Inr Let_def status_kept_def intro!: status_ok_stages)

lemma status_queries:
  "obeys status_kept (UpdateTaskBudget rid budget v)" "obeys status_kept (NextSequence rid)"
  "obeys status_kept (DecideApproval rid st f e u v)"
  "obeys status_kept (CreateEvent ev)" "obeys status_kept (CreateUsage us)"
  "obeys status_kept (CreateApproval rid tid sid k n ti co)"
  "obeys status_kept (CreateDeliverable rid tid sid ur dc su)"
  "obeys status_kept (CreateProject rid nm ow re br i l)"
  subgoal by (rule obeysI) (auto simp: UpdateTaskBudget_def Let_def tx_Inr status_kept_def task_statuses_def
        intro!: status_ok_tasks [where st = "''queued''"])
  subgoal by (rule obeysI) (auto simp: NextSequence_def tx_Inr status_kept_def task_statuses_def
        intro!: status_ok_tasks [where st = "''queued''"] split: list.splits)
  subgoal by (rule obeysI) (auto simp: DecideApproval_Inr Let_def intro!: status_ok_frame)
  subgoal by (rule obeysI) (auto simp: CreateEvent_Inr intro!: status_ok_frame)
  subgoal by (rule obeysI) (auto simp: CreateUsage_Inr intro!: status_ok_frame)
  subgoal by (rule obeysI) (auto simp: CreateApproval_Inr intro!: status_ok_frame)
  subgoal by (rule obeysI) (auto simp: CreateDeliverable_Inr intro!: status_ok_frame)
  subgoal by (rule obeysI) (auto simp: CreateProject_def tx_Inr intro!: status_ok_frame)
  done

lemma Emit_status: "obeys status_kept (Emit task stage agent kind payload)"
  unfolding Emit_def Let_def by (intro sk.compose status_queries)

lemma Derive_all_approved:
  assumes "Derive st (Reader_Stages d tid) = ''completed''" "st \<noteq> ''completed''"
  shows "all_approved d tid"
  using Derive_completed [OF assms(1)] assms(2) set_Reader_Stages [of d tid]
  by (force simp: all_approved_def simp flip: set_empty)

lemma deriveTx_status: "obeys status_kept (deriveTx t)"
proof (rule obeysI)
  fix tx :: Tx and u tx'
  let ?to = "Derive (t_Status t) (Reader_Stages (tx_db tx) (t_ID t))"
  assume ok: "deriveTx t tx = Inr (u, tx')"
  show "status_kept (tx_db tx) (tx_db tx')"
  proof (cases "?to = t_Status t")
    case True
    with ok show ?thesis by (simp add: deriveTx_def tx_Inr Let_def sk.R_refl)
  next
    case False
    with ok obtain t1 tx1 where set: "SetStatus t ?to tx = Inr (t1, tx1)"
      and rest: "(if ?to = ''completed''
            then bindT (readT (\<lambda>db. Inr (Completion db (t_ID t1)))) (\<lambda>payload.
              Emit (t_ID t1) [] [] ''run.completed'' payload)
            else retT ()) tx1 = Inr (u, tx')"
      by (auto simp: deriveTx_def bindT_Inr readT_Inr Let_def)
    have "status_kept (tx_db tx) (tx_db tx1)"
      using SetStatus_derived [OF set] Derive_all_approved False by metis
    moreover have "status_kept (tx_db tx1) (tx_db tx')"
      using rest by (rule obeysD [rotated]) (intro sk.compose Emit_status)
    ultimately show ?thesis by (rule sk.R_trans)
  qed
qed

lemma decide_derive_eq: "decide_derive t = deriveTx t"
proof -
  have "(if \<not> b then x else y) = (if b then y else x)" for b and x y :: "unit txm" by simp
  then show ?thesis by (simp only: decide_derive_def deriveTx_def Let_def)
qed

lemmas status_steps = sk.compose status_queries Emit_status deriveTx_status
  LockTask_obeys [OF sk.tx_relation_axioms]

lemma status_transactions:
  "obeys status_kept (SetBudget_tx rid budget)" "obeys status_kept (Check_tx rid)"
  "obeys status_kept (start_tx rid d)" "obeys status_kept (progress_tx rid s kind payload)"
  "obeys status_kept (derive_tx rid)" "obeys status_kept (fail_tx rid sid att e)"
  "s_Status s \<noteq> ''approved'' \<Longrightarrow> obeys status_kept (claim_tx rid s mode)"
  "s_Status s \<noteq> ''approved'' \<Longrightarrow> obeys status_kept (commit_tx rid s inp res)"
  "s_Status s \<noteq> ''approved'' \<Longrightarrow> obeys status_kept (block_tx rid s e)"
  unfolding SetBudget_tx_def Check_tx_def start_tx_def progress_tx_def derive_tx_def fail_tx_def claim_tx_def
    commit_tx_def block_tx_def commit_announce_def commit_deliverable_def commit_approval_def Let_def
  by (intro status_steps SetStatus_status UpdateStage_status ClaimStage_status; simp)+

text \<open>The two handlers whose status writes are guarded by \<open>Decide\<close> and \<open>TaskTransition\<close>.\<close>

lemma review_not_approved: "kind @ ''_review'' \<noteq> ''approved''" "kind @ ''_review'' \<noteq> ''pending''"
  by (auto dest: arg_cong [where f = last])

lemma TaskTransition_not_completed: "TaskTransition st action = Inr to \<Longrightarrow> to \<noteq> ''completed''"
  by (auto simp: TaskTransition_def split: if_splits)

lemma UpdateApproval_status: "obeys status_kept (UpdateApproval_tx rid a dec fb ed user)"
proof -
  have up: "obeys status_kept (UpdateStage st (s_Status old))" if "Decide old kind dec fb ed m = Inr st" for old kind m st
    using Decide_pre(1) [OF that] review_not_approved by (intro UpdateStage_status) simp
  show ?thesis
    unfolding UpdateApproval_tx_def Let_def decide_derive_eq decide_events_def
    apply (rule sk.bind, intro status_steps)+
    apply (rule sk.cond, intro status_steps)+
    apply (rule sk.bind, intro status_steps)
    apply (rule sk.lift_bind, rule sk.bind, erule up)
    by (intro status_steps)
qed

lemma UpdateTask_status: "obeys status_kept (UpdateTask_tx rid action)"
  unfolding UpdateTask_tx_def
  apply (rule sk.bind, intro status_steps)
  apply (rule sk.lift_bind)
  by (intro status_steps SetStatus_status UpdateStage_status) (auto simp: TaskTransition_not_completed)

lemmas all_status_transactions = status_transactions UpdateApproval_status UpdateTask_status

end
