(* ===== verification/Stage_Invariant.thy ===== *)
theory Stage_Invariant
  imports Db_Relations
begin

text \<open>
  The invariant of the stage tables and the proof that a change of one stage row, with its
  approvals and deliverables, keeps it. It ties every stage row to the pipeline stored with its
  task, bounds the approvals of a stage by its retry counters, makes "in review" and "has a
  pending approval" the same thing, says which approvals a stage that has moved on must have
  had, and that a stage has started only after its dependencies were approved.
\<close>

section \<open>What the invariant reads\<close>

text \<open>The part of the database that \<open>Emit\<close> and task status changes leave alone.\<close>

definition core :: "db \<Rightarrow> db" where
  "core d = d\<lparr>db_projects := [], db_tasks := map task_static (db_tasks d), db_events := [], db_usages := []\<rparr>"

definition has_spec :: "db \<Rightarrow> 'a StageEntity_scheme \<Rightarrow> StageSpec \<Rightarrow> bool" where
  "has_spec d s sp \<longleftrightarrow> (\<exists>t\<in>set (db_tasks d). \<exists>p. t_ID t = s_TaskID s \<and> t_Pipeline t = Some p \<and>
     sp \<in> set (pl_Stages p) \<and> sp_ID sp = s_StageKey s)"

definition gate :: "db \<Rightarrow> 'a StageEntity_scheme \<Rightarrow> string \<Rightarrow> bool" where
  "gate d s kind \<longleftrightarrow> (\<exists>sp. has_spec d s sp \<and> kind \<in> set (elems (sp_Approvals sp)))"

definition approvals_of :: "ApprovalEntity list \<Rightarrow> string \<Rightarrow> ApprovalEntity list" where
  "approvals_of as sid = filter (\<lambda>a. a_StageID a = sid) as"

text \<open>The stage is past its plan.\<close>

definition past_plan :: "'a StageEntity_scheme \<Rightarrow> bool" where
  "past_plan s \<longleftrightarrow> s_Status s \<in> {''executing'', ''deliverable_review'', ''approved''} \<or>
     s_Status s = ''blocked'' \<and> s_BlockedReason s \<in> {Some ''deliverable'', Some ''publish''}"

definition granted :: "ApprovalEntity \<Rightarrow> bool" where
  "granted a \<longleftrightarrow> a_Status a = ''approved'' \<or> a_Status a = ''edited''"

text \<open>
  The approvals of one kind: retry numbers are at most the counter \<open>n\<close>; one is pending exactly
  while the stage is in review, and it is the one numbered \<open>n\<close>; a decided one numbered \<open>n\<close>
  was granted and the stage has moved on; and a gated stage that has moved on has one.
\<close>

definition approval_ok :: "ApprovalEntity \<Rightarrow> int \<Rightarrow> bool \<Rightarrow> bool \<Rightarrow> bool" where
  "approval_ok a n review past \<longleftrightarrow>
     a_Status a \<in> {''pending'', ''approved'', ''rejected'', ''edited''} \<and>
     0 \<le> a_RetryNo a \<and> a_RetryNo a \<le> n \<and>
     (a_Status a = ''pending'' \<longrightarrow> review \<and> a_RetryNo a = n) \<and>
     (a_Status a \<noteq> ''pending'' \<and> a_RetryNo a = n \<longrightarrow> granted a \<and> past)"

definition side_ok :: "bool \<Rightarrow> ApprovalEntity list \<Rightarrow> string \<Rightarrow> int \<Rightarrow> bool \<Rightarrow> bool \<Rightarrow> bool" where
  "side_ok g as kind n review past \<longleftrightarrow>
     (\<forall>a\<in>set as. a_Kind a = kind \<longrightarrow> approval_ok a n review past) \<and>
     (review \<longrightarrow> (\<exists>a\<in>set as. a_Kind a = kind \<and> a_Status a = ''pending'')) \<and>
     (g \<and> past \<longrightarrow> (\<exists>a\<in>set as. a_Kind a = kind \<and> granted a \<and> a_RetryNo a = n))"

definition counters_ok :: "'a StageEntity_scheme \<Rightarrow> bool" where
  "counters_ok s \<longleftrightarrow>
     s_Status s \<in> set stage_statuses \<and> 0 \<le> s_PlanRetryNo s \<and> 0 \<le> s_DeliverableRetryNo s \<and>
     s_RetryCount s = s_PlanRetryNo s + s_DeliverableRetryNo s \<and>
     (s_BlockedReason s = None \<longleftrightarrow> s_Status s \<noteq> ''blocked'') \<and>
     s_BlockedReason s \<in> {None, Some ''plan'', Some ''deliverable'', Some ''publish''}"

definition stage_local :: "(string \<Rightarrow> bool) \<Rightarrow> ApprovalEntity list \<Rightarrow> bool \<Rightarrow> 'a StageEntity_scheme \<Rightarrow> bool" where
  "stage_local g as dv s \<longleftrightarrow>
     counters_ok s \<and> (\<forall>a\<in>set as. a_Kind a \<in> {''plan'', ''deliverable''}) \<and>
     distinct (map (\<lambda>a. (a_Kind a, a_RetryNo a)) as) \<and>
     side_ok (g ''plan'') as ''plan'' (s_PlanRetryNo s) (s_Status s = ''plan_review'') (past_plan s) \<and>
     side_ok (g ''deliverable'') as ''deliverable'' (s_DeliverableRetryNo s)
       (s_Status s = ''deliverable_review'') (s_Status s = ''approved'') \<and>
     (s_Status s = ''deliverable_review'' \<or> s_Status s = ''approved'' \<longrightarrow> dv)"

definition has_deliverable :: "Deliverable list \<Rightarrow> string \<Rightarrow> bool" where
  "has_deliverable ds sid \<longleftrightarrow> (\<exists>x\<in>set ds. d_StageID x = sid)"

definition good_pipeline :: "Pipeline \<Rightarrow> bool" where
  "good_pipeline p \<longleftrightarrow> pl_Stages p \<noteq> [] \<and> distinct (stage_ids (pl_Stages p)) \<and> deps_closed (pl_Stages p) \<and>
     acyclic (dep_rel (pl_Stages p)) \<and> 1 \<le> MaxRetries (pl_Policy p)"

definition task_shape :: "db \<Rightarrow> TaskEntity \<Rightarrow> bool" where
  "task_shape d t \<longleftrightarrow> (\<exists>p. t_Pipeline t = Some p \<and> good_pipeline p \<and>
     (\<forall>sp\<in>set (pl_Stages p). \<exists>s\<in>set (db_stages d). s_TaskID s = t_ID t \<and> s_StageKey s = sp_ID sp))"

definition shape :: "db \<Rightarrow> bool" where
  "shape d \<longleftrightarrow>
     distinct (map t_ID (db_tasks d)) \<and> distinct (map s_ID (db_stages d)) \<and>
     distinct (map (\<lambda>s. (s_TaskID s, s_StageKey s)) (db_stages d)) \<and> distinct (map a_ID (db_approvals d)) \<and>
     (\<forall>t\<in>set (db_tasks d). task_shape d t) \<and>
     (\<forall>s\<in>set (db_stages d). \<exists>sp. has_spec d s sp \<and> s_Role s = sp_Agent sp \<and> s_DependsOn s = elems (sp_DependsOn sp)) \<and>
     (\<forall>a\<in>set (db_approvals d). \<exists>s\<in>set (db_stages d). s_ID s = a_StageID a \<and> s_TaskID s = a_TaskID a) \<and>
     (\<forall>x\<in>set (db_deliverables d). d_StageID x \<in> s_ID ` set (db_stages d))"

definition deps_approved :: "Stage list \<Rightarrow> 'a StageEntity_scheme \<Rightarrow> bool" where
  "deps_approved rows s \<longleftrightarrow> (\<forall>dep\<in>set (s_DependsOn s).
     \<exists>p\<in>set rows. s_TaskID p = s_TaskID s \<and> s_StageKey p = dep \<and> s_Status p = ''approved'')"

definition stage_inv :: "db \<Rightarrow> bool" where
  "stage_inv d \<longleftrightarrow>
     shape d \<and>
     (\<forall>s\<in>set (db_stages d).
        stage_local (gate d s) (approvals_of (db_approvals d) (s_ID s)) (has_deliverable (db_deliverables d) (s_ID s)) s \<and>
        (s_Status s \<noteq> ''pending'' \<longrightarrow> deps_approved (db_stages d) s))"

section \<open>The invariant only reads the core\<close>

lemma task_static_simps [simp]: "t_ID (task_static t) = t_ID t" "t_Pipeline (task_static t) = t_Pipeline t"
  "t_Workspace (task_static t) = t_Workspace t"
  by (simp_all add: task_static_def)

lemma core_simps [simp]:
  "db_stages (core d) = db_stages d" "db_approvals (core d) = db_approvals d"
  "db_deliverables (core d) = db_deliverables d" "db_projects (core d) = []"
  "db_tasks (core d) = map task_static (db_tasks d)"
  by (simp_all add: core_def)

lemma has_spec_core: "has_spec (core d) s sp = has_spec d s sp"
  by (simp add: has_spec_def)

lemma gate_core: "gate (core d) s = gate d s"
  by (rule ext) (simp add: gate_def has_spec_core)

lemma stage_inv_core: "stage_inv (core d) = stage_inv d"
proof -
  have "shape (core d) = shape d"
    by (simp add: shape_def has_spec_core task_shape_def comp_def)
  then show ?thesis by (simp add: stage_inv_def gate_core)
qed

lemma stage_inv_cong: "core d = core d' \<Longrightarrow> stage_inv d = stage_inv d'"
  by (metis stage_inv_core)

lemma stage_local_truncate [simp]:
  "stage_local g as dv (StageEntity.truncate r) = stage_local g as dv r"
  by (simp add: stage_local_def counters_ok_def past_plan_def)

text \<open>Change of one stage row: what has to be shown is local to that stage.\<close>

definition same_row :: "'a StageEntity_scheme \<Rightarrow> 'b StageEntity_scheme \<Rightarrow> bool" where
  "same_row r s \<longleftrightarrow> s_ID s = s_ID r \<and> s_TaskID s = s_TaskID r \<and> s_StageKey s = s_StageKey r \<and>
     s_Role s = s_Role r \<and> s_DependsOn s = s_DependsOn r"

lemma same_rowD:
  "same_row r s \<Longrightarrow> s_ID s = s_ID r" "same_row r s \<Longrightarrow> s_TaskID s = s_TaskID r"
  "same_row r s \<Longrightarrow> s_StageKey s = s_StageKey r" "same_row r s \<Longrightarrow> s_Role s = s_Role r"
  "same_row r s \<Longrightarrow> s_DependsOn s = s_DependsOn r"
  by (simp_all add: same_row_def)

lemma has_spec_row: "same_row r s \<Longrightarrow> db_tasks d' = db_tasks d \<Longrightarrow> has_spec d' s sp = has_spec d r sp"
  by (simp add: has_spec_def same_row_def)

lemma gate_row: "same_row r s \<Longrightarrow> db_tasks d' = db_tasks d \<Longrightarrow> gate d' s = gate d r"
  by (rule ext) (simp add: gate_def has_spec_row)

lemma shape_step:
  assumes sh: "shape d" and h: "\<And>r. r \<in> set (db_stages d) \<Longrightarrow> same_row r (h r)"
    and as': "distinct (map a_ID as')"
      "\<And>a. a \<in> set as' \<Longrightarrow> \<exists>s\<in>set (db_stages d). s_ID s = a_StageID a \<and> s_TaskID s = a_TaskID a"
    and ds': "\<And>x. x \<in> set ds' \<Longrightarrow> d_StageID x \<in> s_ID ` set (db_stages d)"
  shows "shape (d\<lparr>db_stages := map h (db_stages d), db_approvals := as', db_deliverables := ds'\<rparr>)" (is "shape ?d")
  unfolding shape_def
proof (intro conjI ballI)
  have ids: "map s_ID (db_stages ?d) = map s_ID (db_stages d)"
    "map (\<lambda>s. (s_TaskID s, s_StageKey s)) (db_stages ?d) = map (\<lambda>s. (s_TaskID s, s_StageKey s)) (db_stages d)"
    by (simp_all add: same_rowD [OF h])
  show "distinct (map s_ID (db_stages ?d))" "distinct (map (\<lambda>s. (s_TaskID s, s_StageKey s)) (db_stages ?d))"
    unfolding ids using sh by (simp_all add: shape_def)
  show "task_shape ?d t" if "t \<in> set (db_tasks ?d)" for t
  proof -
    have "task_shape d t" using sh that by (simp add: shape_def)
    then show ?thesis unfolding task_shape_def by (auto simp: same_rowD [OF h])
  qed
  show "\<exists>sp. has_spec ?d s sp \<and> s_Role s = sp_Agent sp \<and> s_DependsOn s = elems (sp_DependsOn sp)"
    if s: "s \<in> set (db_stages ?d)" for s
  proof -
    from s obtain r where r: "r \<in> set (db_stages d)" "s = h r" by auto
    with sh obtain sp where "has_spec d r sp" "s_Role r = sp_Agent sp" "s_DependsOn r = elems (sp_DependsOn sp)"
      unfolding shape_def by blast
    with r has_spec_row [OF h [OF r(1)], of ?d d] same_rowD [OF h [OF r(1)]] show ?thesis by auto
  qed
  show "\<exists>s\<in>set (db_stages ?d). s_ID s = a_StageID a \<and> s_TaskID s = a_TaskID a" if "a \<in> set (db_approvals ?d)" for a
    using as'(2) [of a] that by (auto simp: same_rowD [OF h])
  show "d_StageID x \<in> s_ID ` set (db_stages ?d)" if "x \<in> set (db_deliverables ?d)" for x
    using ds' [of x] that by (auto simp: same_rowD [OF h] image_image)
qed (use sh as'(1) in \<open>simp_all add: shape_def\<close>)

lemma deps_step:
  assumes "deps_approved rows r" and h: "\<And>p. p \<in> set rows \<Longrightarrow> s_Status p = ''approved'' \<Longrightarrow> h p = p"
    and "same_row r s"
  shows "deps_approved (map h rows) s"
  unfolding deps_approved_def
proof
  fix dep assume "dep \<in> set (s_DependsOn s)"
  with assms(1,3) obtain p where p: "p \<in> set rows" "s_TaskID p = s_TaskID r" "s_StageKey p = dep" "s_Status p = ''approved''"
    unfolding deps_approved_def by (auto simp: same_rowD)
  then have "p \<in> set (map h rows)" using h by (metis image_eqI set_map)
  with p assms(3) show "\<exists>p\<in>set (map h rows). s_TaskID p = s_TaskID s \<and> s_StageKey p = dep \<and> s_Status p = ''approved''"
    by (metis same_rowD(2))
qed

lemma stage_local_mono: "stage_local g as dv s \<Longrightarrow> (dv \<Longrightarrow> dv') \<Longrightarrow> stage_local g as dv' s"
  by (auto simp: stage_local_def)

lemma local_step:
  assumes inv: "stage_inv d" and r0: "r0 \<in> set (db_stages d)" "P r0"
    and only: "\<And>r. r \<in> set (db_stages d) \<Longrightarrow> P r \<Longrightarrow> s_ID r = s_ID r0"
    and static: "same_row r0 (f r0)"
    and as': "distinct (map a_ID as')"
      "\<And>a. a \<in> set as' \<Longrightarrow> \<exists>s\<in>set (db_stages d). s_ID s = a_StageID a \<and> s_TaskID s = a_TaskID a"
      "\<And>sid. sid \<noteq> s_ID r0 \<Longrightarrow> approvals_of as' sid = approvals_of (db_approvals d) sid"
    and ds': "set (db_deliverables d) \<subseteq> set ds'" "\<And>x. x \<in> set ds' \<Longrightarrow> d_StageID x \<in> s_ID ` set (db_stages d)"
    and not_approved: "s_Status r0 \<noteq> ''approved''"
    and local: "stage_local (gate d r0) (approvals_of as' (s_ID r0)) (has_deliverable ds' (s_ID r0)) (f r0)"
    and deps: "s_Status r0 = ''pending'' \<Longrightarrow> s_Status (f r0) \<noteq> ''pending'' \<Longrightarrow> deps_approved (db_stages d) r0"
  shows "stage_inv (d\<lparr>db_stages := update_where P f (db_stages d), db_approvals := as', db_deliverables := ds'\<rparr>)"
    (is "stage_inv ?d")
proof -
  define h where "h r = (if P r then f r else r)" for r
  have sh: "shape d" using inv by (simp add: stage_inv_def)
  have uniq: "r = r0" if "r \<in> set (db_stages d)" "P r" for r
    using only [OF that] distinct_map_eqD [OF _ that(1) r0(1), of s_ID] sh by (simp add: shape_def)
  have h: "same_row r (h r)" if "r \<in> set (db_stages d)" for r
    using uniq [OF that] static by (auto simp: h_def same_row_def)
  have d: "?d = d\<lparr>db_stages := map h (db_stages d), db_approvals := as', db_deliverables := ds'\<rparr>"
    by (simp add: update_where_def h_def)
  have happ: "h p = p" if "p \<in> set (db_stages d)" "s_Status p = ''approved''" for p
    using uniq [OF that(1)] that(2) not_approved by (auto simp: h_def)
  have "stage_local (gate d r) (approvals_of as' (s_ID r)) (has_deliverable ds' (s_ID r)) (h r) \<and>
      (s_Status (h r) \<noteq> ''pending'' \<longrightarrow> deps_approved (db_stages d) r)" if r: "r \<in> set (db_stages d)" for r
  proof -
    have old: "stage_local (gate d r) (approvals_of (db_approvals d) (s_ID r))
        (has_deliverable (db_deliverables d) (s_ID r)) r" "s_Status r \<noteq> ''pending'' \<Longrightarrow> deps_approved (db_stages d) r"
      using inv r by (auto simp: stage_inv_def)
    show ?thesis
    proof (cases "P r")
      case True
      then have "r = r0" using uniq r by blast
      with True local deps old(2) show ?thesis by (auto simp: h_def)
    next
      case False
      then have "s_ID r \<noteq> s_ID r0"
        using r distinct_map_eqD [OF _ r r0(1), of s_ID] sh r0(2) by (auto simp: shape_def)
      moreover have "has_deliverable (db_deliverables d) (s_ID r) \<Longrightarrow> has_deliverable ds' (s_ID r)"
        using ds'(1) by (auto simp: has_deliverable_def)
      ultimately show ?thesis
        using stage_local_mono [OF old(1)] old(2) as'(3) False by (auto simp: h_def)
    qed
  qed
  moreover have "gate ?d (h r) = gate d r" if "r \<in> set (db_stages d)" for r
    using gate_row [OF h [OF that]] by simp
  moreover have "deps_approved (map h (db_stages d)) (h r)"
    if "r \<in> set (db_stages d)" "deps_approved (db_stages d) r" for r
    by (rule deps_step [OF that(2) happ h [OF that(1)]])
  moreover have "shape ?d" unfolding d by (rule shape_step [OF sh h as'(1,2) ds'(2)])
  ultimately show ?thesis
    unfolding stage_inv_def by (auto simp: d same_rowD [OF h])
qed

end
