(* ===== verification/Stage_Steps.thy ===== *)
theory Stage_Steps
  imports Stage_Invariant
begin

text \<open>
  Every transaction keeps the stage invariant. A stage snapshot an agent works on may be stale;
  the version in the row decides: a write whose version still matches writes over exactly the
  row the snapshot was taken from.
\<close>

section \<open>Approvals of one kind\<close>

lemma side_request:
  assumes "side_ok g as kind n False False"
    and "a_Kind na = kind" "a_RetryNo na = n" "a_Status na = ''pending''" "0 \<le> n"
  shows "side_ok g (as @ [na]) kind n True False"
  using assms by (auto simp: side_ok_def approval_ok_def granted_def)

lemma side_other:
  "a_Kind na \<noteq> kind \<Longrightarrow> side_ok g (as @ [na]) kind n review past = side_ok g as kind n review past"
  by (auto simp: side_ok_def)

lemma side_skip: "side_ok False as kind n False False \<Longrightarrow> side_ok False as kind n False True"
  by (auto simp: side_ok_def approval_ok_def)

text \<open>A decision on the pending approval \<open>a\<close> of the list.\<close>

lemma side_decided:
  assumes ok: "side_ok g as kind n True past" and a: "a \<in> set as" "a_Kind a = kind" "a_Status a = ''pending''"
    and dist: "distinct (map (\<lambda>a. (a_Kind a, a_RetryNo a)) as)"
    and P: "P a" "\<And>b. b \<in> set as \<Longrightarrow> P b \<Longrightarrow> b = a"
    and f: "a_Kind (f a) = kind" "a_RetryNo (f a) = a_RetryNo a"
  shows "granted (f a) \<Longrightarrow> side_ok g (update_where P f as) kind n False True"
    and "a_Status (f a) = ''rejected'' \<Longrightarrow> side_ok g (update_where P f as) kind (n + 1) False False"
proof -
  have n: "a_RetryNo a = n" "0 \<le> n" using ok a by (auto simp: side_ok_def approval_ok_def)
  have row: "b = f a \<or> b \<in> set as \<and> b \<noteq> a" if "b \<in> set (update_where P f as)" for b
    using that P by (auto simp: set_update_where)
  have fa: "f a \<in> set (update_where P f as)" using a(1) P(1) by (auto simp: set_update_where)
  have other: "a_Status b \<noteq> ''pending'' \<and> a_RetryNo b \<noteq> n \<and> approval_ok b n True past"
    if b: "b \<in> set as" "b \<noteq> a" "a_Kind b = kind" for b
  proof -
    have "approval_ok b n True past" using ok b by (simp add: side_ok_def)
    moreover have "a_RetryNo b \<noteq> n" using distinct_map_eqD [OF dist b(1) a(1)] b a(2) n(1) by auto
    ultimately show ?thesis by (auto simp: approval_ok_def)
  qed
  show "side_ok g (update_where P f as) kind n False True" if gr: "granted (f a)"
    unfolding side_ok_def
  proof (intro conjI impI ballI)
    fix b assume b: "b \<in> set (update_where P f as)" "a_Kind b = kind"
    from row [OF b(1)] show "approval_ok b n False True"
    proof
      assume "b = f a"
      with gr f n show ?thesis by (auto simp: approval_ok_def granted_def)
    next
      assume "b \<in> set as \<and> b \<noteq> a"
      with other [of b] b(2) show ?thesis by (auto simp: approval_ok_def)
    qed
  qed (use fa gr f n in auto)
  show "side_ok g (update_where P f as) kind (n + 1) False False" if rj: "a_Status (f a) = ''rejected''"
    unfolding side_ok_def
  proof (intro conjI impI ballI)
    fix b assume b: "b \<in> set (update_where P f as)" "a_Kind b = kind"
    from row [OF b(1)] show "approval_ok b (n + 1) False False"
    proof
      assume "b = f a"
      with rj f n show ?thesis by (auto simp: approval_ok_def)
    next
      assume "b \<in> set as \<and> b \<noteq> a"
      with other [of b] b(2) show ?thesis by (auto simp: approval_ok_def)
    qed
  qed auto
qed

lemma side_ok_filter:
  "side_ok g as kind n review past \<longleftrightarrow>
     (let K = {a \<in> set as. a_Kind a = kind}
      in (\<forall>a\<in>K. approval_ok a n review past) \<and> (review \<longrightarrow> (\<exists>a\<in>K. a_Status a = ''pending'')) \<and>
         (g \<and> past \<longrightarrow> (\<exists>a\<in>K. granted a \<and> a_RetryNo a = n)))"
  by (auto simp: side_ok_def)

lemma side_decided_other:
  assumes "\<And>b. b \<in> set as \<Longrightarrow> P b \<Longrightarrow> a_Kind b \<noteq> kind \<and> a_Kind (f b) \<noteq> kind"
  shows "side_ok g (update_where P f as) kind n review past = side_ok g as kind n review past"
proof -
  have eq: "{b \<in> set (update_where P f as). a_Kind b = kind} = {b \<in> set as. a_Kind b = kind}"
    using assms by (auto simp: set_update_where)
  show ?thesis unfolding side_ok_filter eq ..
qed

section \<open>Changes of one stage\<close>

lemma claim_local:
  assumes loc: "stage_local g as dv r"
    and st: "s_Status r \<in> {''pending'', ''planning''} \<and> to = ''planning'' \<or> s_Status r = ''executing'' \<and> to = ''executing''"
  shows "stage_local g as dv (claim_write to now r)"
proof -
  from st consider "s_Status r = ''pending''" "to = ''planning''" | "s_Status r = ''planning''" "to = ''planning''"
    | "s_Status r = ''executing''" "to = ''executing''" by blast
  then show ?thesis
    using loc by cases (simp_all add: stage_local_def counters_ok_def past_plan_def stage_statuses_def)
qed

text \<open>\<open>stage_local\<close> of a written row is that of the values written.\<close>

lemma stage_local_write:
  "stage_local g as dv (stage_write s now r) =
     stage_local g as dv (s\<lparr>s_RetryCount := s_PlanRetryNo s + s_DeliverableRetryNo s\<rparr>)"
  by (simp add: stage_local_def counters_ok_def past_plan_def)

lemma block_local:
  assumes "stage_local g as dv s" "s_Status s = ''executing''"
  shows "stage_local g as dv (s\<lparr>s_Status := ''blocked'', s_BlockedReason := Some ''publish''\<rparr>)"
  using assms by (auto simp: stage_local_def counters_ok_def past_plan_def stage_statuses_def)

lemma unblock_local:
  assumes "stage_local g as dv s" "s_Status s = ''blocked''"
  shows "stage_local g as dv (unblock s)"
  using assms by (auto simp: stage_local_def counters_ok_def past_plan_def stage_statuses_def unblock_def Let_def)

lemma plan_request_local:
  assumes "stage_local g as dv s" "s_Status s = ''planning''"
    and "a_Kind na = ''plan''" "a_RetryNo na = s_PlanRetryNo s" "a_Status na = ''pending''"
    and "(a_Kind na, a_RetryNo na) \<notin> (\<lambda>a. (a_Kind a, a_RetryNo a)) ` set as"
  shows "stage_local g (as @ [na]) dv (s\<lparr>s_Plan := pl, s_Status := ''plan_review''\<rparr>)"
  using assms side_request [of _ as "''plan''" "s_PlanRetryNo s" na]
  by (auto simp: stage_local_def counters_ok_def past_plan_def stage_statuses_def side_other)

lemma plan_skip_local:
  assumes "stage_local g as dv s" "s_Status s = ''planning''" "\<not> g ''plan''"
  shows "stage_local g as dv (s\<lparr>s_Plan := pl, s_Status := ''executing''\<rparr>)"
  using assms side_skip by (auto simp: stage_local_def counters_ok_def past_plan_def stage_statuses_def)

lemma deliverable_request_local:
  assumes "stage_local g as dv s" "s_Status s = ''executing''"
    and "a_Kind na = ''deliverable''" "a_RetryNo na = s_DeliverableRetryNo s" "a_Status na = ''pending''"
    and "(a_Kind na, a_RetryNo na) \<notin> (\<lambda>a. (a_Kind a, a_RetryNo a)) ` set as"
  shows "stage_local g (as @ [na]) True
     (s\<lparr>s_Plan := pl, s_DeliverableRef := ref, s_DeliverableSummary := su, s_Status := ''deliverable_review''\<rparr>)"
  using assms side_request [of _ as "''deliverable''" "s_DeliverableRetryNo s" na]
  by (auto simp: stage_local_def counters_ok_def past_plan_def stage_statuses_def side_other)

lemma deliverable_skip_local:
  assumes "stage_local g as dv s" "s_Status s = ''executing''" "\<not> g ''deliverable''"
  shows "stage_local g as True
     (s\<lparr>s_Plan := pl, s_Status := ''approved'', s_DeliverableRef := ref, s_DeliverableSummary := su\<rparr>)"
  using assms side_skip by (auto simp: stage_local_def counters_ok_def past_plan_def stage_statuses_def)

lemma decision_status_simps:
  "decision \<in> {''approve'', ''reject'', ''edit''} \<Longrightarrow>
     (if decision = ''reject'' then decision_status decision = ''rejected''
      else decision_status decision \<in> {''approved'', ''edited''})"
  by (auto simp: decision_status_def)

lemma decide_plan_local:
  assumes loc: "stage_local g as dv s" and dec: "Decide s ''plan'' decision fb ed m = Inr s'"
    and a: "a \<in> set as" "a_Kind a = ''plan''" "a_Status a = ''pending''"
    and P: "P a" "\<And>b. b \<in> set as \<Longrightarrow> P b \<Longrightarrow> b = a"
  shows "stage_local g (update_where P (decision_write (decision_status decision) fb ed user now) as) dv
     (s'\<lparr>s_RetryCount := s_PlanRetryNo s' + s_DeliverableRetryNo s'\<rparr>)"
proof -
  let ?f = "decision_write (decision_status decision) fb ed user now"
  let ?as = "update_where P ?f as"
  have st: "s_Status s = ''plan_review''" using Decide_pre(1) [OF dec] by simp
  have dist: "distinct (map (\<lambda>a. (a_Kind a, a_RetryNo a)) as)" using loc by (simp add: stage_local_def)
  have side: "side_ok (g ''plan'') as ''plan'' (s_PlanRetryNo s) True False"
    using loc st by (simp add: stage_local_def past_plan_def)
  note dec' = side_decided [where P = P and f = ?f, OF side a dist P]
  have kinds: "\<forall>b\<in>set ?as. a_Kind b \<in> {''plan'', ''deliverable''}"
    "distinct (map (\<lambda>a. (a_Kind a, a_RetryNo a)) ?as)"
    using loc by (auto simp: stage_local_def set_update_where map_update_where)
  have other: "side_ok (g ''deliverable'') ?as ''deliverable'' (s_DeliverableRetryNo s) False False"
    using loc st a P(2) by (subst side_decided_other) (auto simp: stage_local_def)
  have cnt: "counters_ok s" "s_BlockedReason s = None" using loc st by (auto simp: stage_local_def counters_ok_def)
  note new = Decide_plan [OF dec] decision_status_simps [OF Decide_pre(2) [OF dec]]
  show ?thesis
  proof (cases "decision = ''reject''")
    case False
    then have "side_ok (g ''plan'') ?as ''plan'' (s_PlanRetryNo s) False True"
      using new by (intro dec'(1)) (auto simp: granted_def a(2))
    with False new cnt kinds other st show ?thesis
      by (simp add: stage_local_def counters_ok_def past_plan_def stage_statuses_def)
  next
    case True
    then have "side_ok (g ''plan'') ?as ''plan'' (s_PlanRetryNo s + 1) False False"
      using new by (intro dec'(2)) (auto simp: a(2))
    with True new cnt kinds other st show ?thesis
      by (simp add: stage_local_def counters_ok_def past_plan_def stage_statuses_def split: if_split)
  qed
qed

lemma decide_deliverable_local:
  assumes loc: "stage_local g as dv s" and dec: "Decide s ''deliverable'' decision fb ed m = Inr s'"
    and a: "a \<in> set as" "a_Kind a = ''deliverable''" "a_Status a = ''pending''"
    and P: "P a" "\<And>b. b \<in> set as \<Longrightarrow> P b \<Longrightarrow> b = a"
  shows "stage_local g (update_where P (decision_write (decision_status decision) fb ed user now) as) dv
     (s'\<lparr>s_RetryCount := s_PlanRetryNo s' + s_DeliverableRetryNo s'\<rparr>)"
proof -
  let ?f = "decision_write (decision_status decision) fb ed user now"
  let ?as = "update_where P ?f as"
  have st: "s_Status s = ''deliverable_review''" using Decide_pre(1) [OF dec] by simp
  have dist: "distinct (map (\<lambda>a. (a_Kind a, a_RetryNo a)) as)" and dv: dv
    using loc st by (simp_all add: stage_local_def)
  have side: "side_ok (g ''deliverable'') as ''deliverable'' (s_DeliverableRetryNo s) True False"
    using loc st by (simp add: stage_local_def)
  note dec' = side_decided [where P = P and f = ?f, OF side a dist P]
  have kinds: "\<forall>b\<in>set ?as. a_Kind b \<in> {''plan'', ''deliverable''}"
    "distinct (map (\<lambda>a. (a_Kind a, a_RetryNo a)) ?as)"
    using loc by (auto simp: stage_local_def set_update_where map_update_where)
  have other: "side_ok (g ''plan'') ?as ''plan'' (s_PlanRetryNo s) False True"
    using loc st a P(2) by (subst side_decided_other) (auto simp: stage_local_def past_plan_def)
  have cnt: "counters_ok s" "s_BlockedReason s = None" using loc st by (auto simp: stage_local_def counters_ok_def)
  note new = Decide_deliverable [OF dec] decision_status_simps [OF Decide_pre(2) [OF dec]]
  show ?thesis
  proof (cases "decision = ''reject''")
    case False
    then have "side_ok (g ''deliverable'') ?as ''deliverable'' (s_DeliverableRetryNo s) False True"
      using new by (intro dec'(1)) (auto simp: granted_def a(2))
    with False new cnt kinds other st dv show ?thesis
      by (simp add: stage_local_def counters_ok_def past_plan_def stage_statuses_def)
  next
    case True
    then have "side_ok (g ''deliverable'') ?as ''deliverable'' (s_DeliverableRetryNo s + 1) False False"
      using new by (intro dec'(2)) (auto simp: a(2))
    with True new cnt kinds other st show ?thesis
      by (simp add: stage_local_def counters_ok_def past_plan_def stage_statuses_def split: if_split)
  qed
qed

section \<open>Transactions that change no stage\<close>

definition same_core :: "db \<Rightarrow> db \<Rightarrow> bool" where
  "same_core d d' \<longleftrightarrow> core d' = core d"

interpretation sc: tx_relation same_core
  by unfold_locales (auto simp: same_core_def)

lemma only_tasks_core: "only_tasks d d' \<Longrightarrow> same_core d d'"
  by (auto simp: only_tasks_def same_core_def core_def intro: db.equality)

lemma same_core_queries:
  "obeys same_core (Emit task stage agent kind payload)" "obeys same_core (SetStatus t st)"
  "obeys same_core (UpdateTaskBudget rid b v)"
  subgoal by (rule obeys_weaken [OF Emit_only_tasks only_tasks_core])
  subgoal by (rule obeys_weaken [OF SetStatus_only_tasks only_tasks_core])
  subgoal by (rule obeysI)
      (auto simp: UpdateTaskBudget_def Let_def tx_Inr same_core_def core_def update_where_def task_static_def)
  done

lemmas same_core_steps = sc.compose same_core_queries LockTask_obeys [OF sc.tx_relation_axioms]

lemma same_core_transactions:
  "obeys same_core (deriveTx t)" "obeys same_core (decide_events t st a)"
  "obeys same_core (SetBudget_tx rid budget)" "obeys same_core (Check_tx rid)"
  "obeys same_core (start_tx rid d)" "obeys same_core (progress_tx rid s kind payload)"
  "obeys same_core (derive_tx rid)" "obeys same_core (fail_tx rid sid att e)"
  unfolding SetBudget_tx_def Check_tx_def start_tx_def progress_tx_def derive_tx_def fail_tx_def
    deriveTx_def decide_events_def Let_def
  by (intro same_core_steps)+

lemma same_core_inv: "same_core d d' \<Longrightarrow> stage_inv d \<Longrightarrow> stage_inv d'"
  unfolding same_core_def by (metis stage_inv_core)

section \<open>Claiming a stage\<close>

definition snapshot :: "db \<Rightarrow> StageEntity \<Rightarrow> bool" where
  "snapshot d s \<longleftrightarrow> (\<exists>r\<in>set (db_stages d). stage_later s r)"

lemma snapshot_later: "snapshot d s \<Longrightarrow> later d d' \<Longrightarrow> snapshot d' s"
  unfolding snapshot_def later_def by (meson stage_later_trans)

lemma snapshot_read: "s \<in> set (Reader_Stages d rid) \<Longrightarrow> snapshot d s \<and> s_TaskID s = rid"
proof -
  assume "s \<in> set (Reader_Stages d rid)"
  then obtain r where r: "r \<in> set (db_stages d)" "s_TaskID r = rid" "s = StageEntity.truncate r"
    by (auto simp: set_Reader_Stages)
  have "StageEntity.truncate (StageEntity.truncate r) = StageEntity.truncate r"
    by (simp add: StageEntity.truncate_def)
  then have "stage_later s r" by (simp add: r(3) stage_later_def)
  with r show ?thesis by (auto simp: snapshot_def)
qed

text \<open>Only one row changes, and no approval or deliverable.\<close>

lemma row_step:
  assumes inv: "stage_inv d" and r0: "r0 \<in> set (db_stages d)" "P r0"
    and only: "\<And>r. r \<in> set (db_stages d) \<Longrightarrow> P r \<Longrightarrow> s_ID r = s_ID r0"
    and static: "same_row r0 (f r0)" and not_approved: "s_Status r0 \<noteq> ''approved''"
    and local: "stage_local (gate d r0) (approvals_of (db_approvals d) (s_ID r0))
      (has_deliverable (db_deliverables d) (s_ID r0)) (f r0)"
    and deps: "s_Status r0 = ''pending'' \<Longrightarrow> s_Status (f r0) \<noteq> ''pending'' \<Longrightarrow> deps_approved (db_stages d) r0"
  shows "stage_inv (d\<lparr>db_stages := update_where P f (db_stages d)\<rparr>)"
proof -
  have "shape d" using inv by (simp add: stage_inv_def)
  then have "stage_inv (d\<lparr>db_stages := update_where P f (db_stages d), db_approvals := db_approvals d,
      db_deliverables := db_deliverables d\<rparr>)"
    by (intro local_step [where P = P and f = f, OF inv r0 only static _ _ _ _ _ not_approved local deps]) (auto simp: shape_def)
  then show ?thesis by simp
qed

lemma stage_inv_local:
  assumes "stage_inv d" "r \<in> set (db_stages d)"
  shows "stage_local (gate d r) (approvals_of (db_approvals d) (s_ID r))
      (has_deliverable (db_deliverables d) (s_ID r)) r"
  using assms by (simp add: stage_inv_def)

lemma claim_tx_Inr:
  assumes "claim_tx rid s mode tx = Inr (c, tx')"
  shows "\<exists>t tx1. GetTask (tx_db tx) rid = Inr t \<and> \<not> Terminal (t_Status t) \<and>
      t_Status t \<notin> {''paused'', ''blocked''} \<and>
      (s_Status s = ''pending'' \<longrightarrow> Ready s (Reader_Stages (tx_db tx) rid)) \<and>
      ClaimStage (s_ID s) (s_Attempt s) (if mode = ''execute'' then ''executing'' else ''planning'') (s_Status s) tx
        = Inr (s_Attempt s + 1, tx1) \<and>
      same_core (tx_db tx1) (tx_db tx') \<and>
      c = s\<lparr>s_Status := (if mode = ''execute'' then ''executing'' else ''planning''),
        s_Attempt := s_Attempt s + 1, s_Version := s_Version s + 1\<rparr>"
proof -
  define to where "to = (if mode = ''execute'' then ''executing'' else ''planning'')"
  let ?emit = "whenT (s_Status s = ''pending'')
      (Emit rid (s_StageKey s) (s_Role s) ''stage.started'' (JObj [(''role'', JStr (s_Role s))]))"
  let ?ready = "\<lambda>db. if Ready s (Reader_Stages db rid) then Inr () else Inl ErrStale"
  from assms obtain t where t: "GetTask (tx_db tx) rid = Inr t"
    and rest: "(if Terminal (t_Status t) \<or> t_Status t = ''paused'' \<or> t_Status t = ''blocked'' then failT ErrStale
      else bindT (whenT (s_Status s = ''pending'') (readT ?ready)) (\<lambda>_.
         bindT (ClaimStage (s_ID s) (s_Attempt s) to (s_Status s)) (\<lambda>att. bindT ?emit (\<lambda>_.
           retT (s\<lparr>s_Status := to, s_Attempt := att, s_Version := s_Version s + 1\<rparr>))))) tx = Inr (c, tx')"
    unfolding claim_tx_def Let_def to_def [symmetric] by (subst (asm) bindT_Inr) (auto simp only: LockTask_Inr)
  have live: "\<not> (Terminal (t_Status t) \<or> t_Status t = ''paused'' \<or> t_Status t = ''blocked'')"
    using rest by (auto split: if_splits)
  with rest obtain att tx1 where ready: "whenT (s_Status s = ''pending'') (readT ?ready) tx = Inr ((), tx)"
    and cl: "ClaimStage (s_ID s) (s_Attempt s) to (s_Status s) tx = Inr (att, tx1)"
    and em: "?emit tx1 = Inr ((), tx')" and c: "c = s\<lparr>s_Status := to, s_Attempt := att, s_Version := s_Version s + 1\<rparr>"
    by (auto simp: bindT_Inr whenT_Inr readT_Inr split: if_splits)
  have "s_Status s = ''pending'' \<longrightarrow> Ready s (Reader_Stages (tx_db tx) rid)"
    using ready by (simp add: whenT_Inr readT_Inr split: if_splits)
  moreover have "att = s_Attempt s + 1" using cl by (simp add: ClaimStage_Inr Let_def)
  moreover have "same_core (tx_db tx1) (tx_db tx')"
    using em by (rule obeysD [rotated]) (intro same_core_steps)
  ultimately show ?thesis using t live cl c unfolding to_def by blast
qed

lemma Ready_deps:
  assumes "Ready s (Reader_Stages d rid)" "same_row s r" "s_TaskID s = rid"
  shows "deps_approved (db_stages d) r"
  using assms unfolding Ready_iff set_Reader_Stages deps_approved_def
  by (fastforce simp: same_row_def)

lemma claim_inv:
  assumes inv: "stage_inv (tx_db tx)" and snap: "snapshot (tx_db tx) s" "s_TaskID s = rid"
    and mode: "mode = stage_mode s ss" "mode \<noteq> []"
    and ok: "claim_tx rid s mode tx = Inr (c, tx')"
  shows "stage_inv (tx_db tx')"
proof -
  let ?to = "if mode = ''execute'' then ''executing'' else ''planning''"
  let ?P = "\<lambda>r :: Stage. s_ID r = s_ID s \<and> s_Attempt r = s_Attempt s \<and> s_Status r = s_Status s"
  let ?f = "claim_write ?to (e_now (tx_env tx))"
  from claim_tx_Inr [OF ok] obtain tx1 where ready: "s_Status s = ''pending'' \<longrightarrow> Ready s (Reader_Stages (tx_db tx) rid)"
    and cl: "ClaimStage (s_ID s) (s_Attempt s) ?to (s_Status s) tx = Inr (s_Attempt s + 1, tx1)"
    and core: "same_core (tx_db tx1) (tx_db tx')" by blast
  from cl obtain r where r: "r \<in> set (db_stages (tx_db tx))" "?P r"
    and d1: "tx_db tx1 = (tx_db tx)\<lparr>db_stages := update_where ?P ?f (db_stages (tx_db tx))\<rparr>"
    by (auto simp: ClaimStage_Inr Let_def)
  have sh: "distinct (map s_ID (db_stages (tx_db tx)))" using inv by (simp add: stage_inv_def shape_def)
  from snap(1) obtain q where q: "q \<in> set (db_stages (tx_db tx))" "stage_later s q" by (auto simp: snapshot_def)
  then have "q = r" using distinct_map_eqD [OF sh q(1) r(1)] r(2) by (simp add: stage_later_def)
  with q(2) have row: "same_row s r" by (simp add: stage_later_def same_row_def)
  have st: "s_Status r \<in> {''pending'', ''planning''} \<and> ?to = ''planning'' \<or> s_Status r = ''executing'' \<and> ?to = ''executing''"
    using mode r(2) by (auto simp: stage_mode_def split: if_splits)
  have "stage_inv (tx_db tx1)"
    unfolding d1
  proof (rule row_step [where P = ?P, OF inv r])
    show "stage_local (gate (tx_db tx) r) (approvals_of (db_approvals (tx_db tx)) (s_ID r))
        (has_deliverable (db_deliverables (tx_db tx)) (s_ID r)) (?f r)"
      by (rule claim_local [OF stage_inv_local [OF inv r(1)] st])
    show "deps_approved (db_stages (tx_db tx)) r" if "s_Status r = ''pending''"
      using ready that r(2) by (intro Ready_deps [OF _ row snap(2)]) simp
    show "s_Status r \<noteq> ''approved''" using st by auto
  qed (use r in \<open>simp_all add: same_row_def\<close>)
  then show ?thesis by (rule same_core_inv [OF core])
qed

lemma truncate_id [simp]: "StageEntity.truncate (s :: StageEntity) = s"
  by (cases s) (simp add: StageEntity.truncate_def)

lemma claim_snapshot:
  assumes sh: "distinct (map s_ID (db_stages (tx_db tx)))" and snap: "snapshot (tx_db tx) s"
    and ok: "claim_tx rid s mode tx = Inr (c, tx')"
  shows "snapshot (tx_db tx') c"
proof -
  let ?to = "if mode = ''execute'' then ''executing'' else ''planning''"
  let ?f = "claim_write ?to (e_now (tx_env tx))"
  from claim_tx_Inr [OF ok] obtain tx1 where
    cl: "ClaimStage (s_ID s) (s_Attempt s) ?to (s_Status s) tx = Inr (s_Attempt s + 1, tx1)"
    and core: "same_core (tx_db tx1) (tx_db tx')"
    and c: "c = s\<lparr>s_Status := ?to, s_Attempt := s_Attempt s + 1, s_Version := s_Version s + 1\<rparr>" by blast
  from cl obtain r where r: "r \<in> set (db_stages (tx_db tx))" "s_ID r = s_ID s" "s_Attempt r = s_Attempt s"
    and upd: "?f r \<in> set (db_stages (tx_db tx1))"
    by (auto simp: ClaimStage_Inr Let_def set_update_where)
  from snap obtain q where q: "q \<in> set (db_stages (tx_db tx))" "stage_later s q" by (auto simp: snapshot_def)
  then have "q = r" using distinct_map_eqD [OF sh q(1) r(1)] r(2) by (simp add: stage_later_def)
  then have later: "stage_later s r" using q(2) by simp
  have "StageEntity.truncate (?f r) = (StageEntity.truncate r)\<lparr>s_Status := ?to, s_Attempt := s_Attempt r + 1,
      s_Version := s_Version r + 1\<rparr>" by (simp add: claim_write_def StageEntity.truncate_def)
  moreover have "StageEntity.truncate c = (StageEntity.truncate s)\<lparr>s_Status := ?to, s_Attempt := s_Attempt s + 1,
      s_Version := s_Version s + 1\<rparr>" by (simp add: c StageEntity.truncate_def)
  ultimately have "stage_later c (?f r)"
    using later r(3) unfolding stage_later_def by (simp add: c)
  moreover have "db_stages (tx_db tx') = db_stages (tx_db tx1)"
    using core unfolding same_core_def by (metis core_simps(1))
  ultimately show ?thesis using upd by (auto simp: snapshot_def)
qed

section \<open>Writing a stage back\<close>

text \<open>A write that succeeds had a current snapshot.\<close>

lemma UpdateStage_row:
  assumes "distinct (map s_ID (db_stages (tx_db tx)))" "snapshot (tx_db tx) c"
    and "s_ID s = s_ID c" "s_Attempt s = s_Attempt c" "s_Version s = s_Version c"
    and ok: "UpdateStage s (s_Status c) tx = Inr (u, tx')"
  obtains r where "r \<in> set (db_stages (tx_db tx))" "StageEntity.truncate r = c" "stage_match s (s_Status c) r"
    "tx_db tx' = (tx_db tx)\<lparr>db_stages :=
       update_where (stage_match s (s_Status c)) (stage_write s (e_now (tx_env tx))) (db_stages (tx_db tx))\<rparr>"
proof -
  from ok have n: "length (filter (stage_match s (s_Status c)) (db_stages (tx_db tx))) = 1"
    and d': "tx_db tx' = (tx_db tx)\<lparr>db_stages :=
       update_where (stage_match s (s_Status c)) (stage_write s (e_now (tx_env tx))) (db_stages (tx_db tx))\<rparr>"
    by (simp_all add: UpdateStage_Inr Let_def)
  from n obtain r where r: "r \<in> set (db_stages (tx_db tx))" "stage_match s (s_Status c) r"
    by (metis filter_False length_0_conv zero_neq_one)
  from assms(2) obtain q where q: "q \<in> set (db_stages (tx_db tx))" "stage_later c q" by (auto simp: snapshot_def)
  have "q = r" using distinct_map_eqD [OF assms(1) q(1) r(1)] q(2) r(2) assms(3)
    by (simp add: stage_later_def stage_match_def)
  then have "StageEntity.truncate r = c"
    using q(2) r(2) assms(5) by (simp add: stage_later_def stage_match_def)
  with r d' that show ?thesis by blast
qed

lemma gate_truncate [simp]: "gate d (StageEntity.truncate r) = gate d r"
  by (rule ext) (simp add: gate_def has_spec_def)

lemma match_only: "stage_match s old r \<Longrightarrow> stage_match s old r' \<Longrightarrow> s_ID r = s_ID r'"
  by (simp add: stage_match_def)

text \<open>A write of a stage whose approvals and deliverables stay.\<close>

lemma write_inv:
  assumes inv: "stage_inv (tx_db tx)" and snap: "snapshot (tx_db tx) c"
    and key: "s_ID s = s_ID c" "s_Attempt s = s_Attempt c" "s_Version s = s_Version c"
    and ok: "UpdateStage s (s_Status c) tx = Inr (u, tx')"
    and st: "s_Status c \<noteq> ''approved''" "s_Status c \<noteq> ''pending''"
    and local: "\<And>as dv. stage_local (gate (tx_db tx) c) as dv c \<Longrightarrow>
      stage_local (gate (tx_db tx) c) as dv (s\<lparr>s_RetryCount := s_PlanRetryNo s + s_DeliverableRetryNo s\<rparr>)"
  shows "stage_inv (tx_db tx')"
proof -
  have "distinct (map s_ID (db_stages (tx_db tx)))" using inv by (simp add: stage_inv_def shape_def)
  from UpdateStage_row [OF this snap key ok] obtain r where r: "r \<in> set (db_stages (tx_db tx))"
    "StageEntity.truncate r = c" "stage_match s (s_Status c) r"
    and d': "tx_db tx' = (tx_db tx)\<lparr>db_stages :=
       update_where (stage_match s (s_Status c)) (stage_write s (e_now (tx_env tx))) (db_stages (tx_db tx))\<rparr>" .
  show ?thesis
    unfolding d'
  proof (rule row_step [where P = "stage_match s (s_Status c)", OF inv r(1,3)])
    show "stage_local (gate (tx_db tx) r) (approvals_of (db_approvals (tx_db tx)) (s_ID r))
        (has_deliverable (db_deliverables (tx_db tx)) (s_ID r)) (stage_write s (e_now (tx_env tx)) r)"
      using local stage_inv_local [OF inv r(1)] unfolding stage_local_write by (simp flip: r(2))
  qed (use r(2,3) st in \<open>auto simp: same_row_def match_only stage_match_def\<close>)
qed

lemma block_inv:
  assumes inv: "stage_inv (tx_db tx)" and snap: "snapshot (tx_db tx) c" and st: "s_Status c = ''executing''"
    and ok: "block_tx rid c e tx = Inr (u, tx')"
  shows "stage_inv (tx_db tx')"
proof -
  let ?s = "c\<lparr>s_Status := ''blocked'', s_BlockedReason := Some ''publish''\<rparr>"
  let ?emit = "Emit rid (s_StageKey ?s) (s_Role ?s) ''stage.blocked''
      (JObj [(''reason'', JStr ''publish_failed''), (''error'', JStr (error_text e)),
        (''last_feedback'', jopt (s_LastFeedback ?s))])"
  from ok consider "tx' = tx" | t tx1 where "UpdateStage ?s (s_Status c) tx = Inr ((), tx1)"
      "bindT ?emit (\<lambda>_. deriveTx t) tx1 = Inr (u, tx')"
    unfolding block_tx_def Let_def by (auto simp: bindT_Inr LockTask_Inr split: if_splits)
  then show ?thesis
  proof cases
    case 2
    have "stage_inv (tx_db tx1)"
    proof (rule write_inv [OF inv snap _ _ _ 2(1)])
      fix as dv assume loc: "stage_local (gate (tx_db tx) c) as dv c"
      have "?s\<lparr>s_RetryCount := s_PlanRetryNo ?s + s_DeliverableRetryNo ?s\<rparr> = ?s"
        using loc by (simp add: stage_local_def counters_ok_def)
      with block_local [OF loc st] show "stage_local (gate (tx_db tx) c) as dv
          (?s\<lparr>s_RetryCount := s_PlanRetryNo ?s + s_DeliverableRetryNo ?s\<rparr>)" by simp
    qed (use st in simp_all)
    moreover have "same_core (tx_db tx1) (tx_db tx')"
      using 2(2) by (rule obeysD [rotated]) (intro same_core_steps same_core_transactions)
    ultimately show ?thesis by (rule same_core_inv [rotated])
  qed (use inv in simp)
qed

lemma unblock_key: "s_ID (unblock s) = s_ID s" "s_Attempt (unblock s) = s_Attempt s" "s_Version (unblock s) = s_Version s"
  "s_PlanRetryNo (unblock s) = s_PlanRetryNo s" "s_DeliverableRetryNo (unblock s) = s_DeliverableRetryNo s"
  "s_RetryCount (unblock s) = s_RetryCount s"
  by (simp_all add: unblock_def Let_def)

lemma unblock_row_inv:
  assumes "stage_inv (tx_db tx)" "snapshot (tx_db tx) st" "s_Status st = ''blocked''"
    "UpdateStage (unblock st) ''blocked'' tx = Inr (u, tx')"
  shows "stage_inv (tx_db tx')"
proof (rule write_inv [OF assms(1,2), of "unblock st"])
  fix as dv assume loc: "stage_local (gate (tx_db tx) st) as dv st"
  have "(unblock st)\<lparr>s_RetryCount := s_PlanRetryNo (unblock st) + s_DeliverableRetryNo (unblock st)\<rparr> = unblock st"
    using loc by (simp add: stage_local_def counters_ok_def unblock_def Let_def)
  with unblock_local [OF loc assms(3)] show "stage_local (gate (tx_db tx) st) as dv
      ((unblock st)\<lparr>s_RetryCount := s_PlanRetryNo (unblock st) + s_DeliverableRetryNo (unblock st)\<rparr>)" by simp
qed (use assms(3,4) in \<open>simp_all add: unblock_key\<close>)

lemma unblock_all_inv:
  assumes "stage_inv (tx_db tx)" "\<forall>st\<in>set ss. snapshot (tx_db tx) st"
    "eachT (\<lambda>st. if s_Status st \<noteq> ''blocked'' then retT () else UpdateStage (unblock st) ''blocked'') ss tx = Inr (u, tx')"
  shows "stage_inv (tx_db tx')"
  using assms
proof (induction ss arbitrary: tx)
  case (Cons st ss)
  let ?m = "\<lambda>st. if s_Status st \<noteq> ''blocked'' then retT () else UpdateStage (unblock st) ''blocked''"
  from Cons.prems(3) obtain tx1 where m: "?m st tx = Inr ((), tx1)" and rest: "eachT ?m ss tx1 = Inr (u, tx')"
    by (auto simp: bindT_Inr)
  have "later (tx_db tx) (tx_db tx1)"
    using m by (rule obeysD [rotated]) (intro later_steps)
  then have snap: "\<forall>st\<in>set ss. snapshot (tx_db tx1) st" using Cons.prems(2) snapshot_later by auto
  have "stage_inv (tx_db tx1)"
    using m Cons.prems(1,2) unblock_row_inv [of tx st] by (auto split: if_splits)
  from Cons.IH [OF this snap rest] show ?case .
qed simp

lemma UpdateTask_inv:
  assumes inv: "stage_inv (tx_db tx)" and ok: "UpdateTask_tx rid action tx = Inr (u, tx')"
  shows "stage_inv (tx_db tx')"
proof -
  let ?m = "\<lambda>st. if s_Status st \<noteq> ''blocked'' then retT () else UpdateStage (unblock st) ''blocked''"
  let ?unblock = "bindT (readT (\<lambda>db. Inr (Reader_Stages db rid))) (eachT ?m)"
  let ?emit = "Emit rid [] [] (action_kind action)
         (JObj (if action = ''pause'' then [(''reason'', JStr ''user'')] else []))"
  let ?hook = "if action = ''cancel'' then AfterCommit (CancelTask rid)
       else if action = ''resume'' then AfterCommit (WakeTask rid) else retT ()"
  from ok obtain t tx0 to tx0' u1 tx0'' u2 tx1 u3 tx2 u4 tx3 where
    pre: "LockTask rid tx = Inr (t, tx0)" "liftT (TaskTransition (t_Status t) action) tx0 = Inr (to, tx0')"
      "whenT (action = ''resume'') (readT (\<lambda>db.
         if t_TokenBudget t \<le> TaskTokensUsed db rid
         then Inl (Fault 409 ''BUDGET_EXCEEDED'' ''token budget is exhausted; increase it before resuming'')
         else Inr ())) tx0' = Inr (u1, tx0'')"
    and un: "whenT (action = ''resume'' \<and> t_Status t = ''blocked'') ?unblock tx0'' = Inr (u2, tx1)"
    and rest: "SetStatus t to tx1 = Inr (u3, tx2)" "?emit tx2 = Inr (u4, tx3)" "?hook tx3 = Inr (u, tx')"
    unfolding UpdateTask_tx_def by (elim bindT_InrE) (erule that, assumption+)
  have "tx0'' = tx" using pre by (simp add: LockTask_Inr liftT_Inr whenT_Inr readT_Inr split: if_splits)
  with un have un: "whenT (action = ''resume'' \<and> t_Status t = ''blocked'') ?unblock tx = Inr (u2, tx1)" by simp
  have "stage_inv (tx_db tx1)"
  proof (cases "action = ''resume'' \<and> t_Status t = ''blocked''")
    case True
    with un have "eachT ?m (Reader_Stages (tx_db tx) rid) tx = Inr (u2, tx1)"
      by (simp add: whenT_def bindT_Inr readT_Inr)
    then show ?thesis using snapshot_read by (intro unblock_all_inv [OF inv]) auto
  next
    case False
    with un inv show ?thesis by (simp add: whenT_def)
  qed
  moreover have "same_core (tx_db tx1) (tx_db tx')"
    using obeysD [OF same_core_queries(2) rest(1)] obeysD [OF same_core_queries(1) rest(2)] rest(3)
    by (auto simp: same_core_def split: if_splits)
  ultimately show ?thesis by (rule same_core_inv [rotated])
qed

section \<open>Committing a result\<close>

lemma core_update [simp]:
  "core (d\<lparr>db_deliverables := ds\<rparr>) = (core d)\<lparr>db_deliverables := ds\<rparr>"
  "core (d\<lparr>db_approvals := as\<rparr>) = (core d)\<lparr>db_approvals := as\<rparr>"
  "core (d\<lparr>db_stages := ss\<rparr>) = (core d)\<lparr>db_stages := ss\<rparr>"
  by (simp_all add: core_def)

lemma same_coreD:
  assumes "same_core d d'"
  shows "core d' = core d" "db_stages d' = db_stages d" "db_approvals d' = db_approvals d"
    "db_deliverables d' = db_deliverables d" "map t_ID (db_tasks d') = map t_ID (db_tasks d)"
proof -
  show c: "core d' = core d" using assms by (simp add: same_core_def)
  then show "db_stages d' = db_stages d" "db_approvals d' = db_approvals d" "db_deliverables d' = db_deliverables d"
    by (metis core_simps(1), metis core_simps(2), metis core_simps(3))
  show "map t_ID (db_tasks d') = map t_ID (db_tasks d)"
    using c by (metis core_simps(5) task_static_ID)
qed

lemma commit_deliverable_Inr:
  assumes "commit_deliverable rid s r tx = Inr (did, tx')"
  shows "\<exists>x. d_ID x = did \<and> d_StageID x = s_ID s \<and> s_ID s \<in> s_ID ` set (db_stages (tx_db tx)) \<and>
     core (tx_db tx') = (core (tx_db tx))\<lparr>db_deliverables := db_deliverables (tx_db tx) @ [x]\<rparr>"
proof -
  let ?emit = "\<lambda>did. Emit rid (s_StageKey s) (s_Role s) ''deliverable.produced''
       (JObj [(''deliverable_id'', JStr did), (''kind'', JStr ''markdown''), (''uri'', jopt (rs_Ref r)),
         (''summary'', jopt (s_DeliverableSummary s)),
         (''written_paths'', JArr (map JStr (rs_WrittenPaths r))), (''iterations'', JInt (rs_Iterations r)),
         (''hit_limit'', JBool (rs_HitLimit r))])"
  from assms obtain i tx1 u tx2 v tx3 where i: "NewString tx = Inr (i, tx1)"
    and cd: "CreateDeliverable i rid (s_ID s) (rs_Ref r) (Some (rs_Content r)) (s_DeliverableSummary s) tx1 = Inr (u, tx2)"
    and em: "?emit i tx2 = Inr (v, tx3)" and fin: "retT i tx3 = Inr (did, tx')"
    unfolding commit_deliverable_def by (elim bindT_InrE) (erule that, assumption+)
  have tx1: "tx_db tx1 = tx_db tx" using i by auto
  have "core (tx_db tx') = core (tx_db tx2)"
    using same_coreD(1) [OF obeysD [OF same_core_queries(1) em]] fin by simp
  with cd fin tx1 show ?thesis
    by (intro exI [of _ "new_deliverable i rid (s_ID s) (rs_Ref r) (Some (rs_Content r)) (s_DeliverableSummary s) (e_now (tx_env tx1))"])
      (auto simp: CreateDeliverable_Inr new_deliverable_def)
qed

lemma commit_approval_Inr:
  assumes "commit_approval rid s kind retry r did tx = Inr (u, tx')"
  shows "\<exists>na. a_ID na \<notin> a_ID ` set (db_approvals (tx_db tx)) \<and> a_TaskID na = rid \<and> a_StageID na = s_ID s \<and>
     a_Kind na = kind \<and> a_RetryNo na = retry \<and> a_Status na = ''pending'' \<and>
     (\<forall>a\<in>set (db_approvals (tx_db tx)). \<not> (a_StageID a = s_ID s \<and> a_Kind a = kind \<and> a_RetryNo a = retry)) \<and>
     core (tx_db tx') = (core (tx_db tx))\<lparr>db_approvals := db_approvals (tx_db tx) @ [na]\<rparr>"
proof -
  let ?title = "approval_title (s_StageKey s) kind retry"
  let ?emit = "\<lambda>aid. Emit rid (s_StageKey s) (s_Role s) ''approval.requested''
          (JObj [(''approval_id'', JStr aid), (''kind'', JStr kind), (''retry_no'', JInt retry),
            (''title'', JStr ?title), (''content'', JStr (rs_Content r)),
            (''content_preview'', JStr (Truncate (rs_Content r) 1500)),
            (''deliverable_id'', jopt (optionalID did))])"
  from assms obtain i tx1 v tx2 where i: "NewString tx = Inr (i, tx1)"
    and ca: "CreateApproval i rid (s_ID s) kind retry ?title (rs_Content r) tx1 = Inr (v, tx2)"
    and em: "?emit i tx2 = Inr (u, tx')"
    unfolding commit_approval_def Let_def by (elim bindT_InrE) (erule that, assumption+)
  have tx1: "tx_db tx1 = tx_db tx" using i by auto
  have "core (tx_db tx') = core (tx_db tx2)"
    using same_coreD(1) [OF obeysD [OF same_core_queries(1) em]] .
  with ca tx1 show ?thesis
    by (intro exI [of _ "new_approval i rid (s_ID s) kind retry ?title (rs_Content r) (e_now (tx_env tx1))"])
      (auto simp: CreateApproval_Inr new_approval_def)
qed

text \<open>
  What a claim is entitled to commit: its mode matches the status it was claimed in, and its
  specification is the one stored with the task.
\<close>

definition claim_ok :: "db \<Rightarrow> string \<Rightarrow> StageEntity \<Rightarrow> Input \<Rightarrow> bool" where
  "claim_ok d rid c inp \<longleftrightarrow>
     snapshot d c \<and> s_TaskID c = rid \<and> has_spec d c (in_Stage inp) \<and>
     (in_Mode inp = ''plan'' \<and> s_Status c = ''planning'' \<or> in_Mode inp = ''execute'' \<and> s_Status c = ''executing'')"

lemma has_spec_unique:
  assumes "shape d" "has_spec d s sp" "has_spec d s sp'"
  shows "sp = sp'"
proof -
  from assms(2,3) obtain t p t' p' where t: "t \<in> set (db_tasks d)" "t_ID t = s_TaskID s" "t_Pipeline t = Some p"
      "sp \<in> set (pl_Stages p)" "sp_ID sp = s_StageKey s"
    and t': "t' \<in> set (db_tasks d)" "t_ID t' = s_TaskID s" "t_Pipeline t' = Some p'"
      "sp' \<in> set (pl_Stages p')" "sp_ID sp' = s_StageKey s" by (auto simp: has_spec_def)
  have "t = t'" using assms(1) distinct_map_eqD [OF _ t(1) t'(1), of t_ID] t(2) t'(2) by (simp add: shape_def)
  then have p: "p = p'" using t t' by simp
  have "distinct (stage_ids (pl_Stages p))"
    using assms(1) t(1,3) by (auto simp: shape_def task_shape_def good_pipeline_def)
  from distinct_map_eqD [OF this t(4)] t' t(5) p show ?thesis by simp
qed

lemma claim_gate:
  assumes "shape d" "claim_ok d rid c inp"
  shows "gate d c (commit_kind inp) = commit_gate inp"
  using assms has_spec_unique [OF assms(1)] by (auto simp: gate_def claim_ok_def commit_gate_def)

end
