(* ===== verification/Commit_Steps.thy ===== *)
theory Commit_Steps
  imports Stage_Steps
begin

text \<open>
  Committing a stage result, deciding an approval and creating a task keep the stage invariant.
\<close>

section \<open>commit\<close>

lemma commit_stage_simps [simp]:
  "s_ID (commit_stage c inp res) = s_ID c" "s_Attempt (commit_stage c inp res) = s_Attempt c"
  "s_Version (commit_stage c inp res) = s_Version c" "s_StageKey (commit_stage c inp res) = s_StageKey c"
  "s_Role (commit_stage c inp res) = s_Role c" "s_PlanRetryNo (commit_stage c inp res) = s_PlanRetryNo c"
  "s_DeliverableRetryNo (commit_stage c inp res) = s_DeliverableRetryNo c"
  by (simp_all add: commit_stage_def Let_def)

text \<open>The approval a gated commit asks for.\<close>

definition request_of :: "db \<Rightarrow> string \<Rightarrow> StageEntity \<Rightarrow> Input \<Rightarrow> ApprovalEntity \<Rightarrow> bool" where
  "request_of d rid c inp na \<longleftrightarrow>
     a_ID na \<notin> a_ID ` set (db_approvals d) \<and> a_TaskID na = rid \<and> a_StageID na = s_ID c \<and>
     a_Kind na = commit_kind inp \<and> a_RetryNo na = commit_retry c inp \<and> a_Status na = ''pending'' \<and>
     (\<forall>a\<in>set (db_approvals d).
        \<not> (a_StageID a = s_ID c \<and> a_Kind a = commit_kind inp \<and> a_RetryNo a = commit_retry c inp))"

lemma commit_tx_parts:
  assumes "commit_tx rid c inp res tx = Inr (u, tx')"
  obtains t tx1 did tx2 v tx3 where
    "GetTask (tx_db tx) rid = Inr t" "\<not> Terminal (t_Status t)"
    "UpdateStage (commit_stage c inp res) (s_Status c) tx = Inr ((), tx1)"
    "(if in_Mode inp = ''execute'' then commit_deliverable rid (commit_stage c inp res) res else retT []) tx1 = Inr (did, tx2)"
    "commit_announce rid (commit_stage c inp res) inp (commit_retry c inp) res did tx2 = Inr (v, tx3)"
    "deriveTx t tx3 = Inr (u, tx')"
  using assms unfolding commit_tx_def Let_def
  by (elim bindT_InrE guard_InrE) (rule that, auto simp: LockTask_Inr)

lemma commit_tx_core:
  assumes "commit_tx rid c inp res tx = Inr (u, tx')"
  obtains tx1 xs nas where
    "UpdateStage (commit_stage c inp res) (s_Status c) tx = Inr ((), tx1)"
    "core (tx_db tx') = core ((tx_db tx1)\<lparr>db_approvals := db_approvals (tx_db tx) @ nas,
       db_deliverables := db_deliverables (tx_db tx) @ xs\<rparr>)"
    "if in_Mode inp = ''execute'' then \<exists>x. xs = [x] \<and> d_StageID x = s_ID c else xs = []"
    "if commit_gate inp then \<exists>na. nas = [na] \<and> request_of (tx_db tx) rid c inp na else nas = []"
proof -
  let ?s = "commit_stage c inp res"
  from assms obtain t tx1 did tx2 v tx3 where
    up: "UpdateStage ?s (s_Status c) tx = Inr ((), tx1)"
    and del: "(if in_Mode inp = ''execute'' then commit_deliverable rid ?s res else retT []) tx1 = Inr (did, tx2)"
    and ann: "commit_announce rid ?s inp (commit_retry c inp) res did tx2 = Inr (v, tx3)"
    and der: "deriveTx t tx3 = Inr (u, tx')" by (rule commit_tx_parts)
  have d1: "db_approvals (tx_db tx1) = db_approvals (tx_db tx)" "db_deliverables (tx_db tx1) = db_deliverables (tx_db tx)"
    using up by (auto simp: UpdateStage_Inr Let_def)
  obtain xs where xs: "core (tx_db tx2) = (core (tx_db tx1))\<lparr>db_deliverables := db_deliverables (tx_db tx) @ xs\<rparr>"
    "if in_Mode inp = ''execute'' then \<exists>x. xs = [x] \<and> d_StageID x = s_ID c else xs = []"
  proof (cases "in_Mode inp = ''execute''")
    case True
    then show ?thesis using commit_deliverable_Inr [of rid ?s res tx1 did tx2] del d1(2) that by fastforce
  next
    case False
    then have "tx2 = tx1" using del by simp
    moreover have "(core (tx_db tx1))\<lparr>db_deliverables := db_deliverables (tx_db tx1)\<rparr> = core (tx_db tx1)"
      by (metis core_simps(3) db.surjective db.update_convs(5))
    ultimately show ?thesis using that [of "[]"] False d1(2) by simp
  qed
  have app2: "db_approvals (tx_db tx2) = db_approvals (tx_db tx)"
    using arg_cong [OF xs(1), of db_approvals] d1 by simp
  obtain nas where nas: "core (tx_db tx3) = (core (tx_db tx2))\<lparr>db_approvals := db_approvals (tx_db tx) @ nas\<rparr>"
    "if commit_gate inp then \<exists>na. nas = [na] \<and> request_of (tx_db tx) rid c inp na else nas = []"
  proof (cases "commit_gate inp")
    case True
    then show ?thesis
      using commit_approval_Inr [of rid ?s "commit_kind inp" "commit_retry c inp" res did tx2 v tx3] ann app2 that
      unfolding commit_announce_def request_of_def by fastforce
  next
    case False
    have "same_core (tx_db tx2) (tx_db tx3)"
      using ann False unfolding commit_announce_def
      by (auto dest: obeysD [OF same_core_queries(1)] simp: same_core_def split: if_splits)
    moreover have "(core (tx_db tx2))\<lparr>db_approvals := db_approvals (tx_db tx2)\<rparr> = core (tx_db tx2)"
      by (metis core_simps(2) db.surjective db.update_convs(4))
    ultimately show ?thesis using that [of "[]"] False app2 by (simp add: same_core_def)
  qed
  have "core (tx_db tx') = core (tx_db tx3)" using same_coreD(1) [OF obeysD [OF same_core_transactions(1) der]] .
  then have "core (tx_db tx') = core ((tx_db tx1)\<lparr>db_approvals := db_approvals (tx_db tx) @ nas,
       db_deliverables := db_deliverables (tx_db tx) @ xs\<rparr>)"
    using xs(1) nas(1) by simp
  from that [OF up this xs(2) nas(2)] show thesis .
qed

lemma commit_local:
  assumes loc: "stage_local g as dv c" and kind: "g (commit_kind inp) = commit_gate inp"
    and mode: "in_Mode inp = ''plan'' \<and> s_Status c = ''planning'' \<or> in_Mode inp = ''execute'' \<and> s_Status c = ''executing''"
    and nas: "if commit_gate inp then \<exists>na. nas = [na] \<and> a_Kind na = commit_kind inp \<and>
        a_RetryNo na = commit_retry c inp \<and> a_Status na = ''pending'' \<and>
        (a_Kind na, a_RetryNo na) \<notin> (\<lambda>a. (a_Kind a, a_RetryNo a)) ` set as else nas = []"
  shows "stage_local g (as @ nas) (dv \<or> in_Mode inp = ''execute'') (commit_stage c inp res)"
proof -
  consider (plan) "in_Mode inp = ''plan''" "s_Status c = ''planning''"
    | (execute) "in_Mode inp = ''execute''" "s_Status c = ''executing''" using mode by blast
  then show ?thesis
  proof cases
    case plan
    then show ?thesis
      using kind nas plan_request_local [OF loc plan(2)] plan_skip_local [OF loc plan(2)]
      by (cases "commit_gate inp") (auto simp: commit_stage_def commit_kind_def commit_retry_def Let_def)
  next
    case execute
    then show ?thesis
      using kind nas deliverable_request_local [OF loc execute(2)] deliverable_skip_local [OF loc execute(2)]
      by (cases "commit_gate inp") (auto simp: commit_stage_def commit_kind_def commit_retry_def Let_def)
  qed
qed

lemma approvals_of_append: "approvals_of (as @ bs) sid = approvals_of as sid @ approvals_of bs sid"
  by (simp add: approvals_of_def)

lemma commit_retry_count:
  "stage_local g as dv c \<Longrightarrow>
     (commit_stage c inp res)\<lparr>s_RetryCount := s_PlanRetryNo (commit_stage c inp res)
       + s_DeliverableRetryNo (commit_stage c inp res)\<rparr> = commit_stage c inp res"
  by (simp add: stage_local_def counters_ok_def commit_stage_def Let_def)

lemma commit_inv:
  assumes inv: "stage_inv (tx_db tx)" and claim: "claim_ok (tx_db tx) rid c inp"
    and ok: "commit_tx rid c inp res tx = Inr (u, tx')"
  shows "stage_inv (tx_db tx')"
proof -
  let ?d = "tx_db tx" and ?s = "commit_stage c inp res"
  have sh: "shape ?d" and dist: "distinct (map s_ID (db_stages ?d))" using inv by (auto simp: stage_inv_def shape_def)
  from claim have snap: "snapshot ?d c" and rid: "s_TaskID c = rid"
    and mode: "in_Mode inp = ''plan'' \<and> s_Status c = ''planning'' \<or> in_Mode inp = ''execute'' \<and> s_Status c = ''executing''"
    by (auto simp: claim_ok_def)
  from ok obtain tx1 xs nas where up: "UpdateStage ?s (s_Status c) tx = Inr ((), tx1)"
    and core: "core (tx_db tx') = core ((tx_db tx1)\<lparr>db_approvals := db_approvals ?d @ nas, db_deliverables := db_deliverables ?d @ xs\<rparr>)"
    and xs: "if in_Mode inp = ''execute'' then \<exists>x. xs = [x] \<and> d_StageID x = s_ID c else xs = []"
    and nas: "if commit_gate inp then \<exists>na. nas = [na] \<and> request_of ?d rid c inp na else nas = []"
    by (rule commit_tx_core)
  from UpdateStage_row [OF dist snap _ _ _ up] obtain r where r: "r \<in> set (db_stages ?d)"
    "StageEntity.truncate r = c" "stage_match ?s (s_Status c) r"
    and d1: "tx_db tx1 = ?d\<lparr>db_stages := update_where (stage_match ?s (s_Status c)) (stage_write ?s (e_now (tx_env tx))) (db_stages ?d)\<rparr>"
    by auto
  have rc: "s_ID r = s_ID c" "s_TaskID r = s_TaskID c" using r(2) by auto
  let ?dv = "has_deliverable (db_deliverables ?d) (s_ID c)" and ?as = "approvals_of (db_approvals ?d) (s_ID c)"
  have loc: "stage_local (gate ?d c) ?as ?dv c"
    using stage_inv_local [OF inv r(1)] by (simp flip: r(2))
  have nas_of: "approvals_of nas sid = (if sid = s_ID c then nas else [])" for sid
    using nas by (auto simp: approvals_of_def request_of_def split: if_splits)
  have "stage_local (gate ?d c) (?as @ nas) (?dv \<or> in_Mode inp = ''execute'') ?s"
    using nas by (intro commit_local [OF loc claim_gate [OF sh claim] mode])
      (auto simp: request_of_def approvals_of_def split: if_splits)
  moreover have "(?dv \<or> in_Mode inp = ''execute'') = has_deliverable (db_deliverables ?d @ xs) (s_ID c)"
    using xs by (auto simp: has_deliverable_def split: if_splits)
  ultimately have local: "stage_local (gate ?d r) (approvals_of (db_approvals ?d @ nas) (s_ID r))
      (has_deliverable (db_deliverables ?d @ xs) (s_ID r)) (stage_write ?s (e_now (tx_env tx)) r)"
    unfolding stage_local_write commit_retry_count [OF loc] by (simp add: approvals_of_append nas_of flip: r(2))
  have "stage_inv (?d\<lparr>db_stages := update_where (stage_match ?s (s_Status c)) (stage_write ?s (e_now (tx_env tx))) (db_stages ?d),
      db_approvals := db_approvals ?d @ nas, db_deliverables := db_deliverables ?d @ xs\<rparr>)"
  proof (rule local_step [where P = "stage_match ?s (s_Status c)" and f = "stage_write ?s (e_now (tx_env tx))",
        OF inv r(1,3) _ _ _ _ _ _ _ _ local])
    show "distinct (map a_ID (db_approvals ?d @ nas))"
      using sh nas by (auto simp: shape_def request_of_def image_iff split: if_splits)
    show "\<exists>s\<in>set (db_stages ?d). s_ID s = a_StageID a \<and> s_TaskID s = a_TaskID a" if "a \<in> set (db_approvals ?d @ nas)" for a
      using that sh nas r(1) rc rid by (auto simp: shape_def request_of_def split: if_splits)
    show "d_StageID x \<in> s_ID ` set (db_stages ?d)" if "x \<in> set (db_deliverables ?d @ xs)" for x
      using that sh xs imageI [OF r(1), of s_ID] rc(1) by (auto simp: shape_def split: if_splits)
    show "s_Status r \<noteq> ''approved''" "s_Status r = ''pending'' \<Longrightarrow> deps_approved (db_stages ?d) r"
      using mode r(3) by (auto simp: stage_match_def)
    show "s_ID q = s_ID r" if "stage_match ?s (s_Status c) q" for q by (rule match_only [OF that r(3)])
  qed (use rc in \<open>simp_all add: same_row_def approvals_of_append nas_of\<close>)
  then have "stage_inv ((tx_db tx1)\<lparr>db_approvals := db_approvals ?d @ nas, db_deliverables := db_deliverables ?d @ xs\<rparr>)"
    by (simp add: d1)
  then show ?thesis using core stage_inv_cong by blast
qed

section \<open>UpdateApproval\<close>

lemma UpdateApproval_parts:
  assumes "UpdateApproval_tx rid a decision fb ed user tx = Inr (v, tx')"
  obtains t tx1 old st tx2 where
    "GetTask (tx_db tx) (a_TaskID a) = Inr t" "\<not> Terminal (t_Status t)"
    "DecideApproval rid (decision_status decision) fb ed user (a_Version a) tx = Inr (1, tx1)"
    "FindStage (Reader_Stages (tx_db tx1) (t_ID t)) (a_StageID a) = Inr old"
    "Decide old (a_Kind a) decision fb ed (MaxRetries (pl_Policy (UnmarshalPipeline (t_Pipeline t) zero_Pipeline))) = Inr st"
    "UpdateStage st (s_Status old) tx1 = Inr ((), tx2)"
    "same_core (tx_db tx2) (tx_db tx')"
proof -
  let ?emit = "\<lambda>t st. Emit (t_ID t) (s_StageKey st) (s_Role st) ''approval.decided''
      (decided_payload rid a decision fb ed user)"
  from assms obtain t tx0 n tx1 old st tx2 u1 tx3 u2 tx4 u3 tx5 dd tx6 u4 tx7 where
    t: "LockTask (a_TaskID a) tx = Inr (t, tx0)" and n: "\<not> n \<noteq> 1" "\<not> Terminal (t_Status t)"
    and dec: "DecideApproval rid (decision_status decision) fb ed user (a_Version a) tx0 = Inr (n, tx1)"
    and old: "FindStage (Reader_Stages (tx_db tx1) (t_ID t)) (a_StageID a) = Inr old"
    and st: "Decide old (a_Kind a) decision fb ed (MaxRetries (pl_Policy (UnmarshalPipeline (t_Pipeline t) zero_Pipeline))) = Inr st"
    and up: "UpdateStage st (s_Status old) tx1 = Inr ((), tx2)" and em: "?emit t st tx2 = Inr (u1, tx3)"
    and ev: "decide_events t st a tx3 = Inr (u2, tx4)" and der: "decide_derive t tx4 = Inr (u3, tx5)"
    and fin: "readT (\<lambda>db. Reader_Approval db rid) tx5 = Inr (dd, tx6)"
      "AfterCommit (WakeTask (t_ID t)) tx6 = Inr (u4, tx7)" "tx' = tx7"
    unfolding UpdateApproval_tx_def Let_def
    by (elim bindT_InrE guard_InrE) (rule that, auto simp: readT_Inr liftT_Inr)
  have "tx0 = tx" "GetTask (tx_db tx) (a_TaskID a) = Inr t" using t by (auto simp: LockTask_Inr)
  moreover have "same_core (tx_db tx2) (tx_db tx')"
    using obeysD [OF same_core_queries(1) em] obeysD [OF same_core_transactions(2) ev]
      obeysD [OF same_core_transactions(1)] der fin
    by (auto simp: decide_derive_eq same_core_def readT_Inr)
  ultimately show thesis using that n dec old st up by auto
qed

lemma approvals_of_update:
  assumes "\<And>a. a_StageID (f a) = a_StageID a"
  shows "approvals_of (update_where P f as) sid = update_where P f (approvals_of as sid)"
  by (induction as) (auto simp: approvals_of_def assms)

lemma approvals_of_untouched:
  assumes "\<And>a. a \<in> set as \<Longrightarrow> P a \<Longrightarrow> a_StageID a \<noteq> sid" "\<And>a. a_StageID (f a) = a_StageID a"
  shows "approvals_of (update_where P f as) sid = approvals_of as sid"
  unfolding approvals_of_update [OF assms(2)]
  by (rule update_where_none) (use assms(1) in \<open>auto simp: approvals_of_def\<close>)

lemma decide_local:
  assumes "stage_local g as dv s" "Decide s (a_Kind a) decision fb ed m = Inr s'"
    and "a \<in> set as" "a_Status a = ''pending''" "P a" "\<And>b. b \<in> set as \<Longrightarrow> P b \<Longrightarrow> b = a"
  shows "stage_local g (update_where P (decision_write (decision_status decision) fb ed user now) as) dv
     (s'\<lparr>s_RetryCount := s_PlanRetryNo s' + s_DeliverableRetryNo s'\<rparr>)"
proof -
  have "a_Kind a = ''plan'' \<or> a_Kind a = ''deliverable''" using assms(1,3) by (auto simp: stage_local_def)
  then show ?thesis
  proof
    assume k: "a_Kind a = ''plan''"
    show ?thesis by (rule decide_plan_local [where P = P, OF assms(1) assms(2) [unfolded k] assms(3) k assms(4-6)])
  next
    assume k: "a_Kind a = ''deliverable''"
    show ?thesis by (rule decide_deliverable_local [where P = P, OF assms(1) assms(2) [unfolded k] assms(3) k assms(4-6)])
  qed
qed

text \<open>The pending approval a decision that succeeds was made on is the one that was read.\<close>

lemma decided_row:
  assumes dist: "distinct (map a_ID (db_approvals d))" and seen: "b \<in> set (db_approvals d)" "approval_later a b"
    and n: "length (filter (\<lambda>x. a_ID x = a_ID a \<and> a_Status x = ''pending'' \<and> a_Version x = a_Version a) (db_approvals d)) = 1"
  shows "a \<in> set (db_approvals d)" "a_Status a = ''pending''"
proof -
  from n obtain x where "filter (\<lambda>x. a_ID x = a_ID a \<and> a_Status x = ''pending'' \<and> a_Version x = a_Version a) (db_approvals d) = [x]"
    by (auto simp: length_Suc_conv)
  then have "x \<in> set (filter (\<lambda>x. a_ID x = a_ID a \<and> a_Status x = ''pending'' \<and> a_Version x = a_Version a) (db_approvals d))"
    by simp
  then have x: "x \<in> set (db_approvals d)" "a_ID x = a_ID a" "a_Status x = ''pending''" "a_Version x = a_Version a"
    by simp_all
  have "x = b" using distinct_map_eqD [OF dist x(1) seen(1)] x(2) seen(2) by (simp add: approval_later_def)
  with seen(2) x have "a = x" by (simp add: approval_later_def)
  with x show "a \<in> set (db_approvals d)" "a_Status a = ''pending''" by auto
qed

lemma db_commute: "d\<lparr>db_approvals := A, db_stages := S\<rparr> = d\<lparr>db_stages := S, db_approvals := A\<rparr>" for d :: db
  by (cases d) simp

lemma decide_inv:
  assumes inv: "stage_inv (tx_db tx)" and seen: "b \<in> set (db_approvals (tx_db tx))" "approval_later a b"
    and ok: "UpdateApproval_tx (a_ID a) a decision fb ed user tx = Inr (v, tx')"
  shows "stage_inv (tx_db tx')"
proof -
  let ?d = "tx_db tx"
  let ?P = "\<lambda>x. a_ID x = a_ID a \<and> a_Status x = ''pending'' \<and> a_Version x = a_Version a"
  let ?f = "decision_write (decision_status decision) fb ed user (e_now (tx_env tx))"
  let ?m = "\<lambda>t. MaxRetries (pl_Policy (UnmarshalPipeline (t_Pipeline t) zero_Pipeline))"
  from ok obtain t tx1 old st tx2 where
    "GetTask ?d (a_TaskID a) = Inr t" and dec: "DecideApproval (a_ID a) (decision_status decision) fb ed user (a_Version a) tx = Inr (1, tx1)"
    and old: "FindStage (Reader_Stages (tx_db tx1) (t_ID t)) (a_StageID a) = Inr old"
    and st: "Decide old (a_Kind a) decision fb ed (?m t) = Inr st"
    and up: "UpdateStage st (s_Status old) tx1 = Inr ((), tx2)"
    and core: "same_core (tx_db tx2) (tx_db tx')" by (rule UpdateApproval_parts)
  have sh: "shape ?d" and dist: "distinct (map s_ID (db_stages ?d))" "distinct (map a_ID (db_approvals ?d))"
    using inv by (auto simp: stage_inv_def shape_def)
  from dec have n: "length (filter ?P (db_approvals ?d)) = 1"
    and d1: "tx_db tx1 = ?d\<lparr>db_approvals := update_where ?P ?f (db_approvals ?d)\<rparr>" and e: "tx_env tx1 = tx_env tx"
    by (auto simp: DecideApproval_Inr Let_def)
  note a = decided_row [OF dist(2) seen n]
  have onlya: "b = a" if "b \<in> set (db_approvals ?d)" "?P b" for b
    using distinct_map_eqD [OF dist(2) that(1) a(1)] that(2) by simp
  from FindStage_Inr [OF old] have o: "s_ID old = a_StageID a" "snapshot (tx_db tx1) old"
    using snapshot_read by blast+
  from UpdateStage_row [OF _ o(2) Decide_frame(1,6,7) [OF st] up] dist(1) obtain r where
    r: "r \<in> set (db_stages ?d)" "StageEntity.truncate r = old" "stage_match st (s_Status old) r"
    and d2: "tx_db tx2 = (tx_db tx1)\<lparr>db_stages := update_where (stage_match st (s_Status old))
       (stage_write st (e_now (tx_env tx))) (db_stages ?d)\<rparr>" by (auto simp: d1 e)
  have ro: "s_ID r = a_StageID a" "s_Status r = s_Status old" using o(1) by (simp_all flip: r(2))
  have "stage_local (gate ?d r) (update_where ?P ?f (approvals_of (db_approvals ?d) (s_ID r)))
      (has_deliverable (db_deliverables ?d) (s_ID r)) (stage_write st (e_now (tx_env tx)) r)"
    unfolding stage_local_write
    using stage_inv_local [OF inv r(1)] a ro(1) onlya
    by (intro decide_local [OF _ st]) (auto simp: approvals_of_def simp flip: r(2))
  then have local: "stage_local (gate ?d r) (approvals_of (update_where ?P ?f (db_approvals ?d)) (s_ID r))
      (has_deliverable (db_deliverables ?d) (s_ID r)) (stage_write st (e_now (tx_env tx)) r)"
    by (simp add: approvals_of_update)
  have rev: "s_Status r = a_Kind a @ ''_review''" using Decide_pre(1) [OF st] ro(2) by simp
  have "stage_inv (?d\<lparr>db_stages := update_where (stage_match st (s_Status old)) (stage_write st (e_now (tx_env tx))) (db_stages ?d),
      db_approvals := update_where ?P ?f (db_approvals ?d), db_deliverables := db_deliverables ?d\<rparr>)"
  proof (rule local_step [where P = "stage_match st (s_Status old)" and f = "stage_write st (e_now (tx_env tx))",
        OF inv r(1,3) _ _ _ _ _ _ _ _ local])
    show "distinct (map a_ID (update_where ?P ?f (db_approvals ?d)))" using dist(2) by (simp add: map_update_where)
    show "\<exists>s\<in>set (db_stages ?d). s_ID s = a_StageID x \<and> s_TaskID s = a_TaskID x"
      if "x \<in> set (update_where ?P ?f (db_approvals ?d))" for x
      using that sh by (auto simp: shape_def set_update_where)
    show "approvals_of (update_where ?P ?f (db_approvals ?d)) sid = approvals_of (db_approvals ?d) sid" if "sid \<noteq> s_ID r" for sid
      using that onlya ro(1) by (intro approvals_of_untouched) auto
    show "s_Status r \<noteq> ''approved''" "s_Status r = ''pending'' \<Longrightarrow> deps_approved (db_stages ?d) r"
      using rev arg_cong [where f = last] by fastforce+
    show "s_ID q = s_ID r" if "stage_match st (s_Status old) q" for q by (rule match_only [OF that r(3)])
    show "d_StageID x \<in> s_ID ` set (db_stages ?d)" if "x \<in> set (db_deliverables ?d)" for x
      using sh that by (simp add: shape_def)
  qed (simp_all add: same_row_def)
  then have "stage_inv (tx_db tx2)" unfolding d1 d2 db_commute by simp
  then show ?thesis by (rule same_core_inv [OF core])
qed

section \<open>CreateTask\<close>

lemma ParsePipeline_good:
  assumes "ParsePipeline unmarshal data = Inr p"
  shows "good_pipeline p"
proof -
  from assms obtain q where q: "valid_pipeline q" "p = q\<lparr>pl_Stages := map default_stage (pl_Stages q)\<rparr>"
    by (auto simp: ParsePipeline_Inr)
  have "deps_closed (pl_Stages q)"
    using q(1) by (auto simp: valid_pipeline_def valid_stage_def deps_closed_def)
  then show ?thesis
    using q by (auto simp: good_pipeline_def valid_pipeline_def valid_policy_def deps_closed_def comp_def)
qed

definition create_stage :: "string \<Rightarrow> StageSpec \<Rightarrow> unit txm" where
  "create_stage rid st = bindT NewString (\<lambda>sid. CreateStage sid rid (sp_ID st) (sp_Agent st) (sp_DependsOn st))"

text \<open>What creating the stages of a task adds.\<close>

definition stages_added :: "string \<Rightarrow> StageSpec list \<Rightarrow> Stage list \<Rightarrow> Stage list \<Rightarrow> bool" where
  "stages_added rid sps rows news \<longleftrightarrow>
     (distinct (map s_ID rows) \<longrightarrow> distinct (map s_ID (rows @ news))) \<and>
     (distinct (map (\<lambda>s. (s_TaskID s, s_StageKey s)) rows) \<longrightarrow>
        distinct (map (\<lambda>s. (s_TaskID s, s_StageKey s)) (rows @ news))) \<and>
     (\<forall>s\<in>set news. \<exists>i sp. i \<notin> s_ID ` set rows \<and> sp \<in> set sps \<and>
        s = new_stage i rid (sp_ID sp) (sp_Agent sp) (elems (sp_DependsOn sp))) \<and>
     (\<forall>sp\<in>set sps. \<exists>s\<in>set news. s_TaskID s = rid \<and> s_StageKey s = sp_ID sp)"

lemma stages_addedD:
  assumes "stages_added rid sps rows news"
  shows "distinct (map s_ID rows) \<Longrightarrow> distinct (map s_ID (rows @ news))"
    "distinct (map (\<lambda>s. (s_TaskID s, s_StageKey s)) rows) \<Longrightarrow>
       distinct (map (\<lambda>s. (s_TaskID s, s_StageKey s)) (rows @ news))"
    "s \<in> set news \<Longrightarrow> \<exists>i sp. i \<notin> s_ID ` set rows \<and> sp \<in> set sps \<and>
       s = new_stage i rid (sp_ID sp) (sp_Agent sp) (elems (sp_DependsOn sp))"
    "sp \<in> set sps \<Longrightarrow> \<exists>s\<in>set news. s_TaskID s = rid \<and> s_StageKey s = sp_ID sp"
  using assms unfolding stages_added_def by blast+

lemma new_stage_simps [simp]:
  "s_ID (new_stage i t k r ds) = i" "s_TaskID (new_stage i t k r ds) = t" "s_StageKey (new_stage i t k r ds) = k"
  "s_Role (new_stage i t k r ds) = r" "s_DependsOn (new_stage i t k r ds) = ds"
  "s_Status (new_stage i t k r ds) = ''pending''"
  by (simp_all add: new_stage_def)

lemma stages_added_Cons:
  assumes "i \<notin> s_ID ` set rows" "(rid, sp_ID sp) \<notin> (\<lambda>s. (s_TaskID s, s_StageKey s)) ` set rows"
    and n: "n = new_stage i rid (sp_ID sp) (sp_Agent sp) (elems (sp_DependsOn sp))"
    and add: "stages_added rid sps (rows @ [n]) news"
  shows "stages_added rid (sp # sps) rows (n # news)"
  unfolding stages_added_def
proof (intro conjI impI ballI)
  show "distinct (map s_ID (rows @ n # news))" if "distinct (map s_ID rows)"
    using stages_addedD(1) [OF add] that assms(1) by (simp add: n)
  show "distinct (map (\<lambda>s. (s_TaskID s, s_StageKey s)) (rows @ n # news))"
    if "distinct (map (\<lambda>s. (s_TaskID s, s_StageKey s)) rows)"
    using stages_addedD(2) [OF add] that assms(2) by (simp add: n)
  show "\<exists>i sp'. i \<notin> s_ID ` set rows \<and> sp' \<in> set (sp # sps) \<and>
      s = new_stage i rid (sp_ID sp') (sp_Agent sp') (elems (sp_DependsOn sp'))" if "s \<in> set (n # news)" for s
  proof (cases "s = n")
    case True
    then show ?thesis using assms(1) n by auto
  next
    case False
    with that have "s \<in> set news" by simp
    from stages_addedD(3) [OF add this] show ?thesis by auto
  qed
  show "\<exists>s\<in>set (n # news). s_TaskID s = rid \<and> s_StageKey s = sp_ID x" if "x \<in> set (sp # sps)" for x
    using that stages_addedD(4) [OF add, of x] by (auto simp: n)
qed

lemma create_stages_Inr:
  "eachT (create_stage rid) sps tx = Inr (u, tx') \<Longrightarrow>
     \<exists>news. tx_db tx' = (tx_db tx)\<lparr>db_stages := db_stages (tx_db tx) @ news\<rparr> \<and>
       stages_added rid sps (db_stages (tx_db tx)) news"
proof (induction sps arbitrary: tx)
  case Nil
  then show ?case by (intro exI [of _ "[]"]) (simp add: stages_added_def)
next
  case (Cons sp sps)
  from Cons.prems obtain tx1 where one: "create_stage rid sp tx = Inr ((), tx1)"
    and rest: "eachT (create_stage rid) sps tx1 = Inr (u, tx')" by (auto simp: bindT_Inr)
  define i where "i = e_uuid (tx_env tx) (tx_n tx)"
  define n where "n = new_stage i rid (sp_ID sp) (sp_Agent sp) (elems (sp_DependsOn sp))"
  have fresh: "i \<notin> s_ID ` set (db_stages (tx_db tx))"
    "(rid, sp_ID sp) \<notin> (\<lambda>s. (s_TaskID s, s_StageKey s)) ` set (db_stages (tx_db tx))"
    and d1: "tx_db tx1 = (tx_db tx)\<lparr>db_stages := db_stages (tx_db tx) @ [n]\<rparr>"
    using one by (auto simp: create_stage_def bindT_Inr CreateStage_Inr n_def i_def)
  from Cons.IH [OF rest] obtain news where "tx_db tx' = (tx_db tx1)\<lparr>db_stages := db_stages (tx_db tx1) @ news\<rparr>"
    and "stages_added rid sps (db_stages (tx_db tx1)) news" by blast
  with stages_added_Cons [OF fresh n_def] d1 show ?case by (intro exI [of _ "n # news"]) simp
qed

lemma CreateTask_parts:
  assumes "CreateTask_tx rid r user dir pl budget tx = Inr (u, tx')"
  obtains t news where "t_ID t = rid" "t_Pipeline t = Some pl" "t_Status t = ''queued''" "t_EventSeq t = 0"
    "rid \<notin> t_ID ` set (db_tasks (tx_db tx))" "0 < budget"
    "tx_db tx' = (tx_db tx)\<lparr>db_tasks := db_tasks (tx_db tx) @ [t], db_stages := db_stages (tx_db tx) @ news\<rparr>"
    "stages_added rid (pl_Stages pl) (db_stages (tx_db tx)) news"
proof -
  from assms obtain u1 tx1 u2 tx2 where
    ct: "CreateTask rid (ct_ProjectID r) (TrimSpace (ct_Command r)) user pl dir budget tx = Inr (u1, tx1)"
    and st: "eachT (create_stage rid) (pl_Stages pl) tx1 = Inr (u2, tx2)" and fin: "tx_db tx' = tx_db tx2"
    unfolding CreateTask_tx_def create_stage_def [symmetric]
    by (elim bindT_InrE) (rule that, assumption, assumption, auto)
  from create_stages_Inr [OF st] obtain news where
    "tx_db tx2 = (tx_db tx1)\<lparr>db_stages := db_stages (tx_db tx1) @ news\<rparr>"
    "stages_added rid (pl_Stages pl) (db_stages (tx_db tx1)) news" by blast
  then show thesis
    using ct fin
    by (intro that [of "new_task rid (ct_ProjectID r) (TrimSpace (ct_Command r)) user pl dir budget (e_now (tx_env tx))" news])
      (auto simp: CreateTask_Inr new_task_def)
qed

lemma new_stage_local: "stage_local g [] dv (new_stage i t k r ds)"
  by (simp add: stage_local_def counters_ok_def side_ok_def past_plan_def stage_statuses_def new_stage_def)

lemma create_shape:
  assumes sh: "shape d" and good: "good_pipeline pl"
    and t: "t_ID t = rid" "t_Pipeline t = Some pl" "rid \<notin> t_ID ` set (db_tasks d)"
    and d': "d' = d\<lparr>db_tasks := db_tasks d @ [t], db_stages := db_stages d @ news\<rparr>"
    and add: "stages_added rid (pl_Stages pl) (db_stages d) news"
  shows "shape d'" and "s \<in> set (db_stages d) \<Longrightarrow> gate d' s = gate d s"
proof -
  have old: "has_spec d' s sp = has_spec d s sp" if s: "s \<in> set (db_stages d)" for s sp
  proof -
    obtain x where "x \<in> set (db_tasks d)" "t_ID x = s_TaskID s"
      using sh s unfolding shape_def has_spec_def by blast
    then have "s_TaskID s \<noteq> rid" using t(3) by (metis imageI)
    then show ?thesis using t by (auto simp: d' has_spec_def)
  qed
  then show "s \<in> set (db_stages d) \<Longrightarrow> gate d' s = gate d s" by (auto simp: gate_def)
  show "shape d'"
    unfolding shape_def
  proof (intro conjI ballI)
    show "distinct (map s_ID (db_stages d'))" "distinct (map (\<lambda>s. (s_TaskID s, s_StageKey s)) (db_stages d'))"
      using stages_addedD(1,2) [OF add] sh by (simp_all add: d' shape_def)
    show "task_shape d' x" if "x \<in> set (db_tasks d')" for x
    proof (cases "x = t")
      case True
      have "\<exists>s\<in>set (db_stages d'). s_TaskID s = rid \<and> s_StageKey s = sp_ID sp" if "sp \<in> set (pl_Stages pl)" for sp
        using stages_addedD(4) [OF add that] by (auto simp: d')
      with True t(1,2) good show ?thesis by (auto simp: task_shape_def)
    next
      case False
      then have "task_shape d x" using that sh by (simp add: d' shape_def)
      then show ?thesis by (fastforce simp: task_shape_def d')
    qed
    show "\<exists>sp. has_spec d' s sp \<and> s_Role s = sp_Agent sp \<and> s_DependsOn s = elems (sp_DependsOn sp)"
      if "s \<in> set (db_stages d')" for s
    proof (cases "s \<in> set (db_stages d)")
      case True
      then show ?thesis using sh old by (simp add: shape_def)
    next
      case False
      with that have "s \<in> set news" by (simp add: d')
      from stages_addedD(3) [OF add this] obtain i sp where "sp \<in> set (pl_Stages pl)"
        "s = new_stage i rid (sp_ID sp) (sp_Agent sp) (elems (sp_DependsOn sp))" by blast
      with t show ?thesis by (auto simp: has_spec_def d' intro!: exI [of _ sp])
    qed
    show "\<exists>s\<in>set (db_stages d'). s_ID s = a_StageID a \<and> s_TaskID s = a_TaskID a" if "a \<in> set (db_approvals d')" for a
      using sh that by (auto simp: shape_def d')
  qed (use sh t in \<open>auto simp: shape_def d'\<close>)
qed

lemma create_inv:
  assumes inv: "stage_inv (tx_db tx)" and good: "good_pipeline pl"
    and ok: "CreateTask_tx rid r user dir pl budget tx = Inr (u, tx')"
  shows "stage_inv (tx_db tx')"
proof -
  let ?d = "tx_db tx" and ?d' = "tx_db tx'"
  from ok obtain t news where t: "t_ID t = rid" "t_Pipeline t = Some pl" "t_Status t = ''queued''" "t_EventSeq t = 0"
    "rid \<notin> t_ID ` set (db_tasks ?d)"
    and d': "?d' = ?d\<lparr>db_tasks := db_tasks ?d @ [t], db_stages := db_stages ?d @ news\<rparr>"
    and add: "stages_added rid (pl_Stages pl) (db_stages ?d) news"
    by (rule CreateTask_parts)
  have sh: "shape ?d" using inv by (simp add: stage_inv_def)
  note new = create_shape [OF sh good t(1,2,5) d' add]
  have "stage_local (gate ?d' s) (approvals_of (db_approvals ?d') (s_ID s)) (has_deliverable (db_deliverables ?d') (s_ID s)) s \<and>
      (s_Status s \<noteq> ''pending'' \<longrightarrow> deps_approved (db_stages ?d') s)" if s: "s \<in> set (db_stages ?d')" for s
  proof (cases "s \<in> set (db_stages ?d)")
    case True
    have "deps_approved (db_stages ?d) s \<Longrightarrow> deps_approved (db_stages ?d') s"
      by (auto simp: deps_approved_def d')
    moreover have "db_approvals ?d' = db_approvals ?d" "db_deliverables ?d' = db_deliverables ?d" by (simp_all add: d')
    ultimately show ?thesis using inv True unfolding stage_inv_def new(2) [OF True] by metis
  next
    case False
    with s have "s \<in> set news" by (simp add: d')
    from stages_addedD(3) [OF add this] obtain i sp where out: "i \<notin> s_ID ` set (db_stages ?d)"
      and sp: "s = new_stage i rid (sp_ID (sp :: StageSpec)) (sp_Agent sp) (elems (sp_DependsOn sp))" by blast
    have "a_StageID a \<noteq> i" if "a \<in> set (db_approvals ?d)" for a
      using sh that out unfolding shape_def by (metis imageI)
    then have "approvals_of (db_approvals ?d') (s_ID s) = []"
      by (simp add: approvals_of_def filter_empty_conv d' sp)
    moreover have "stage_local (gate ?d' s) [] (has_deliverable (db_deliverables ?d') (s_ID s)) s"
      unfolding sp by (rule new_stage_local)
    moreover have "s_Status s = ''pending''" by (simp add: sp)
    ultimately show ?thesis by simp
  qed
  with new(1) show ?thesis by (simp add: stage_inv_def)
qed

lemma create_status:
  assumes ok0: "status_ok (tx_db tx)" and ok: "CreateTask_tx rid r user dir pl budget tx = Inr (u, tx')"
  shows "status_ok (tx_db tx')"
proof -
  let ?d = "tx_db tx" and ?d' = "tx_db tx'"
  from ok obtain t news where t: "t_ID t = rid" "t_Pipeline t = Some pl" "t_Status t = ''queued''" "t_EventSeq t = 0"
    "rid \<notin> t_ID ` set (db_tasks ?d)"
    and d': "?d' = ?d\<lparr>db_tasks := db_tasks ?d @ [t], db_stages := db_stages ?d @ news\<rparr>"
    and add: "stages_added rid (pl_Stages pl) (db_stages ?d) news"
    by (rule CreateTask_parts)
  have new: "s_TaskID s = rid" if "s \<in> set news" for s using stages_addedD(3) [OF add that] by auto
  have "all_approved ?d' (t_ID x)" if x: "x \<in> set (db_tasks ?d)" "all_approved ?d (t_ID x)" for x
  proof -
    have "t_ID x \<noteq> rid" using t(5) x(1) by auto
    then show ?thesis using x(2) new by (auto simp: all_approved_def d')
  qed
  then show ?thesis using ok0 t(3) by (auto simp: status_ok_alt d' task_statuses_def)
qed

end
