(* ===== verification/System.thy ===== *)
theory System
  imports Commit_Steps
begin

text \<open>
  The running system: HTTP handlers, orchestrator goroutines and crashes interleave in any order,
  one transaction at a time. The state holds the committed database, every database committed
  before (what a plain read outside a transaction may have returned to a handler that is still
  running) and the claims of the stage runs in progress. Shown: the invariants of the tables hold
  in every reachable state.
\<close>

section \<open>States and steps\<close>

record sys =
  y_db :: db
  y_seen :: "db list"
  y_claims :: "(string \<times> StageEntity \<times> Input) list"

definition set_db :: "db \<Rightarrow> sys \<Rightarrow> sys" where
  "set_db d s = s\<lparr>y_db := d, y_seen := d # y_seen s\<rparr>"

definition start_sys :: sys where
  "start_sys = \<lparr>y_db = empty_db, y_seen = [empty_db], y_claims = []\<rparr>"

text \<open>The loader of the task service is \<open>agentdef.LoadDefinition\<close> on some directory tree.\<close>

definition real_loader :: "services \<Rightarrow> bool" where
  "real_loader x \<longleftrightarrow> (\<forall>dir cp d. x_LoadDefinition x dir cp = Inr d \<longrightarrow>
     (\<exists>um fm V opened. LoadDefinition um fm V opened dir cp = Inr d))"

inductive step :: "sys \<Rightarrow> sys \<Rightarrow> bool" where
  create_project:
    "ProjectService_Create env (y_db s) rid r = (res, d, hs) \<Longrightarrow> step s (set_db d s)"
| create_task:
    "real_loader x \<Longrightarrow> d0 \<in> set (y_seen s) \<Longrightarrow>
     step s (set_db (cr_db (TaskService_Create x env d0 (y_db s) rid r user)) s)"
| update_task:
    "UpdateTask env (y_db s) rid action = (res, d, hs) \<Longrightarrow> step s (set_db d s)"
| set_budget:
    "SetBudget env (y_db s) rid budget = (res, d, hs) \<Longrightarrow> step s (set_db d s)"
| update_approval:
    "d0 \<in> set (y_seen s) \<Longrightarrow> UpdateApproval env d0 (y_db s) rid r user = (res, d, hs) \<Longrightarrow> step s (set_db d s)"
| budget_check:
    "d0 \<in> set (y_seen s) \<Longrightarrow> Budget_Check env d0 (y_db s) rid = (res, d, hs) \<Longrightarrow> step s (set_db d s)"
| start:
    "WithTx env (start_tx rid df) (y_db s) = (res, d, hs) \<Longrightarrow> step s (set_db d s)"
| claim:
    "d0 \<in> set (y_seen s) \<Longrightarrow> GetTask d0 rid = Inr t \<Longrightarrow> st \<in> set (Reader_Stages d0 rid) \<Longrightarrow>
     stage_mode st (Reader_Stages d0 rid) = mode \<Longrightarrow> mode \<noteq> [] \<Longrightarrow>
     WithTx env (claim_tx rid st mode) (y_db s) = (Inr c, d, hs) \<Longrightarrow>
     claim_input t (pipeline_snapshot t df) (Reader_Stages d0 rid) st mode c = Some inp \<Longrightarrow>
     step s (set_db d (s\<lparr>y_claims := (rid, c, inp) # y_claims s\<rparr>))"
| claim_lost:
    "d0 \<in> set (y_seen s) \<Longrightarrow> st \<in> set (Reader_Stages d0 rid) \<Longrightarrow>
     stage_mode st (Reader_Stages d0 rid) = mode \<Longrightarrow> mode \<noteq> [] \<Longrightarrow>
     WithTx env (claim_tx rid st mode) (y_db s) = (res, d, hs) \<Longrightarrow> step s (set_db d s)"
| progress:
    "(rid, c, inp) \<in> set (y_claims s) \<Longrightarrow> WithTx env (progress_tx rid c kind payload) (y_db s) = (res, d, hs) \<Longrightarrow>
     step s (set_db d s)"
| commit:
    "(rid, c, inp) \<in> set (y_claims s) \<Longrightarrow> WithTx env (commit_tx rid c inp result) (y_db s) = (res, d, hs) \<Longrightarrow>
     step s (set_db d s)"
| block:
    "(rid, c, inp) \<in> set (y_claims s) \<Longrightarrow> in_Mode inp = ''execute'' \<Longrightarrow>
     WithTx env (block_tx rid c e) (y_db s) = (res, d, hs) \<Longrightarrow> step s (set_db d s)"
| fail:
    "WithTx env (fail_tx rid sid att e) (y_db s) = (res, d, hs) \<Longrightarrow> step s (set_db d s)"
| derive:
    "WithTx env (derive_tx rid) (y_db s) = (res, d, hs) \<Longrightarrow> step s (set_db d s)"
| forget:
    "set cs \<subseteq> set (y_claims s) \<Longrightarrow> step s (s\<lparr>y_claims := cs\<rparr>)"

section \<open>The invariant\<close>

definition db_inv :: "db \<Rightarrow> bool" where
  "db_inv d \<longleftrightarrow> stage_inv d \<and> status_ok d \<and> event_log d"

definition sys_inv :: "sys \<Rightarrow> bool" where
  "sys_inv s \<longleftrightarrow> db_inv (y_db s) \<and> (\<forall>d0\<in>set (y_seen s). later d0 (y_db s)) \<and>
     (\<forall>(rid, c, inp)\<in>set (y_claims s). claim_ok (y_db s) rid c inp)"

lemma has_spec_later: "has_spec d c sp \<Longrightarrow> later d d' \<Longrightarrow> has_spec d' c sp"
proof -
  assume "has_spec d c sp" "later d d'"
  then obtain t p u where t: "t \<in> set (db_tasks d)" "t_ID t = s_TaskID c" "t_Pipeline t = Some p"
      "sp \<in> set (pl_Stages p)" "sp_ID sp = s_StageKey c" and u: "u \<in> set (db_tasks d')" "task_later t u"
    unfolding has_spec_def later_def by meson
  have "t_ID u = t_ID t" "t_Pipeline u = t_Pipeline t"
    using u(2) unfolding task_later_def by (metis task_static_simps(1), metis task_static_simps(2))
  with t u(1) show "has_spec d' c sp" by (auto simp: has_spec_def)
qed

lemma claim_ok_later: "claim_ok d rid c inp \<Longrightarrow> later d d' \<Longrightarrow> claim_ok d' rid c inp"
  by (auto simp: claim_ok_def intro: snapshot_later has_spec_later)

text \<open>A step to a later database that keeps the invariants of the tables.\<close>

lemma sys_inv_step:
  assumes "sys_inv s" "later (y_db s) d" "db_inv d"
  shows "sys_inv (set_db d s)"
  using assms claim_ok_later lt.R_refl lt.R_trans
  by (fastforce simp: sys_inv_def set_db_def)

text \<open>What has to be shown of a transaction.\<close>

definition keeps :: "'a txm \<Rightarrow> db \<Rightarrow> bool" where
  "keeps m d \<longleftrightarrow> (\<forall>tx v tx'. tx_db tx = d \<longrightarrow> m tx = Inr (v, tx') \<longrightarrow> db_inv d \<longrightarrow> db_inv (tx_db tx'))"

lemma keepsD: "keeps m d \<Longrightarrow> tx_db tx = d \<Longrightarrow> m tx = Inr (v, tx') \<Longrightarrow> db_inv d \<Longrightarrow> db_inv (tx_db tx')"
  unfolding keeps_def by blast

lemma keepsI:
  assumes "obeys log_kept m" "obeys status_kept m"
    and "\<And>tx v tx'. tx_db tx = d \<Longrightarrow> m tx = Inr (v, tx') \<Longrightarrow> stage_inv d \<Longrightarrow> stage_inv (tx_db tx')"
  shows "keeps m d"
  unfolding keeps_def
proof (intro allI impI)
  fix tx v tx' assume tx: "tx_db tx = d" and m: "m tx = Inr (v, tx')" and inv: "db_inv d"
  have "log_kept d (tx_db tx')" "status_kept d (tx_db tx')"
    using obeysD [OF assms(1) m] obeysD [OF assms(2) m] tx by auto
  with inv assms(3) [OF tx m] show "db_inv (tx_db tx')" by (simp add: db_inv_def log_kept_def status_kept_def)
qed

lemma keeps_core:
  "obeys log_kept m \<Longrightarrow> obeys status_kept m \<Longrightarrow> obeys same_core m \<Longrightarrow> keeps m d"
  by (rule keepsI) (auto dest: obeysD intro: same_core_inv)

lemma WithTx_keeps:
  assumes "WithTx env m d = (r, d', hs)" "obeys later m" "keeps m d" "db_inv d"
  shows "later d d' \<and> db_inv d'"
  using assms(1)
proof (cases rule: WithTx_cases)
  case (rolled_back e)
  then show ?thesis using assms(4) lt.R_refl by simp
next
  case (committed v tx)
  have "later d (tx_db tx)" using obeysD [OF assms(2) committed(1)] by simp
  moreover have "db_inv (tx_db tx)" by (rule keepsD [OF assms(3) _ committed(1) assms(4)]) simp
  ultimately show ?thesis using committed(2) by simp
qed

lemma later_stage: "later d0 d \<Longrightarrow> st \<in> set (Reader_Stages d0 rid) \<Longrightarrow> snapshot d st \<and> s_TaskID st = rid"
  using snapshot_read snapshot_later by blast

lemma stage_mode_cases:
  assumes "stage_mode st ss = mode" "mode \<noteq> []"
  shows "mode = ''plan'' \<and> s_Status st \<in> {''pending'', ''planning''} \<or> mode = ''execute'' \<and> s_Status st = ''executing''"
  using assms by (auto simp: stage_mode_def split: if_splits)

lemma claim_keeps:
  assumes "later d0 d" "st \<in> set (Reader_Stages d0 rid)" "stage_mode st (Reader_Stages d0 rid) = mode" "mode \<noteq> []"
  shows "keeps (claim_tx rid st mode) d"
proof (rule keepsI)
  have "s_Status st \<noteq> ''approved''" using stage_mode_cases [OF assms(3,4)] by auto
  then show "obeys status_kept (claim_tx rid st mode)" by (rule all_status_transactions)
  fix tx v tx' assume "tx_db tx = d" "claim_tx rid st mode tx = Inr (v, tx')" "stage_inv d"
  then show "stage_inv (tx_db tx')"
    using claim_inv later_stage [OF assms(1,2)] assms(3,4) by blast
qed (rule log_transactions)

lemma commit_keeps: "claim_ok d rid c inp \<Longrightarrow> keeps (commit_tx rid c inp res) d"
  by (rule keepsI) (auto intro: commit_inv log_transactions all_status_transactions simp: claim_ok_def)

lemma block_keeps: "claim_ok d rid c inp \<Longrightarrow> in_Mode inp = ''execute'' \<Longrightarrow> keeps (block_tx rid c e) d"
  by (rule keepsI) (auto intro: block_inv log_transactions all_status_transactions simp: claim_ok_def)

lemma decide_keeps:
  assumes "later d0 d" "Reader_Approval d0 rid = Inr a"
  shows "keeps (UpdateApproval_tx rid a dec fb ed user) d"
proof (rule keepsI)
  have a: "a \<in> set (db_approvals d0)" "a_ID a = rid"
    using assms(2) first_row_Inr by (fastforce simp: Reader_Approval_def GetApproval_def)+
  then obtain b where b: "b \<in> set (db_approvals d)" "approval_later a b" using assms(1) by (auto simp: later_def)
  fix tx v tx' assume "tx_db tx = d" "UpdateApproval_tx rid a dec fb ed user tx = Inr (v, tx')" "stage_inv d"
  then show "stage_inv (tx_db tx')" using decide_inv [of tx b a] b a(2) by blast
qed (rule log_transactions all_status_transactions)+

lemma create_keeps: "good_pipeline pl \<Longrightarrow> keeps (CreateTask_tx rid r user dir pl budget) d"
  unfolding keeps_def db_inv_def
  using create_inv create_status obeysD [OF log_transactions(5)] by (fastforce simp: log_kept_def)

section \<open>Every step keeps it\<close>

lemma sys_invD:
  assumes "sys_inv s"
  shows "db_inv (y_db s)" "d0 \<in> set (y_seen s) \<Longrightarrow> later d0 (y_db s)"
    "(rid, c, inp) \<in> set (y_claims s) \<Longrightarrow> claim_ok (y_db s) rid c inp"
  using assms by (auto simp: sys_inv_def)

lemma tx_step:
  assumes "sys_inv s" "WithTx env m (y_db s) = (r, d, hs)" "obeys later m" "keeps m (y_db s)"
  shows "sys_inv (set_db d s)"
  using WithTx_keeps [OF assms(2-4)] sys_inv_step [OF assms(1)] sys_invD(1) [OF assms(1)] by blast

lemma same_db_step: "sys_inv s \<Longrightarrow> sys_inv (set_db (y_db s) s)"
  using sys_inv_step lt.R_refl sys_invD(1) by blast

lemma core_keeps:
  "keeps (SetBudget_tx rid budget) d" "keeps (Check_tx rid) d" "keeps (start_tx rid df) d"
  "keeps (progress_tx rid c kind payload) d" "keeps (derive_tx rid) d" "keeps (fail_tx rid sid att e) d"
  by (rule keeps_core; rule log_transactions all_status_transactions same_core_transactions)+

lemma UpdateTask_keeps: "keeps (UpdateTask_tx rid action) d"
  by (rule keepsI) (auto intro: UpdateTask_inv log_transactions all_status_transactions)

lemma CreateProject_keeps: "keeps (CreateProject rid nm ow re br i l) d"
proof (rule keeps_core)
  show "obeys log_kept (CreateProject rid nm ow re br i l)" by (rule log_kept_queries)
  show "obeys status_kept (CreateProject rid nm ow re br i l)" by (rule status_queries)
qed (rule obeysI, auto simp: CreateProject_def tx_Inr same_core_def core_def)

lemma create_project_inv:
  assumes "sys_inv s" "ProjectService_Create env (y_db s) rid r = (res, d, hs)"
  shows "sys_inv (set_db d s)"
  using assms(2) tx_step [OF assms(1) _ later_queries(13) CreateProject_keeps] same_db_step [OF assms(1)]
  by (auto simp: ProjectService_Create_def Let_def split: if_splits prod.splits sum.splits)

lemma TaskService_Create_db:
  "cr_db (TaskService_Create x env d0 d rid r user) = d \<or>
   (\<exists>dir cp df budget res hs. x_LoadDefinition x dir cp = Inr df \<and>
      WithTx env (CreateTask_tx rid r user dir (df_Pipeline df) budget) d
        = (res, cr_db (TaskService_Create x env d0 d rid r user), hs))"
proof -
  let ?goal = "\<lambda>c. cr_db c = d \<or> (\<exists>dir cp df budget res hs. x_LoadDefinition x dir cp = Inr df \<and>
      WithTx env (CreateTask_tx rid r user dir (df_Pipeline df) budget) d = (res, cr_db c, hs))"
  have "?goal (case WithTx env (CreateTask_tx rid r user dir (df_Pipeline df) budget) d of
      (Inr _, db', hs) \<Rightarrow> \<lparr>cr_result = FetchTask db' rid, cr_db = db', cr_hooks = hs,
        cr_removed = (if MarkCommitted \<in> set hs then None else Some dir)\<rparr>
    | (Inl e, db', hs) \<Rightarrow> \<lparr>cr_result = Inl e, cr_db = db', cr_hooks = hs,
        cr_removed = (if As_CommitError e then None else Some dir)\<rparr>)"
    if "x_LoadDefinition x dir cp = Inr df" for dir cp df budget
    using that by (auto split: prod.split sum.split)
  then show ?thesis
    unfolding TaskService_Create_def Let_def
    by (auto split: sum.split option.split)
qed

lemma create_task_inv:
  assumes inv: "sys_inv s" and x: "real_loader x"
  shows "sys_inv (set_db (cr_db (TaskService_Create x env d0 (y_db s) rid r user)) s)"
  using TaskService_Create_db [of x env d0 "y_db s" rid r user]
proof (elim disjE exE conjE)
  assume "cr_db (TaskService_Create x env d0 (y_db s) rid r user) = y_db s"
  then show ?thesis using same_db_step [OF inv] by simp
next
  fix dir cp df budget res hs
  assume load: "x_LoadDefinition x dir cp = Inr df"
    and tx: "WithTx env (CreateTask_tx rid r user dir (df_Pipeline df) budget) (y_db s)
        = (res, cr_db (TaskService_Create x env d0 (y_db s) rid r user), hs)"
  from x load have "\<exists>um fm V opened. LoadDefinition um fm V opened dir cp = Inr df"
    unfolding real_loader_def by blast
  then obtain um fm V opened where "LoadDefinition um fm V opened dir cp = Inr df" by blast
  then have "good_pipeline (df_Pipeline df)" using LoadDefinition_Inr(1) ParsePipeline_good by blast
  then show ?thesis by (intro tx_step [OF inv tx later_transactions(5)] create_keeps)
qed

lemma update_task_inv:
  assumes "sys_inv s" "UpdateTask env (y_db s) rid action = (res, d, hs)"
  shows "sys_inv (set_db d s)"
  using assms(2) tx_step [OF assms(1) _ later_transactions(2) UpdateTask_keeps]
  by (auto simp: UpdateTask_def split: prod.splits sum.splits)

lemma set_budget_inv:
  assumes "sys_inv s" "SetBudget env (y_db s) rid budget = (res, d, hs)"
  shows "sys_inv (set_db d s)"
  using assms(2) tx_step [OF assms(1) _ later_transactions(3) core_keeps(1)] same_db_step [OF assms(1)]
  by (auto simp: SetBudget_def split: prod.splits sum.splits if_splits)

lemma budget_check_inv:
  assumes "sys_inv s" "Budget_Check env d0 (y_db s) rid = (res, d, hs)"
  shows "sys_inv (set_db d s)"
  using assms(2) tx_step [OF assms(1) _ later_transactions(4) core_keeps(2)] same_db_step [OF assms(1)]
  by (auto simp: Budget_Check_def split: prod.splits sum.splits if_splits)

lemma update_approval_inv:
  assumes inv: "sys_inv s" and d0: "d0 \<in> set (y_seen s)" and ok: "UpdateApproval env d0 (y_db s) rid r user = (res, d, hs)"
  shows "sys_inv (set_db d s)"
proof (cases "Reader_Approval d0 rid")
  case (Inl e)
  then show ?thesis
    using ok same_db_step [OF inv] by (auto simp: UpdateApproval_def Let_def split: sum.splits)
next
  case (Inr a)
  note keeps = decide_keeps [OF sys_invD(2) [OF inv d0] Inr]
  show ?thesis
    using ok tx_step [OF inv _ later_transactions(1) keeps] same_db_step [OF inv]
    by (auto simp: UpdateApproval_def Let_def Inr split: sum.splits)
qed

text \<open>A claim that succeeds is entitled to commit.\<close>

lemma claim_fresh:
  assumes inv: "sys_inv s" and d0: "d0 \<in> set (y_seen s)" and t: "GetTask d0 rid = Inr t"
    and st: "st \<in> set (Reader_Stages d0 rid)" "stage_mode st (Reader_Stages d0 rid) = mode" "mode \<noteq> []"
    and tx: "WithTx env (claim_tx rid st mode) (y_db s) = (Inr c, d, hs)"
    and inp: "claim_input t (pipeline_snapshot t df) (Reader_Stages d0 rid) st mode c = Some inp"
  shows "claim_ok d rid c inp"
proof -
  have later0: "later d0 (y_db s)" and dbi: "db_inv (y_db s)" using sys_invD [OF inv] d0 by auto
  note snap = later_stage [OF later0 st(1)]
  from tx obtain tx' where run: "claim_tx rid st mode (begin_tx env (y_db s)) = Inr (c, tx')" and d: "d = tx_db tx'"
    by (cases rule: WithTx_cases) auto
  have c: "c = st\<lparr>s_Status := (if mode = ''execute'' then ''executing'' else ''planning''),
        s_Attempt := s_Attempt st + 1, s_Version := s_Version st + 1\<rparr>"
    using claim_tx_Inr [OF run] by blast
  have "snapshot d c"
    unfolding d using dbi snap by (intro claim_snapshot [OF _ _ run]) (auto simp: db_inv_def stage_inv_def shape_def)
  moreover have "has_spec d c (in_Stage inp)"
  proof -
    have t0: "t \<in> set (db_tasks d0)" "t_ID t = rid" using t first_row_Inr by (fastforce simp: GetTask_def)+
    then obtain u where u: "u \<in> set (db_tasks (y_db s))" "task_later t u" using later0 by (auto simp: later_def)
    have "task_shape (y_db s) u" using dbi u(1) by (auto simp: db_inv_def stage_inv_def shape_def)
    then obtain p where "t_Pipeline u = Some p" by (auto simp: task_shape_def)
    then have p: "t_Pipeline t = Some p" using u(2) unfolding task_later_def by (metis task_static_simps(2))
    have "find (\<lambda>v. sp_ID v = s_StageKey st) (pl_Stages p) = Some (in_Stage inp)"
      using inp p by (auto simp: claim_input_def pipeline_snapshot_def UnmarshalPipeline_def stage_input_def
          split: option.splits if_splits)
    then have "in_Stage inp \<in> set (pl_Stages p)" "sp_ID (in_Stage inp) = s_StageKey st"
      by (auto simp: find_Some_iff)
    then have "has_spec d0 c (in_Stage inp)"
      using t0 p snap c by (auto simp: has_spec_def)
    then show ?thesis
      using later0 obeysD [OF later_transactions(7) run] d by (auto intro: has_spec_later)
  qed
  moreover have "in_Mode inp = mode"
    using inp by (auto simp: claim_input_def stage_input_def split: option.splits if_splits)
  ultimately show ?thesis
    using stage_mode_cases [OF st(2,3)] snap c by (auto simp: claim_ok_def)
qed

lemma step_inv:
  assumes "step s s'" "sys_inv s"
  shows "sys_inv s'"
  using assms
proof (induction rule: step.induct)
  case (claim d0 s rid t st mode env c d hs df inp)
  have "sys_inv (set_db d s)"
    using claim sys_invD(2) by (intro tx_step [OF claim.prems claim.hyps(6) later_transactions(7)] claim_keeps)
  with claim_fresh [OF claim.prems claim.hyps] show ?case by (simp add: sys_inv_def set_db_def)
next
  case (claim_lost d0 s st rid mode env res d hs)
  then show ?case
    using sys_invD(2) by (intro tx_step [OF claim_lost.prems claim_lost.hyps(5) later_transactions(7)] claim_keeps)
next
  case (forget cs s)
  then show ?case by (auto simp: sys_inv_def)
qed (auto intro: create_project_inv create_task_inv update_task_inv set_budget_inv update_approval_inv budget_check_inv
    tx_step later_transactions core_keeps commit_keeps block_keeps dest: sys_invD(3))

section \<open>Reachable states\<close>

locale transition_invariant =
  fixes init :: "'s \<Rightarrow> bool" and trans :: "'s \<Rightarrow> 's \<Rightarrow> bool" and inv :: "'s \<Rightarrow> bool"
  assumes init_inv: "init s \<Longrightarrow> inv s"
    and trans_inv: "trans s s' \<Longrightarrow> inv s \<Longrightarrow> inv s'"
begin

lemma run_inv: "trans\<^sup>*\<^sup>* s s' \<Longrightarrow> inv s \<Longrightarrow> inv s'"
  by (induction rule: rtranclp_induct) (auto intro: trans_inv)

lemma reach_inv: "trans\<^sup>*\<^sup>* s s' \<Longrightarrow> init s \<Longrightarrow> inv s'"
  using run_inv init_inv by blast

end

lemma start_sys_inv: "sys_inv start_sys"
  by (simp add: sys_inv_def start_sys_def empty_db_def db_inv_def stage_inv_def shape_def status_ok_def
      event_log_def lt.R_refl)

interpretation ti: transition_invariant "\<lambda>s. s = start_sys" step sys_inv
  by unfold_locales (auto intro: start_sys_inv step_inv)

definition reachable :: "sys \<Rightarrow> bool" where
  "reachable s \<longleftrightarrow> step\<^sup>*\<^sup>* start_sys s"

lemma reachable_inv: "reachable s \<Longrightarrow> sys_inv s"
  unfolding reachable_def by (rule ti.reach_inv) simp_all

end
