(* ===== verification/System_Laws.thy ===== *)
theory System_Laws
  imports System
begin

text \<open>
  Laws of whole runs, derived from the step relation and the invariants: databases only grow
  along \<open>later\<close>, a claim commits at most once and an approval is decided at most once whatever
  happens in between, and a live task always derives a status that names what it is waiting for.
\<close>

section \<open>History\<close>

lemmas WithTx_later = lt.with_tx [OF later_transactions(1)] lt.with_tx [OF later_transactions(2)]
  lt.with_tx [OF later_transactions(3)] lt.with_tx [OF later_transactions(4)] lt.with_tx [OF later_transactions(5)]
  lt.with_tx [OF later_transactions(6)] lt.with_tx [OF later_transactions(7)] lt.with_tx [OF later_transactions(8)]
  lt.with_tx [OF later_transactions(9)] lt.with_tx [OF later_transactions(10)] lt.with_tx [OF later_transactions(11)]
  lt.with_tx [OF later_transactions(12)] lt.with_tx [OF later_queries(13)]

lemma service_later:
  "ProjectService_Create env d rid pr = (pres, d', hs) \<Longrightarrow> later d d'"
  "UpdateTask env d rid action = (res, d', hs) \<Longrightarrow> later d d'"
  "SetBudget env d rid budget = (res, d', hs) \<Longrightarrow> later d d'"
  "Budget_Check env d0 d rid = (ures, d', hs) \<Longrightarrow> later d d'"
  "UpdateApproval env d0 d rid r user = (dres, d', hs) \<Longrightarrow> later d d'"
  by (auto simp: ProjectService_Create_def UpdateTask_def SetBudget_def Budget_Check_def UpdateApproval_def Let_def
      lt.R_refl split: if_splits prod.splits sum.splits dest: WithTx_later)

lemma create_later: "later d (cr_db (TaskService_Create x env d0 d rid r user))"
  using TaskService_Create_db [of x env d0 d rid r user] WithTx_later(5) lt.R_refl by metis

lemma step_later: "step s s' \<Longrightarrow> later (y_db s) (y_db s')"
  by (induction rule: step.induct) (auto simp: set_db_def lt.R_refl intro: create_later service_later WithTx_later)

lemma steps_later: "step\<^sup>*\<^sup>* s s' \<Longrightarrow> later (y_db s) (y_db s')"
  by (induction rule: rtranclp_induct) (auto intro: lt.R_refl lt.R_trans step_later)

lemma reachable_steps: "reachable s \<Longrightarrow> step\<^sup>*\<^sup>* s s' \<Longrightarrow> reachable s'"
  unfolding reachable_def by (rule rtranclp_trans)

lemma reachable_shape: "reachable s \<Longrightarrow> shape (y_db s)"
  using sys_invD(1) [OF reachable_inv] by (simp add: db_inv_def stage_inv_def)

lemma GetTask_of: "shape d \<Longrightarrow> t \<in> set (db_tasks d) \<Longrightarrow> GetTask d (t_ID t) = Inr t"
  by (simp add: shape_def GetTask_key)

lemma GetTask_later:
  assumes "GetTask d rid = Inr t" "later d d'" "shape d'"
  obtains u where "GetTask d' rid = Inr u" "task_later t u"
proof -
  have t: "t \<in> set (db_tasks d)" "t_ID t = rid" using assms(1) first_row_Inr by (fastforce simp: GetTask_def)+
  then obtain u where u: "u \<in> set (db_tasks d')" "task_later t u" using assms(2) unfolding later_def by blast
  have "t_ID u = rid" using u(2) t(2) unfolding task_later_def by (metis task_static_simps(1))
  with GetTask_of [OF assms(3) u(1)] u(2) that show ?thesis by simp
qed

lemma history:
  assumes "step\<^sup>*\<^sup>* s s'"
  shows "prefix (db_events (y_db s)) (db_events (y_db s')) \<and>
    {a \<in> set (db_approvals (y_db s)). a_Status a \<noteq> ''pending''} \<subseteq> set (db_approvals (y_db s')) \<and>
    set (db_deliverables (y_db s)) \<subseteq> set (db_deliverables (y_db s')) \<and>
    (\<forall>r\<in>set (db_stages (y_db s)). \<exists>q\<in>set (db_stages (y_db s')). s_ID q = s_ID r \<and> s_TaskID q = s_TaskID r \<and>
       s_Version r \<le> s_Version q \<and> s_Attempt r \<le> s_Attempt q \<and>
       (s_Version r = s_Version q \<longrightarrow> StageEntity.truncate r = StageEntity.truncate q)) \<and>
    (\<forall>t\<in>set (db_tasks (y_db s)). \<exists>u\<in>set (db_tasks (y_db s')). t_ID u = t_ID t \<and> t_Pipeline u = t_Pipeline t \<and>
       t_Version t \<le> t_Version u)"
proof -
  note later = steps_later [OF assms]
  have "t_ID u = t_ID t \<and> t_Pipeline u = t_Pipeline t \<and> t_Version t \<le> t_Version u" if "task_later t u" for t u
    using that unfolding task_later_def by (metis task_static_simps(1,2))
  then show ?thesis
    using later unfolding later_def stage_later_def approval_later_def by (intro conjI) blast+
qed

section \<open>At most once\<close>

lemma commit_stale:
  assumes "GetTask d rid = Inr t" "e_begin env = None"
    and "\<And>r. r \<in> set (db_stages d) \<Longrightarrow> s_ID r = s_ID c \<Longrightarrow> s_Version r \<noteq> s_Version c"
  shows "WithTx env (commit_tx rid c inp res) d = (Inl ErrStale, d, [])"
proof -
  have none: "filter (stage_match (commit_stage c inp res) (s_Status c)) (db_stages d) = []"
    using assms(3) by (auto simp: filter_empty_conv stage_match_def)
  have "LockTask rid (begin_tx env d) = Inr (t, begin_tx env d)" using assms(1) by (simp add: LockTask_Inr)
  then have "commit_tx rid c inp res (begin_tx env d) = Inl ErrStale"
    by (simp add: commit_tx_def bindT_step Let_def UpdateStage_def UpdateStageRow_def none)
      (simp add: bindT_def UpdateStageRow_def none)
  with assms(2) show ?thesis by (simp add: WithTx_def)
qed

lemma commit_bumps:
  assumes "WithTx env (commit_tx rid c inp res) d = (Inr u, d', hs)" "shape d" "snapshot d c"
  shows "\<exists>r\<in>set (db_stages d'). s_ID r = s_ID c \<and> s_Version r = s_Version c + 1"
proof -
  let ?s = "commit_stage c inp res"
  from assms(1) obtain v tx' where ok: "commit_tx rid c inp res (begin_tx env d) = Inr (v, tx')" and d': "d' = tx_db tx'"
    by (cases rule: WithTx_cases) auto
  from ok obtain tx1 xs nas where up: "UpdateStage ?s (s_Status c) (begin_tx env d) = Inr ((), tx1)"
    and core: "core (tx_db tx') = core ((tx_db tx1)\<lparr>db_approvals := db_approvals (tx_db (begin_tx env d)) @ nas,
       db_deliverables := db_deliverables (tx_db (begin_tx env d)) @ xs\<rparr>)" by (rule commit_tx_core)
  have "distinct (map s_ID (db_stages (tx_db (begin_tx env d))))" "snapshot (tx_db (begin_tx env d)) c"
    using assms(2,3) by (simp_all add: shape_def)
  then obtain r where r: "r \<in> set (db_stages d)" "stage_match ?s (s_Status c) r"
    and st: "db_stages (tx_db tx1) = update_where (stage_match ?s (s_Status c)) (stage_write ?s (e_now env)) (db_stages d)"
    by (rule UpdateStage_row [OF _ _ _ _ _ up]) simp_all
  have "db_stages d' = db_stages (tx_db tx1)" using arg_cong [OF core, of db_stages] d' by simp
  moreover have "stage_write ?s (e_now env) r \<in> set (db_stages (tx_db tx1))"
    using r st by (force simp: update_where_def)
  ultimately show ?thesis using r(2) by (intro bexI [of _ "stage_write ?s (e_now env) r"]) (auto simp: stage_match_def)
qed

text \<open>Once a claim has committed, it is stale for ever.\<close>

lemma commit_once:
  assumes s: "reachable s" and c: "(rid, c, inp) \<in> set (y_claims s)"
    and ok: "WithTx env (commit_tx rid c inp res) (y_db s) = (Inr u, d, hs)" and run: "step\<^sup>*\<^sup>* (set_db d s) s'"
    and env: "e_begin env' = None"
  shows "WithTx env' (commit_tx rid c inp res') (y_db s') = (Inl ErrStale, y_db s', [])"
proof -
  note shape = reachable_shape [OF s]
  have "reachable (set_db d s)"
    using s step.commit [OF c ok] unfolding reachable_def by (rule rtranclp.rtrancl_into_rtrancl)
  then have shape': "shape (y_db s')" using reachable_shape reachable_steps [OF _ run] by blast
  have later: "later d (y_db s')" using steps_later [OF run] by (simp add: set_db_def)
  have "snapshot (y_db s) c" using sys_invD(3) [OF reachable_inv [OF s] c] by (simp add: claim_ok_def)
  from commit_bumps [OF ok shape this] obtain r where r: "r \<in> set (db_stages d)" "s_ID r = s_ID c" "s_Version r = s_Version c + 1"
    by blast
  then obtain q where q: "q \<in> set (db_stages (y_db s'))" "stage_later r q" using later unfolding later_def by blast
  have fresh: "s_Version x \<noteq> s_Version c" if "x \<in> set (db_stages (y_db s'))" "s_ID x = s_ID c" for x
  proof -
    have "x = q" using distinct_map_eqD [OF _ that(1) q(1), of s_ID] shape' that(2) q(2) r(2)
      by (simp add: shape_def stage_later_def)
    then show ?thesis using q(2) r(3) by (simp add: stage_later_def)
  qed
  from ok obtain v tx' where "commit_tx rid c inp res (begin_tx env (y_db s)) = Inr (v, tx')"
    by (cases rule: WithTx_cases) auto
  then obtain t where t: "GetTask (y_db s) rid = Inr t" by (rule commit_tx_parts) auto
  have "later (y_db s) (y_db s')" using lt.with_tx [OF later_transactions(9) ok] later lt.R_trans by blast
  from GetTask_later [OF t this shape'] obtain t' where "GetTask (y_db s') rid = Inr t'" by blast
  from commit_stale [OF this env fresh] show ?thesis .
qed

text \<open>The same for decisions, whatever the handler had read before.\<close>

lemma already_decided:
  assumes "ValidateDecision (ToLower (rq_Decision r)) (rq_Feedback r) (rq_EditedContent r) = Inr ()"
    and "Reader_Approval d0 rid = Inr a" "GetTask d (a_TaskID a) = Inr t" "e_begin env = None"
    and none: "\<And>b. b \<in> set (db_approvals d) \<Longrightarrow> a_ID b = rid \<Longrightarrow> a_Status b \<noteq> ''pending''"
  shows "UpdateApproval env d0 d rid r user
      = (Inl (Fault 409 ''APPROVAL_ALREADY_DECIDED'' ''approval already decided''), d, [])"
proof -
  let ?P = "\<lambda>b. a_ID b = rid \<and> a_Status b = ''pending'' \<and> a_Version b = a_Version a"
  have none': "filter ?P (db_approvals d) = []" using none by (auto simp: filter_empty_conv)
  have "LockTask (a_TaskID a) (begin_tx env d) = Inr (t, begin_tx env d)" using assms(3) by (simp add: LockTask_Inr)
  then have "UpdateApproval_tx rid a (ToLower (rq_Decision r)) (rq_Feedback r) (rq_EditedContent r) user (begin_tx env d)
      = Inl (Fault 409 ''APPROVAL_ALREADY_DECIDED'' ''approval already decided'')"
    by (simp add: UpdateApproval_tx_def bindT_step DecideApproval_def Let_def none')
  with assms(1,2,4) show ?thesis by (simp add: UpdateApproval_def WithTx_def)
qed

lemma decided_status:
  assumes "WithTx env (UpdateApproval_tx rid a dec fb ed user) d = (Inr v, d', hs)"
    and "dec \<in> {''approve'', ''reject'', ''edit''}"
  shows "\<exists>b\<in>set (db_approvals d'). a_ID b = rid \<and> a_Status b \<noteq> ''pending''"
proof -
  from assms(1) obtain w tx' where ok: "UpdateApproval_tx rid a dec fb ed user (begin_tx env d) = Inr (w, tx')" and d': "d' = tx_db tx'"
    by (cases rule: WithTx_cases) auto
  from ok obtain tx1 st tx2 old where
    dec: "DecideApproval rid (decision_status dec) fb ed user (a_Version a) (begin_tx env d) = Inr (1, tx1)"
    and up: "UpdateStage st (s_Status (old :: StageEntity)) tx1 = Inr ((), tx2)" and same: "same_core (tx_db tx2) (tx_db tx')"
    by (rule UpdateApproval_parts) blast
  let ?P = "\<lambda>b. a_ID b = rid \<and> a_Status b = ''pending'' \<and> a_Version b = a_Version a"
  let ?f = "decision_write (decision_status dec) fb ed user (e_now env)"
  have n: "length (filter ?P (db_approvals d)) = 1"
    and a1: "db_approvals (tx_db tx1) = update_where ?P ?f (db_approvals d)"
    using dec by (auto simp: DecideApproval_Inr Let_def)
  from n obtain b where b: "b \<in> set (db_approvals d)" "?P b"
    using filter_False [of "db_approvals d" ?P] by fastforce
  have "db_approvals d' = db_approvals (tx_db tx1)"
    using same_coreD(3) [OF same] up d' by (auto simp: UpdateStage_Inr Let_def)
  moreover have "?f b \<in> set (db_approvals (tx_db tx1))" using b a1 by (force simp: update_where_def)
  moreover have "a_Status (?f b) \<noteq> ''pending''" using assms(2) by (auto simp: decision_status_def)
  ultimately show ?thesis using b(2) by (intro bexI [of _ "?f b"]) auto
qed

lemma decided_once:
  assumes s: "reachable s" and d0: "d0 \<in> set (y_seen s)"
    and ok: "UpdateApproval env d0 (y_db s) rid r user = (Inr v, d, hs)" and run: "step\<^sup>*\<^sup>* (set_db d s) s'"
    and e0: "e0 \<in> set (y_seen s')" "Reader_Approval e0 rid = Inr a"
    and valid: "ValidateDecision (ToLower (rq_Decision r')) (rq_Feedback r') (rq_EditedContent r') = Inr ()"
    and env: "e_begin env' = None"
  shows "UpdateApproval env' e0 (y_db s') rid r' user'
      = (Inl (Fault 409 ''APPROVAL_ALREADY_DECIDED'' ''approval already decided''), y_db s', [])"
proof -
  have reach: "reachable s'"
    using reachable_steps [OF _ run] s step.update_approval [OF d0 ok] unfolding reachable_def
    by (meson rtranclp.rtrancl_into_rtrancl)
  note inv = reachable_inv [OF reach]
  have shape: "shape (y_db s')" by (rule reachable_shape [OF reach])
  from ok obtain a0 where tx: "WithTx env (UpdateApproval_tx rid a0 (ToLower (rq_Decision r)) (rq_Feedback r) (rq_EditedContent r) user)
      (y_db s) = (Inr v, d, hs)" and dec: "ToLower (rq_Decision r) \<in> {''approve'', ''reject'', ''edit''}"
    by (auto simp: UpdateApproval_def ValidateDecision_def Let_def split: sum.splits if_splits)
  from decided_status [OF tx dec] obtain b where b: "b \<in> set (db_approvals d)" "a_ID b = rid" "a_Status b \<noteq> ''pending''" by blast
  have "later d (y_db s')" using steps_later [OF run] by (simp add: set_db_def)
  then have b': "b \<in> set (db_approvals (y_db s'))" using b unfolding later_def approval_later_def by metis
  have none: "a_Status x \<noteq> ''pending''" if "x \<in> set (db_approvals (y_db s'))" "a_ID x = rid" for x
  proof -
    have "x = b" using distinct_map_eqD [OF _ that(1) b', of a_ID] shape that(2) b(2) by (simp add: shape_def)
    then show ?thesis using b(3) by simp
  qed
  have a: "a \<in> set (db_approvals e0)" "a_ID a = rid"
    using e0(2) first_row_Inr by (fastforce simp: Reader_Approval_def GetApproval_def)+
  then obtain x where x: "x \<in> set (db_approvals (y_db s'))" "approval_later a x"
    using sys_invD(2) [OF inv e0(1)] unfolding later_def by blast
  obtain q where "q \<in> set (db_stages (y_db s'))" "s_TaskID q = a_TaskID x"
    using shape x(1) unfolding shape_def by blast
  then obtain sp where "has_spec (y_db s') q sp" using shape unfolding shape_def by blast
  then obtain t where t: "t \<in> set (db_tasks (y_db s'))" "t_ID t = a_TaskID a"
    using \<open>s_TaskID q = a_TaskID x\<close> x(2) by (auto simp: has_spec_def approval_later_def)
  have "GetTask (y_db s') (a_TaskID a) = Inr t" using GetTask_of [OF shape t(1)] t(2) by simp
  from already_decided [OF valid e0(2) this env none] show ?thesis .
qed

section \<open>Live tasks\<close>

text \<open>The dependency graph the rows of a task carry is the one of its pipeline.\<close>

lemma reader_graph:
  assumes inv: "stage_inv d" and t: "t \<in> set (db_tasks d)"
  shows "Reader_Stages d (t_ID t) \<noteq> []" "acyclic (stage_graph (Reader_Stages d (t_ID t)))"
    "s \<in> set (Reader_Stages d (t_ID t)) \<Longrightarrow> k \<in> set (s_DependsOn s) \<Longrightarrow>
       \<exists>p\<in>set (Reader_Stages d (t_ID t)). s_StageKey p = k"
    "s \<in> set (Reader_Stages d (t_ID t)) \<Longrightarrow> s_Status s \<in> set stage_statuses"
proof -
  have shape: "shape d" using inv by (simp add: stage_inv_def)
  then obtain p where p: "t_Pipeline t = Some p" "good_pipeline p"
    and rows: "\<And>sp. sp \<in> set (pl_Stages p) \<Longrightarrow> \<exists>s\<in>set (db_stages d). s_TaskID s = t_ID t \<and> s_StageKey s = sp_ID sp"
    using t unfolding shape_def task_shape_def by blast
  have key: "\<exists>q\<in>set (Reader_Stages d (t_ID t)). s_StageKey q = sp_ID sp" if "sp \<in> set (pl_Stages p)" for sp
    using rows [OF that] by (auto simp: set_Reader_Stages)
  have spec: "\<exists>sp\<in>set (pl_Stages p). sp_ID sp = s_StageKey s \<and> s_DependsOn s = elems (sp_DependsOn sp)"
    if "s \<in> set (Reader_Stages d (t_ID t))" for s
  proof -
    from that obtain r where r: "r \<in> set (db_stages d)" "s_TaskID r = t_ID t" "s = StageEntity.truncate r"
      by (auto simp: set_Reader_Stages)
    then obtain sp where sp: "has_spec d r sp" "s_DependsOn r = elems (sp_DependsOn sp)"
      using shape unfolding shape_def by blast
    then obtain u q where u: "u \<in> set (db_tasks d)" "t_ID u = t_ID t" "t_Pipeline u = Some q" "sp \<in> set (pl_Stages q)"
        "sp_ID sp = s_StageKey r"
      using r(2) unfolding has_spec_def by auto
    have "u = t" using shape distinct_map_eqD [OF _ u(1) t, of t_ID] u(2) by (simp add: shape_def)
    with u p(1) sp(2) r(3) show ?thesis by (intro bexI [of _ sp]) auto
  qed
  show "Reader_Stages d (t_ID t) \<noteq> []"
    using p(2) key [of "hd (pl_Stages p)"] by (auto simp: good_pipeline_def)
  have "stage_graph (Reader_Stages d (t_ID t)) \<subseteq> dep_rel (pl_Stages p)"
  proof
    fix e assume "e \<in> stage_graph (Reader_Stages d (t_ID t))"
    then obtain k s where e: "e = (k, s_StageKey s)" "s \<in> set (Reader_Stages d (t_ID t))" "k \<in> set (s_DependsOn s)"
      unfolding stage_graph_def by blast
    from spec [OF e(2)] obtain sp where "sp \<in> set (pl_Stages p)" "sp_ID sp = s_StageKey s" "s_DependsOn s = elems (sp_DependsOn sp)"
      by blast
    with e show "e \<in> dep_rel (pl_Stages p)" unfolding dep_rel_def by force
  qed
  then show "acyclic (stage_graph (Reader_Stages d (t_ID t)))"
    using p(2) acyclic_subset by (auto simp: good_pipeline_def)
  show "\<exists>p\<in>set (Reader_Stages d (t_ID t)). s_StageKey p = k"
    if s: "s \<in> set (Reader_Stages d (t_ID t))" and k: "k \<in> set (s_DependsOn s)" for s k
  proof -
    from spec [OF s] k obtain sp where "sp \<in> set (pl_Stages p)" "k \<in> set (elems (sp_DependsOn sp))" by auto
    then have "k \<in> set (stage_ids (pl_Stages p))" using p(2) by (auto simp: good_pipeline_def deps_closed_def)
    then show ?thesis using key by auto
  qed
  show "s_Status s \<in> set stage_statuses" if s: "s \<in> set (Reader_Stages d (t_ID t))" for s
  proof -
    from s obtain r where "r \<in> set (db_stages d)" "s = StageEntity.truncate r" by (auto simp: set_Reader_Stages)
    with stage_inv_local [OF inv] show ?thesis unfolding stage_local_def counters_ok_def by auto
  qed
qed

lemma live_status:
  assumes "reachable s" "t \<in> set (db_tasks (y_db s))" "\<not> Terminal st" "st \<noteq> ''paused''" "st \<noteq> ''queued''"
  shows "Derive st (Reader_Stages (y_db s) (t_ID t)) =
     (if \<exists>r\<in>set (Reader_Stages (y_db s) (t_ID t)). in_review r then ''waiting_approval''
      else if \<forall>r\<in>set (Reader_Stages (y_db s) (t_ID t)). s_Status r = ''approved'' then ''completed''
      else if \<exists>r\<in>set (Reader_Stages (y_db s) (t_ID t)). runnable (Reader_Stages (y_db s) (t_ID t)) r then ''running''
      else ''blocked'')"
    and "Derive st (Reader_Stages (y_db s) (t_ID t)) = ''blocked'' \<Longrightarrow>
      \<exists>r\<in>set (Reader_Stages (y_db s) (t_ID t)). s_Status r = ''blocked''"
proof -
  have "stage_inv (y_db s)" using sys_invD(1) [OF reachable_inv [OF assms(1)]] by (simp add: db_inv_def)
  note g = reader_graph [OF this assms(2)]
  show "Derive st (Reader_Stages (y_db s) (t_ID t)) =
     (if \<exists>r\<in>set (Reader_Stages (y_db s) (t_ID t)). in_review r then ''waiting_approval''
      else if \<forall>r\<in>set (Reader_Stages (y_db s) (t_ID t)). s_Status r = ''approved'' then ''completed''
      else if \<exists>r\<in>set (Reader_Stages (y_db s) (t_ID t)). runnable (Reader_Stages (y_db s) (t_ID t)) r then ''running''
      else ''blocked'')"
    by (rule Derive_progress(1) [OF g(2,3,4,1) assms(3-5)])
  show "Derive st (Reader_Stages (y_db s) (t_ID t)) = ''blocked'' \<Longrightarrow>
      \<exists>r\<in>set (Reader_Stages (y_db s) (t_ID t)). s_Status r = ''blocked''"
    by (rule Derive_progress(2) [OF g(2,3,4,1) assms(3-5)])
qed

end
