(* ===== verification/Tx_Progress.thy ===== *)
theory Tx_Progress
  imports System_Laws
begin

text \<open>
  Transactions that must succeed. Constraints, version checks and lookups make a transaction fail;
  the invariants of reachable states rule those failures out. Total correctness of transaction
  steps (\<open>succeeds\<close>) is used to show that a runnable stage can be claimed, that the result of a
  current claim can be committed (no unique index and no check constraint is ever hit), and that
  every pending approval of a live task can be decided. The hypothesis on the environment is that
  the transaction begins and commits and that UUIDs are fresh.
\<close>

section \<open>Total correctness of transaction steps\<close>

definition succeeds :: "'a txm \<Rightarrow> Tx \<Rightarrow> ('a \<Rightarrow> Tx \<Rightarrow> bool) \<Rightarrow> bool" where
  "succeeds m tx Q \<longleftrightarrow> (\<exists>v tx'. m tx = Inr (v, tx') \<and> Q v tx')"

lemma succeeds_bind: "succeeds m tx (\<lambda>v tx'. succeeds (f v) tx' Q) \<Longrightarrow> succeeds (bindT m f) tx Q"
  unfolding succeeds_def by (auto simp: bindT_def)

lemma succeeds_step: "m tx = Inr (v, tx') \<Longrightarrow> succeeds (f v) tx' Q \<Longrightarrow> succeeds (bindT m f) tx Q"
  by (simp add: succeeds_def bindT_def)

lemma bindT_ret: "bindT (retT v) f = f v"
  by (simp add: fun_eq_iff bindT_def)

lemma succeeds_ret [simp]: "succeeds (retT v) tx Q \<longleftrightarrow> Q v tx"
  by (simp add: succeeds_def)

lemma succeeds_after [simp]: "succeeds (AfterCommit h) tx Q \<longleftrightarrow> Q () (tx\<lparr>tx_after := tx_after tx @ [h]\<rparr>)"
  by (simp add: succeeds_def)

lemma succeeds_read: "f (tx_db tx) = Inr v \<Longrightarrow> Q v tx \<Longrightarrow> succeeds (readT f) tx Q"
  by (simp add: succeeds_def readT_def)

lemma succeeds_lift: "r = Inr v \<Longrightarrow> Q v tx \<Longrightarrow> succeeds (liftT r) tx Q"
  by (simp add: succeeds_def)

lemma succeeds_when: "(b \<Longrightarrow> succeeds m tx Q) \<Longrightarrow> (\<not> b \<Longrightarrow> Q () tx) \<Longrightarrow> succeeds (whenT b m) tx Q"
  by (auto simp: whenT_def)

lemma succeeds_conseq: "succeeds m tx P \<Longrightarrow> (\<And>v tx'. P v tx' \<Longrightarrow> Q v tx') \<Longrightarrow> succeeds m tx Q"
  unfolding succeeds_def by blast

lemma WithTx_succeeds:
  assumes "e_begin env = None" "e_commit env = None" "succeeds m (begin_tx env d) Q"
  shows "\<exists>v tx'. WithTx env m d = (Inr v, tx_db tx', tx_after tx') \<and> Q v tx'"
  using assms unfolding succeeds_def by (auto simp: WithTx_ok)

section \<open>Fresh identifiers\<close>

definition used_ids :: "db \<Rightarrow> string set" where
  "used_ids d = ev_EventID ` set (db_events d) \<union> a_ID ` set (db_approvals d) \<union> d_ID ` set (db_deliverables d)"

definition fresh_env :: "env \<Rightarrow> db \<Rightarrow> bool" where
  "fresh_env env d \<longleftrightarrow> e_begin env = None \<and> e_commit env = None \<and> inj (e_uuid env) \<and> range (e_uuid env) \<inter> used_ids d = {}"

text \<open>
  What a transaction on the task \<open>t\<close> can rely on between its steps: \<open>A\<close> are the approvals and \<open>S\<close>
  the stages' identifiers.
\<close>

definition running :: "TaskEntity \<Rightarrow> ApprovalEntity list \<Rightarrow> string list \<Rightarrow> Tx \<Rightarrow> bool" where
  "running t A S tx \<longleftrightarrow>
     event_log (tx_db tx) \<and> inj (e_uuid (tx_env tx)) \<and>
     (\<forall>n\<ge>tx_n tx. e_uuid (tx_env tx) n \<notin> used_ids (tx_db tx)) \<and>
     (\<exists>u\<in>set (db_tasks (tx_db tx)). t_ID u = t_ID t \<and> t_Version u = t_Version t) \<and>
     db_approvals (tx_db tx) = A \<and> map s_ID (db_stages (tx_db tx)) = S"

lemma running_start:
  "fresh_env env d \<Longrightarrow> event_log d \<Longrightarrow> t \<in> set (db_tasks d) \<Longrightarrow>
     running t (db_approvals d) (map s_ID (db_stages d)) (begin_tx env d)"
  unfolding running_def fresh_env_def by (auto simp: begin_tx_def)

lemma running_log: "running t A S tx \<Longrightarrow> event_log (tx_db tx)"
  by (simp add: running_def)

text \<open>A step that touches neither tasks, events nor identifiers.\<close>

lemma running_frame:
  assumes "running t A S tx" "db_tasks d = db_tasks (tx_db tx)" "db_events d = db_events (tx_db tx)"
    and "db_deliverables d = db_deliverables (tx_db tx)" "db_approvals d = A'" "map s_ID (db_stages d) = S"
    and "a_ID ` set A' \<subseteq> a_ID ` set A" "tx_env tx' = tx_env tx" "tx_n tx' = tx_n tx" "tx_db tx' = d"
  shows "running t A' S tx'"
proof -
  have "event_log d" using assms(1,2,3) unfolding running_def event_log_def ledger_def by simp
  moreover have "used_ids d \<subseteq> used_ids (tx_db tx)"
    using assms by (auto simp: used_ids_def running_def)
  ultimately show ?thesis using assms unfolding running_def by (auto simp del: ex_simps)
qed

lemma Emit_succeeds:
  assumes "running t A S tx"
  shows "succeeds (Emit (t_ID t) stage agent kind payload) tx (\<lambda>_ tx'. running t A S tx' \<and> only_log (tx_db tx) (tx_db tx'))"
proof -
  let ?d = "tx_db tx" and ?id = "e_uuid (tx_env tx) (tx_n tx)"
  have log: "event_log ?d" by (rule running_log [OF assms])
  then have dist: "distinct (map t_ID (db_tasks ?d))" by (simp add: event_log_def)
  obtain u where u: "u \<in> set (db_tasks ?d)" "t_ID u = t_ID t" "t_Version u = t_Version t"
    using assms unfolding running_def by blast
  have get: "GetTask ?d (t_ID t) = Inr u" using GetTask_key [OF dist] u by simp
  have new: "?id \<notin> ev_EventID ` set (db_events ?d)" using assms by (auto simp: running_def used_ids_def)
  have seq: "(t_ID t, t_EventSeq u + 1) \<notin> (\<lambda>e. (ev_TaskID e, ev_Seq e)) ` set (db_events ?d)"
  proof
    assume "(t_ID t, t_EventSeq u + 1) \<in> (\<lambda>e. (ev_TaskID e, ev_Seq e)) ` set (db_events ?d)"
    then obtain e where e: "e \<in> set (db_events ?d)" "ev_TaskID e = t_ID t" "ev_Seq e = t_EventSeq u + 1" by auto
    then have "t_EventSeq u + 1 \<in> set (ledger ?d (t_ID u))" using u(2) by (force simp: ledger_def)
    moreover have "ledger ?d (t_ID u) = [1..t_EventSeq u]" using log u(1) by (simp add: event_log_def)
    ultimately show False by simp
  qed
  define ev where "ev = mk_event ?id (t_ID t) (t_EventSeq u + 1) (e_clock (tx_env tx) (tx_n tx)) stage agent kind payload"
  define tx' where "tx' = tx\<lparr>tx_db := emit_db ?d ev, tx_n := tx_n tx + 1, tx_after := tx_after tx @ [PublishEvent ev]\<rparr>"
  have ok: "Emit (t_ID t) stage agent kind payload tx = Inr ((), tx')"
    unfolding Emit_Inr [OF dist] Let_def tx'_def ev_def using get new seq by blast
  have only: "only_log ?d (tx_db tx')" by (rule obeysD [OF Emit_only_log ok])
  have log': "event_log (tx_db tx')" using obeysD [OF Emit_log_kept ok] log by (simp add: log_kept_def)
  have "\<exists>v\<in>set (db_tasks (tx_db tx')). t_ID v = t_ID t \<and> t_Version v = t_Version t"
    using u by (intro bexI [of _ "u\<lparr>t_EventSeq := t_EventSeq u + 1\<rparr>"]) (auto simp: tx'_def emit_db_def set_update_where ev_def)
  moreover have "e_uuid (tx_env tx) n \<notin> used_ids (tx_db tx')" if "Suc (tx_n tx) \<le> n" for n
  proof -
    have "e_uuid (tx_env tx) n \<noteq> ?id" using that assms by (auto simp: running_def dest: injD)
    moreover have "used_ids (tx_db tx') = insert ?id (used_ids ?d)"
      by (auto simp: used_ids_def tx'_def emit_db_def ev_def)
    ultimately show ?thesis using that assms by (simp add: running_def)
  qed
  ultimately have "running t A S tx'"
    using log' assms by (simp add: running_def tx'_def emit_db_def)
  with ok only show ?thesis by (simp add: succeeds_def)
qed

lemma SetStatus_succeeds:
  assumes "running t A S tx" "st \<in> set task_statuses"
  shows "succeeds (SetStatus t st) tx (\<lambda>u tx'. t_ID u = t_ID t \<and> running u A S tx')"
proof -
  let ?d = "tx_db tx" and ?P = "\<lambda>r. t_ID r = t_ID t \<and> t_Version r = t_Version t"
  have log: "event_log ?d" by (rule running_log [OF assms(1)])
  then have dist: "distinct (map t_ID (db_tasks ?d))" by (simp add: event_log_def)
  obtain u where u: "u \<in> set (db_tasks ?d)" "?P u" using assms unfolding running_def by blast
  have n: "length (filter ?P (db_tasks ?d)) = 1" using length_filter_key [OF dist] u by auto
  define tx' where "tx' = tx\<lparr>tx_db := ?d\<lparr>db_tasks := update_where ?P (status_write st (e_now (tx_env tx))) (db_tasks ?d)\<rparr>\<rparr>"
  have ok: "SetStatus t st tx = Inr (t\<lparr>t_Status := st, t_Version := t_Version t + 1\<rparr>, tx')"
    using n assms(2) unfolding SetStatus_Inr Let_def tx'_def by simp
  have "event_log (tx_db tx')" using obeysD [OF SetStatus_log_kept ok] log by (simp add: log_kept_def)
  moreover have "\<exists>v\<in>set (db_tasks (tx_db tx')). t_ID v = t_ID t \<and> t_Version v = t_Version t + 1"
    using u by (intro bexI [of _ "status_write st (e_now (tx_env tx)) u"]) (auto simp: tx'_def set_update_where)
  ultimately have "running (t\<lparr>t_Status := st, t_Version := t_Version t + 1\<rparr>) A S tx'"
    using assms(1) unfolding running_def by (auto simp: tx'_def used_ids_def)
  with ok show ?thesis by (simp add: succeeds_def)
qed

section \<open>Deriving the status\<close>

lemma running_after [simp]: "running t A S (tx\<lparr>tx_after := h\<rparr>) = running t A S tx"
  by (simp add: running_def)

lemma running_approvals: "running t A S tx \<Longrightarrow> db_approvals (tx_db tx) = A"
  by (simp add: running_def)

lemma Emit_last:
  assumes "running u A S tx" "t_ID u = rid"
  shows "succeeds (Emit rid stage agent kind payload) tx (\<lambda>_ tx'. db_approvals (tx_db tx') = A)"
  unfolding assms(2) [symmetric]
  by (rule succeeds_conseq [OF Emit_succeeds [OF assms(1)]]) (elim conjE, erule running_approvals)

lemma deriveTx_succeeds:
  assumes "running t A S tx" "t_Status t \<in> set task_statuses"
  shows "succeeds (deriveTx t) tx (\<lambda>_ tx'. db_approvals (tx_db tx') = A)"
proof -
  let ?to = "Derive (t_Status t) (Reader_Stages (tx_db tx) (t_ID t))"
  have to: "?to \<in> set task_statuses" by (rule Derive_in_statuses [OF assms(2)])
  show ?thesis
    unfolding deriveTx_def
  proof (intro succeeds_bind succeeds_read [OF refl])
    show "succeeds (let to = ?to in if to = t_Status t then retT ()
        else bindT (SetStatus t to) (\<lambda>t. if to = ''completed''
          then bindT (readT (\<lambda>db. Inr (Completion db (t_ID t)))) (\<lambda>payload. Emit (t_ID t) [] [] ''run.completed'' payload)
          else retT ())) tx (\<lambda>_ tx'. db_approvals (tx_db tx') = A)"
      unfolding Let_def
      by (auto simp: running_approvals [OF assms(1)] intro!: succeeds_bind succeeds_conseq [OF SetStatus_succeeds [OF assms(1) to]]
          succeeds_read [OF refl] intro: Emit_last running_approvals)
  qed
qed

lemma decide_derive_deriveTx: "decide_derive t = deriveTx t"
  by (simp add: decide_derive_def deriveTx_def Let_def if_distrib cong: if_cong) (metis (no_types))

section \<open>Claiming\<close>

lemma claim_succeeds:
  assumes inv: "db_inv d" and t: "t \<in> set (db_tasks d)" "t_Status t \<in> {''running'', ''waiting_approval''}"
    and st: "st \<in> set (Reader_Stages d (t_ID t))" "stage_mode st (Reader_Stages d (t_ID t)) = mode" "mode \<noteq> []"
    and env: "fresh_env env d"
  shows "\<exists>c d' hs. WithTx env (claim_tx (t_ID t) st mode) d = (Inr c, d', hs)"
proof -
  let ?tx = "begin_tx env d" and ?to = "if mode = ''execute'' then ''executing'' else ''planning''"
  let ?P = "\<lambda>s. s_ID s = s_ID st \<and> s_Attempt s = s_Attempt st \<and> s_Status s = s_Status st"
  have run: "running t (db_approvals d) (map s_ID (db_stages d)) ?tx"
    by (rule running_start [OF env _ t(1)]) (use inv in \<open>simp add: db_inv_def\<close>)
  have shape: "shape d" using inv by (simp add: db_inv_def stage_inv_def)
  have lock: "LockTask (t_ID t) ?tx = Inr (t, ?tx)" using GetTask_of [OF shape t(1)] by (simp add: LockTask_Inr)
  have mode: "mode = ''plan'' \<and> s_Status st \<in> {''pending'', ''planning''} \<or> mode = ''execute'' \<and> s_Status st = ''executing''"
    by (rule stage_mode_cases [OF st(2,3)])
  have ready: "Ready st (Reader_Stages d (t_ID t))" if "s_Status st = ''pending''"
    using st(2,3) that by (auto simp: stage_mode_def split: if_splits)
  have "\<exists>r\<in>set (db_stages d). ?P r" using st(1) by (auto simp: set_Reader_Stages)
  then obtain tx1 where claim: "ClaimStage (s_ID st) (s_Attempt st) ?to (s_Status st) ?tx = Inr (s_Attempt st + 1, tx1)"
    and tx1: "tx1 = ?tx\<lparr>tx_db := d\<lparr>db_stages := update_where ?P (claim_write ?to (e_now env)) (db_stages d)\<rparr>\<rparr>"
    using ClaimStage_Inr [of "s_ID st" "s_Attempt st" ?to "s_Status st" ?tx "s_Attempt st + 1"]
    by (auto simp: Let_def stage_statuses_def)
  have run1: "running t (db_approvals d) (map s_ID (db_stages d)) tx1"
    by (rule running_frame [OF run]) (simp_all add: tx1 map_update_where)
  have "succeeds (claim_tx (t_ID t) st mode) ?tx (\<lambda>_ _. True)"
    unfolding claim_tx_def
  proof (rule succeeds_bind)
    show "succeeds (LockTask (t_ID t)) ?tx (\<lambda>ta tx'. succeeds
        (if Terminal (t_Status ta) \<or> t_Status ta = ''paused'' \<or> t_Status ta = ''blocked'' then failT ErrStale
         else bindT (whenT (s_Status st = ''pending'') (readT (\<lambda>db.
             if Ready st (Reader_Stages db (t_ID t)) then Inr () else Inl ErrStale))) (\<lambda>_.
         let to = ?to
         in bindT (ClaimStage (s_ID st) (s_Attempt st) to (s_Status st)) (\<lambda>attempt.
            bindT (whenT (s_Status st = ''pending'')
                (Emit (t_ID t) (s_StageKey st) (s_Role st) ''stage.started'' (JObj [(''role'', JStr (s_Role st))]))) (\<lambda>_.
            retT (st\<lparr>s_Status := to, s_Attempt := attempt, s_Version := s_Version st + 1\<rparr>))))) tx' (\<lambda>_ _. True))"
      using t(2) ready claim run1 unfolding succeeds_def [of "LockTask (t_ID t)"] lock
      by (auto simp: Let_def intro!: succeeds_bind succeeds_when succeeds_read [where v = "()"]
          succeeds_conseq [OF Emit_succeeds] simp: succeeds_def [of "ClaimStage a b c e" for a b c e])
  qed
  moreover have "e_begin env = None" "e_commit env = None" using env by (simp_all add: fresh_env_def)
  ultimately show ?thesis using WithTx_succeeds by blast
qed

section \<open>Committing\<close>

lemma commit_stage_static [simp]:
  "s_ID (commit_stage c inp res) = s_ID c" "s_Attempt (commit_stage c inp res) = s_Attempt c"
  "s_Version (commit_stage c inp res) = s_Version c" "s_Status (commit_stage c inp res) \<in> set stage_statuses"
  by (auto simp: commit_stage_def Let_def commit_kind_def stage_statuses_def)

lemma UpdateStage_succeeds:
  assumes run: "running t A S tx" and dist: "distinct S"
    and r: "r \<in> set (db_stages (tx_db tx))" "stage_match s old r" and st: "s_Status s \<in> set stage_statuses"
  shows "succeeds (UpdateStage s old) tx (\<lambda>_ tx'. running t A S tx' \<and> db_deliverables (tx_db tx') = db_deliverables (tx_db tx) \<and>
    db_tasks (tx_db tx') = db_tasks (tx_db tx))"
proof -
  have "distinct (map s_ID (db_stages (tx_db tx)))" using run dist by (simp add: running_def)
  from length_filter_key [OF this, of "s_ID s" "\<lambda>x. s_Attempt x = s_Attempt s \<and> s_Status x = old \<and> s_Version x = s_Version s"] r
  have n: "length (filter (stage_match s old) (db_stages (tx_db tx))) = 1" by (auto simp: stage_match_def [abs_def])
  define tx' where "tx' = tx\<lparr>tx_db := (tx_db tx)\<lparr>db_stages := update_where (stage_match s old)
    (stage_write s (e_now (tx_env tx))) (db_stages (tx_db tx))\<rparr>\<rparr>"
  have "UpdateStage s old tx = Inr ((), tx')" using n st unfolding UpdateStage_Inr Let_def tx'_def by simp
  moreover have "running t A S tx'"
    by (rule running_frame [OF run]) (use run in \<open>simp_all add: tx'_def map_update_where running_def\<close>)
  ultimately show ?thesis by (simp add: succeeds_def tx'_def)
qed

lemma running_task: "running t A S tx \<Longrightarrow> t_ID t \<in> t_ID ` set (db_tasks (tx_db tx))"
proof -
  assume "running t A S tx"
  then obtain u where "u \<in> set (db_tasks (tx_db tx))" "t_ID t = t_ID u" unfolding running_def by metis
  then show ?thesis by blast
qed

lemma running_stage: "running t A S tx \<Longrightarrow> sid \<in> set S \<Longrightarrow> sid \<in> s_ID ` set (db_stages (tx_db tx))"
  by (auto simp: running_def)

text \<open>Taking a fresh identifier for a new deliverable or approval.\<close>

lemma running_new:
  assumes "running t A S tx" "event_log d" "db_tasks d = db_tasks (tx_db tx)" "map s_ID (db_stages d) = S"
    and "used_ids d \<subseteq> insert (e_uuid (tx_env tx) (tx_n tx)) (used_ids (tx_db tx))"
  shows "running t (db_approvals d) S (tx\<lparr>tx_n := tx_n tx + 1, tx_db := d\<rparr>)"
proof -
  have "e_uuid (tx_env tx) n \<notin> used_ids d" if "Suc (tx_n tx) \<le> n" for n
  proof -
    have "e_uuid (tx_env tx) n \<noteq> e_uuid (tx_env tx) (tx_n tx)" using that assms(1) by (auto simp: running_def dest: injD)
    with assms(1,5) that show ?thesis by (auto simp: running_def)
  qed
  with assms show ?thesis by (simp add: running_def)
qed

lemma commit_deliverable_succeeds:
  assumes run: "running t A S tx" and s: "s_ID s \<in> set S"
  shows "succeeds (commit_deliverable (t_ID t) s r) tx (\<lambda>_ tx'. running t A S tx')"
proof -
  let ?id = "e_uuid (tx_env tx) (tx_n tx)" and ?tx = "tx\<lparr>tx_n := tx_n tx + 1\<rparr>"
  let ?x = "new_deliverable ?id (t_ID t) (s_ID s) (rs_Ref r) (Some (rs_Content r)) (s_DeliverableSummary s) (e_now (tx_env tx))"
  let ?d = "(tx_db tx)\<lparr>db_deliverables := db_deliverables (tx_db tx) @ [?x]\<rparr>"
  have "?id \<notin> d_ID ` set (db_deliverables (tx_db tx))" using run by (auto simp: running_def used_ids_def)
  then have new: "CreateDeliverable ?id (t_ID t) (s_ID s) (rs_Ref r) (Some (rs_Content r)) (s_DeliverableSummary s) ?tx
      = Inr ((), ?tx\<lparr>tx_db := ?d\<rparr>)"
    using running_task [OF run] running_stage [OF run s] by (simp add: CreateDeliverable_Inr)
  have "running t (db_approvals ?d) S (tx\<lparr>tx_n := tx_n tx + 1, tx_db := ?d\<rparr>)"
    by (rule running_new [OF run])
      (use run in \<open>auto simp: running_def used_ids_def new_deliverable_def event_log_def ledger_def\<close>)
  then have run': "running t A S (?tx\<lparr>tx_db := ?d\<rparr>)" using running_approvals [OF run] by simp
  show ?thesis
    unfolding commit_deliverable_def
    by (rule succeeds_step, rule tx_basic(5), rule succeeds_step, rule new, rule succeeds_bind)
      (rule succeeds_conseq [OF Emit_succeeds [OF run']], simp)
qed

lemma commit_approval_succeeds:
  assumes run: "running t A S tx" and s: "s_ID s \<in> set S"
    and free: "\<And>a. a \<in> set A \<Longrightarrow> a_StageID a = s_ID s \<Longrightarrow> a_Status a \<noteq> ''pending'' \<and> \<not> (a_Kind a = kind \<and> a_RetryNo a = retry)"
  shows "succeeds (commit_approval (t_ID t) s kind retry r did) tx (\<lambda>_ tx'. \<exists>A'. running t A' S tx')"
proof -
  let ?id = "e_uuid (tx_env tx) (tx_n tx)" and ?tx = "tx\<lparr>tx_n := tx_n tx + 1\<rparr>"
  let ?title = "approval_title (s_StageKey s) kind retry"
  let ?a = "new_approval ?id (t_ID t) (s_ID s) kind retry ?title (rs_Content r) (e_now (tx_env tx))"
  let ?d = "(tx_db tx)\<lparr>db_approvals := db_approvals (tx_db tx) @ [?a]\<rparr>"
  have "?id \<notin> a_ID ` set (db_approvals (tx_db tx))" using run by (auto simp: running_def used_ids_def)
  then have new: "CreateApproval ?id (t_ID t) (s_ID s) kind retry ?title (rs_Content r) ?tx = Inr ((), ?tx\<lparr>tx_db := ?d\<rparr>)"
    using running_task [OF run] running_stage [OF run s] free running_approvals [OF run] unfolding CreateApproval_Inr by auto
  have run': "running t (db_approvals ?d) S (?tx\<lparr>tx_db := ?d\<rparr>)"
    using running_new [OF run, of ?d] run by (auto simp: running_def used_ids_def new_approval_def event_log_def ledger_def)
  show ?thesis
    unfolding commit_approval_def Let_def
    by (rule succeeds_step, rule tx_basic(5), rule succeeds_step, rule new)
      (rule succeeds_conseq [OF Emit_succeeds [OF run']], blast)
qed

lemma local_approval:
  assumes "stage_local g as dv r" "a \<in> set as"
  shows "a_Kind a = ''plan'' \<and> approval_ok a (s_PlanRetryNo r) (s_Status r = ''plan_review'') (past_plan r) \<or>
    a_Kind a = ''deliverable'' \<and>
      approval_ok a (s_DeliverableRetryNo r) (s_Status r = ''deliverable_review'') (s_Status r = ''approved'')"
  using assms unfolding stage_local_def side_ok_def by blast

lemma Emit_runs: "running t A S tx \<Longrightarrow> succeeds (Emit (t_ID t) stage agent kind payload) tx (\<lambda>_ tx'. \<exists>A'. running t A' S tx')"
  by (rule succeeds_conseq [OF Emit_succeeds]) blast+

lemma commit_succeeds:
  assumes inv: "db_inv d" and claim: "claim_ok d (t_ID t) c inp" and t: "t \<in> set (db_tasks d)" "\<not> Terminal (t_Status t)"
    and r: "r \<in> set (db_stages d)" "s_ID r = s_ID c" "s_Version r = s_Version c"
    and env: "fresh_env env d"
  shows "\<exists>d' hs. WithTx env (commit_tx (t_ID t) c inp res) d = (Inr (), d', hs)"
proof -
  let ?tx = "begin_tx env d" and ?s = "commit_stage c inp res" and ?A = "db_approvals d" and ?S = "map s_ID (db_stages d)"
  have sinv: "stage_inv d" and log: "event_log d" and stat: "t_Status t \<in> set task_statuses"
    using inv t(1) by (auto simp: db_inv_def status_ok_def)
  have shape: "shape d" using sinv by (simp add: stage_inv_def)
  then have dist: "distinct ?S" by (simp add: shape_def)
  obtain q where q: "q \<in> set (db_stages d)" "stage_later c q" using claim by (auto simp: claim_ok_def snapshot_def)
  have "q = r" using distinct_map_eqD [OF dist q(1) r(1)] q(2) r(2) by (simp add: stage_later_def)
  with q(2) r(3) have c: "StageEntity.truncate r = c" by (simp add: stage_later_def)
  then have match: "stage_match ?s (s_Status c) r" by (auto simp: stage_match_def)
  have loc: "stage_local (gate d r) (approvals_of ?A (s_ID r)) (has_deliverable (db_deliverables d) (s_ID r)) r"
    by (rule stage_inv_local [OF sinv r(1)])
  have free: "a_Status a \<noteq> ''pending'' \<and> \<not> (a_Kind a = commit_kind inp \<and> a_RetryNo a = commit_retry c inp)"
    if a: "a \<in> set ?A" "a_StageID a = s_ID ?s" for a
  proof -
    have in_as: "a \<in> set (approvals_of ?A (s_ID r))" using a r(2) by (simp add: approvals_of_def)
    have "in_Mode inp = ''plan'' \<and> s_Status r = ''planning'' \<or> in_Mode inp = ''execute'' \<and> s_Status r = ''executing''"
      using claim c by (auto simp: claim_ok_def)
    moreover have "s_PlanRetryNo c = s_PlanRetryNo r" "s_DeliverableRetryNo c = s_DeliverableRetryNo r" using c by auto
    ultimately show ?thesis
      using local_approval [OF loc in_as] by (auto simp: approval_ok_def past_plan_def commit_kind_def commit_retry_def)
  qed
  have run: "running t ?A ?S ?tx" by (rule running_start [OF env log t(1)])
  have lock: "LockTask (t_ID t) ?tx = Inr (t, ?tx)" using GetTask_of [OF shape t(1)] by (simp add: LockTask_Inr)
  have s: "s_ID ?s \<in> set ?S" using r(1) r(2) [symmetric] by simp
  have announce: "succeeds (commit_announce (t_ID t) ?s inp (commit_retry c inp) res did) tx (\<lambda>_ tx'. \<exists>A'. running t A' ?S tx')"
    if "running t ?A ?S tx" for did tx
    using that commit_approval_succeeds [OF that s, of "commit_kind inp" "commit_retry c inp" res did] free
      Emit_runs [OF that]
    by (auto simp: commit_announce_def)
  have rest: "succeeds (bindT (commit_announce (t_ID t) ?s inp (commit_retry c inp) res did) (\<lambda>_. deriveTx t)) tx (\<lambda>_ _. True)"
    if "running t ?A ?S tx" for did tx
  proof (rule succeeds_bind, rule succeeds_conseq [OF announce [OF that]], elim exE)
    fix v tx' A' assume "running t A' ?S tx'"
    from succeeds_conseq [OF deriveTx_succeeds [OF this stat]] show "succeeds (deriveTx t) tx' (\<lambda>_ _. True)" by simp
  qed
  have body: "succeeds (bindT (UpdateStage ?s (s_Status c)) (\<lambda>_.
      bindT (if in_Mode inp = ''execute'' then commit_deliverable (t_ID t) ?s res else retT []) (\<lambda>did.
      bindT (commit_announce (t_ID t) ?s inp (commit_retry c inp) res did) (\<lambda>_. deriveTx t)))) ?tx (\<lambda>_ _. True)"
  proof (rule succeeds_bind, rule succeeds_conseq [OF UpdateStage_succeeds [OF run dist _ match commit_stage_static(4)]])
    show "r \<in> set (db_stages (tx_db ?tx))" using r(1) by simp
    fix v tx assume "running t ?A ?S tx \<and> db_deliverables (tx_db tx) = db_deliverables (tx_db ?tx) \<and>
      db_tasks (tx_db tx) = db_tasks (tx_db ?tx)"
    then have run1: "running t ?A ?S tx" by simp
    show "succeeds (bindT (if in_Mode inp = ''execute'' then commit_deliverable (t_ID t) ?s res else retT []) (\<lambda>did.
      bindT (commit_announce (t_ID t) ?s inp (commit_retry c inp) res did) (\<lambda>_. deriveTx t))) tx (\<lambda>_ _. True)"
      using rest run1 succeeds_conseq [OF commit_deliverable_succeeds [OF run1 s] rest]
      by (intro succeeds_bind) auto
  qed
  have "succeeds (commit_tx (t_ID t) c inp res) ?tx (\<lambda>_ _. True)"
    unfolding commit_tx_def Let_def by (rule succeeds_step, rule lock) (use body t(2) in simp)
  note this [THEN WithTx_succeeds [rotated 2]]
  moreover have "e_begin env = None" "e_commit env = None" using env by (simp_all add: fresh_env_def)
  ultimately show ?thesis by auto
qed

section \<open>Deciding\<close>

lemma DecideApproval_succeeds:
  assumes run: "running t A S tx" and dist: "distinct (map a_ID A)" and a: "a \<in> set A" "a_Status a = ''pending''"
  shows "\<exists>tx'. DecideApproval (a_ID a) st f e u (a_Version a) tx = Inr (1, tx') \<and>
     db_stages (tx_db tx') = db_stages (tx_db tx) \<and> db_deliverables (tx_db tx') = db_deliverables (tx_db tx) \<and>
     (\<exists>A'. running t A' S tx' \<and> distinct (map a_ID A') \<and> (\<exists>b\<in>set A'. a_ID b = a_ID a \<and> a_Status b = st))"
proof -
  let ?P = "\<lambda>b. a_ID b = a_ID a \<and> a_Status b = ''pending'' \<and> a_Version b = a_Version a"
  let ?f = "decision_write st f e u (e_now (tx_env tx))" and ?as = "db_approvals (tx_db tx)"
  have A: "?as = A" by (rule running_approvals [OF run])
  have n: "length (filter ?P ?as) = 1"
    using length_filter_key [OF dist, of "a_ID a" "\<lambda>b. a_Status b = ''pending'' \<and> a_Version b = a_Version a"] a A by auto
  have ids: "map a_ID (update_where ?P ?f A) = map a_ID A" by (simp add: map_update_where)
  define tx' where "tx' = tx\<lparr>tx_db := (tx_db tx)\<lparr>db_approvals := update_where ?P ?f ?as\<rparr>\<rparr>"
  have ok: "DecideApproval (a_ID a) st f e u (a_Version a) tx = Inr (1, tx')"
    unfolding DecideApproval_Inr Let_def tx'_def n by simp
  have "a_ID ` set (update_where ?P ?f A) = a_ID ` set A" using ids by (metis set_map)
  then have "running t (update_where ?P ?f A) S tx'"
    by (intro running_frame [OF run]) (use run A in \<open>simp_all add: tx'_def running_def\<close>)
  moreover have "?f a \<in> set (update_where ?P ?f A)" using a by (force simp: set_update_where)
  then have "\<exists>b\<in>set (update_where ?P ?f A). a_ID b = a_ID a \<and> a_Status b = st" by (rule bexI [rotated]) simp
  ultimately show ?thesis using ok ids dist by (auto simp: tx'_def)
qed

lemma sort_key_Nil: "sort_key f xs = [] \<longleftrightarrow> xs = []"
  by (metis length_0_conv length_sort)

lemma LatestDeliverable_exists: "has_deliverable (db_deliverables d) sid \<Longrightarrow> \<exists>x. LatestDeliverableID d sid = Inr x"
  by (auto simp: LatestDeliverableID_def first_row_def has_deliverable_def sort_key_Nil filter_empty_conv split: list.splits)

lemma decide_events_succeeds:
  assumes run: "running t A S tx"
    and dv: "s_Status st = ''approved'' \<Longrightarrow> has_deliverable (db_deliverables (tx_db tx)) (s_ID st)"
  shows "succeeds (decide_events t st a) tx (\<lambda>_ tx'. running t A S tx')"
proof -
  have fin: "succeeds (whenT (s_Status st = ''approved'')
       (bindT (readT (\<lambda>db. LatestDeliverableID db (s_ID st))) (\<lambda>did.
          Emit (t_ID t) (s_StageKey st) (s_Role st) ''stage.completed''
            (JObj [(''deliverable_ref'', jopt (s_DeliverableRef st)), (''deliverable_id'', JStr did)])))) tx (\<lambda>_ tx'. running t A S tx')"
    if "s_Status st = ''approved'' \<or> s_Status st \<noteq> ''blocked''"
  proof (rule succeeds_when)
    assume "s_Status st = ''approved''"
    then obtain x where "LatestDeliverableID (tx_db tx) (s_ID st) = Inr x" using LatestDeliverable_exists dv by blast
    then show "succeeds (bindT (readT (\<lambda>db. LatestDeliverableID db (s_ID st))) (\<lambda>did.
          Emit (t_ID t) (s_StageKey st) (s_Role st) ''stage.completed''
            (JObj [(''deliverable_ref'', jopt (s_DeliverableRef st)), (''deliverable_id'', JStr did)]))) tx (\<lambda>_ tx'. running t A S tx')"
      by (intro succeeds_bind succeeds_read) (auto intro: succeeds_conseq [OF Emit_succeeds [OF run]])
  qed (rule run)
  show ?thesis
  proof (cases "s_Status st = ''blocked''")
    case True
    then show ?thesis
      unfolding decide_events_def
      by (simp add: whenT_def) (rule succeeds_bind, rule succeeds_conseq [OF Emit_succeeds [OF run]], simp)
  next
    case False
    with fin show ?thesis unfolding decide_events_def by (simp add: whenT_def [of False] bindT_ret)
  qed
qed

lemma distinct_Reader_Stages: "distinct (map s_ID (db_stages d)) \<Longrightarrow> distinct (map s_ID (Reader_Stages d rid))"
proof -
  assume "distinct (map s_ID (db_stages d))"
  then have "distinct (map s_ID (filter (\<lambda>s. s_TaskID s = rid) (db_stages d)))" by (rule distinct_map_filter)
  then have "distinct (map s_ID (sort_key s_StageKey (filter (\<lambda>s. s_TaskID s = rid) (db_stages d))))"
    unfolding distinct_map by simp
  then show ?thesis by (simp add: Reader_Stages_def ListStages_def comp_def)
qed

lemma decide_succeeds:
  assumes inv: "db_inv d" and a: "a \<in> set (db_approvals d)" "a_Status a = ''pending''"
    and t: "t \<in> set (db_tasks d)" "t_ID t = a_TaskID a" "\<not> Terminal (t_Status t)"
    and valid: "ValidateDecision (ToLower (rq_Decision r)) (rq_Feedback r) (rq_EditedContent r) = Inr ()"
    and env: "fresh_env env d"
  shows "\<exists>v d' hs. UpdateApproval env d d (a_ID a) r user = (Inr v, d', hs) \<and>
     dr_ID v = a_ID a \<and> dr_Status v = decision_status (ToLower (rq_Decision r))"
proof -
  let ?tx = "begin_tx env d" and ?A = "db_approvals d" and ?S = "map s_ID (db_stages d)"
  let ?dec = "ToLower (rq_Decision r)" and ?fb = "rq_Feedback r" and ?ed = "rq_EditedContent r"
  have sinv: "stage_inv d" and log: "event_log d" and stat: "t_Status t \<in> set task_statuses"
    using inv t(1) by (auto simp: db_inv_def status_ok_def)
  have shape: "shape d" using sinv by (simp add: stage_inv_def)
  then have dist: "distinct ?S" "distinct (map a_ID ?A)" by (simp_all add: shape_def)
  obtain row where row: "row \<in> set (db_stages d)" "s_ID row = a_StageID a" "s_TaskID row = a_TaskID a"
    using shape a(1) unfolding shape_def by blast
  have loc: "stage_local (gate d row) (approvals_of ?A (s_ID row)) (has_deliverable (db_deliverables d) (s_ID row)) row"
    by (rule stage_inv_local [OF sinv row(1)])
  have in_as: "a \<in> set (approvals_of ?A (s_ID row))" using a row(2) by (simp add: approvals_of_def)
  note ok = local_approval [OF loc in_as]
  have kind: "a_Kind a = ''plan'' \<or> a_Kind a = ''deliverable''" using ok by blast
  have review: "s_Status row = a_Kind a @ ''_review''" using ok a(2) unfolding approval_ok_def by auto
  let ?old = "StageEntity.truncate row" and ?m = "MaxRetries (pl_Policy (UnmarshalPipeline (t_Pipeline t) zero_Pipeline))"
  obtain st where st: "Decide ?old (a_Kind a) ?dec ?fb ?ed ?m = Inr st"
    using Decide_ok_iff [of ?old "a_Kind a" ?dec ?fb ?ed ?m] valid review by auto
  note frame = Decide_frame [OF st]
  have match: "stage_match st (s_Status ?old) row" using frame by (simp add: stage_match_def)
  have status: "s_Status st \<in> set stage_statuses"
    using kind Decide_plan [of ?old ?dec ?fb ?ed ?m st] Decide_deliverable [of ?old ?dec ?fb ?ed ?m st] st
    by (auto simp: stage_statuses_def split: if_splits)
  have dv: "has_deliverable (db_deliverables d) (s_ID st)" if "s_Status st = ''approved''"
  proof -
    have "a_Kind a = ''deliverable''" using kind that Decide_plan(3) [of ?old ?dec ?fb ?ed ?m st] st by (auto split: if_splits)
    then show ?thesis using loc review frame(1) by (simp add: stage_local_def)
  qed
  have run: "running t ?A ?S ?tx" by (rule running_start [OF env log t(1)])
  have lock: "LockTask (a_TaskID a) ?tx = Inr (t, ?tx)" using GetTask_of [OF shape t(1)] t(2) by (simp add: LockTask_Inr)
  obtain tx1 A' b where dec: "DecideApproval (a_ID a) (decision_status ?dec) ?fb ?ed user (a_Version a) ?tx = Inr (1, tx1)"
    and same: "db_stages (tx_db tx1) = db_stages d" "db_deliverables (tx_db tx1) = db_deliverables d"
    and run1: "running t A' ?S tx1" and b: "distinct (map a_ID A')" "b \<in> set A'" "a_ID b = a_ID a" "a_Status b = decision_status ?dec"
    using DecideApproval_succeeds [OF run dist(2) a(1,2), of "decision_status ?dec" ?fb ?ed user] by auto
  have "?old \<in> set (Reader_Stages (tx_db tx1) (t_ID t))" using row t(2) same(1) by (auto simp: set_Reader_Stages)
  moreover have "distinct (map s_ID (Reader_Stages (tx_db tx1) (t_ID t)))"
    by (rule distinct_Reader_Stages) (simp add: dist(1) same(1))
  ultimately have find: "FindStage (Reader_Stages (tx_db tx1) (t_ID t)) (a_StageID a) = Inr ?old"
    using FindStage_key row(2) by auto
  have up: "succeeds (UpdateStage st (s_Status ?old)) tx1 (\<lambda>_ tx'. running t A' ?S tx' \<and>
      db_deliverables (tx_db tx') = db_deliverables (tx_db tx1) \<and> db_tasks (tx_db tx') = db_tasks (tx_db tx1))"
    by (rule UpdateStage_succeeds [OF run1 dist(1) _ match status]) (use row(1) same(1) in simp)
  have final: "succeeds (bindT (readT (\<lambda>db. Reader_Approval db (a_ID a))) (\<lambda>decided.
      bindT (AfterCommit (WakeTask (t_ID t))) (\<lambda>_.
        retT \<lparr>dr_ID = a_ID decided, dr_Status = a_Status decided, dr_DecidedAt = a_DecidedAt decided,
          dr_DecidedVia = a_DecidedVia decided\<rparr>))) tx (\<lambda>v _. dr_ID v = a_ID a \<and> dr_Status v = decision_status ?dec)"
    if "db_approvals (tx_db tx) = A'" for tx
  proof -
    have "Reader_Approval (tx_db tx) (a_ID a) = Inr b"
      using first_row_key [OF b(1)] b(2,3) that by (simp add: Reader_Approval_def GetApproval_def)
    then show ?thesis by (intro succeeds_bind succeeds_read) (auto simp: b intro!: succeeds_bind)
  qed
  have rest: "succeeds (bindT (Emit (t_ID t) (s_StageKey st) (s_Role st) ''approval.decided''
        (decided_payload (a_ID a) a ?dec ?fb ?ed user)) (\<lambda>_. bindT (decide_events t st a) (\<lambda>_. bindT (decide_derive t) (\<lambda>_.
      bindT (readT (\<lambda>db. Reader_Approval db (a_ID a))) (\<lambda>decided. bindT (AfterCommit (WakeTask (t_ID t))) (\<lambda>_.
        retT \<lparr>dr_ID = a_ID decided, dr_Status = a_Status decided, dr_DecidedAt = a_DecidedAt decided,
          dr_DecidedVia = a_DecidedVia decided\<rparr>)))))) tx (\<lambda>v _. dr_ID v = a_ID a \<and> dr_Status v = decision_status ?dec)"
    if tx: "running t A' ?S tx" "db_deliverables (tx_db tx) = db_deliverables d" for tx
  proof (rule succeeds_bind, rule succeeds_conseq [OF Emit_succeeds [OF tx(1)]], elim conjE, rule succeeds_bind)
    fix v tx' assume run': "running t A' ?S tx'" and only: "only_log (tx_db tx) (tx_db tx')"
    have "db_deliverables (tx_db tx') = db_deliverables d" using only tx(2) by (simp add: only_log_def)
    then have ev: "succeeds (decide_events t st a) tx' (\<lambda>_ tx'. running t A' ?S tx')"
      using decide_events_succeeds [OF run'] dv by simp
    show "succeeds (decide_events t st a) tx' (\<lambda>_ tx'. succeeds (bindT (decide_derive t) (\<lambda>_.
      bindT (readT (\<lambda>db. Reader_Approval db (a_ID a))) (\<lambda>decided. bindT (AfterCommit (WakeTask (t_ID t))) (\<lambda>_.
        retT \<lparr>dr_ID = a_ID decided, dr_Status = a_Status decided, dr_DecidedAt = a_DecidedAt decided,
          dr_DecidedVia = a_DecidedVia decided\<rparr>)))) tx' (\<lambda>v _. dr_ID v = a_ID a \<and> dr_Status v = decision_status ?dec))"
      by (rule succeeds_conseq [OF ev], rule succeeds_bind, unfold decide_derive_deriveTx)
        (erule succeeds_conseq [OF deriveTx_succeeds [OF _ stat]], erule final)
  qed
  have "succeeds (UpdateApproval_tx (a_ID a) a ?dec ?fb ?ed user) ?tx
      (\<lambda>v _. dr_ID v = a_ID a \<and> dr_Status v = decision_status ?dec)"
    unfolding UpdateApproval_tx_def Let_def
  proof (rule succeeds_step, rule lock, rule succeeds_step, rule dec, simp only: if_False refl not_True_eq_False t(3))
    show "succeeds (bindT (readT (\<lambda>db. FindStage (Reader_Stages db (t_ID t)) (a_StageID a))) (\<lambda>old.
       bindT (liftT (Decide old (a_Kind a) ?dec ?fb ?ed ?m)) (\<lambda>st.
            bindT (UpdateStage st (s_Status old)) (\<lambda>_.
            bindT (Emit (t_ID t) (s_StageKey st) (s_Role st) ''approval.decided''
                (decided_payload (a_ID a) a ?dec ?fb ?ed user)) (\<lambda>_.
            bindT (decide_events t st a) (\<lambda>_.
            bindT (decide_derive t) (\<lambda>_.
            bindT (readT (\<lambda>db. Reader_Approval db (a_ID a))) (\<lambda>decided.
            bindT (AfterCommit (WakeTask (t_ID t))) (\<lambda>_.
              retT \<lparr>dr_ID = a_ID decided, dr_Status = a_Status decided, dr_DecidedAt = a_DecidedAt decided,
                dr_DecidedVia = a_DecidedVia decided\<rparr>))))))))) tx1 (\<lambda>v _. dr_ID v = a_ID a \<and> dr_Status v = decision_status ?dec)"
      by (rule succeeds_bind, rule succeeds_read, rule find, rule succeeds_bind, rule succeeds_lift [OF st], rule succeeds_bind)
        (rule succeeds_conseq [OF up], elim conjE, erule rest, simp add: same(2))
  qed
  note this [THEN WithTx_succeeds [rotated 2]]
  moreover have "e_begin env = None" "e_commit env = None" using env by (simp_all add: fresh_env_def)
  ultimately obtain v and tx' :: Tx where
    "WithTx env (UpdateApproval_tx (a_ID a) a ?dec ?fb ?ed user) d = (Inr v, tx_db tx', tx_after tx')"
    "dr_ID v = a_ID a" "dr_Status v = decision_status ?dec" by blast
  moreover have "Reader_Approval d (a_ID a) = Inr a"
    using first_row_key [OF dist(2)] a(1) by (simp add: Reader_Approval_def GetApproval_def)
  ultimately show ?thesis by (simp add: UpdateApproval_def Let_def valid)
qed

end
