(* ===== verification/Path_Resolve.thy ===== *)
theory Path_Resolve
  imports File_System
begin

text \<open>
  Symbolic links: \<open>filepath.EvalSymlinks\<close>, the way an \<open>os.Root\<close> follows links without leaving its
  directory, and \<open>pathguard.Resolve\<close>. An absolute path is the list of its components and the tree
  is the whole file system; \<open>Root.Name()\<close> is absolute, since workspaces are made below an
  absolute directory. Shown: what is resolved has no link on the way, a confined path stays below
  its root, and a path that \<open>Resolve\<close> has admitted either names a file stored under exactly that
  name or cannot be opened.
\<close>

section \<open>Following links\<close>

definition escapes :: err where
  "escapes = Errorf ''path escapes from parent''"

text \<open>
  One walk for both: \<open>below\<close> is the directory of an \<open>os.Root\<close>, \<open>None\<close> for \<open>EvalSymlinks\<close>; \<open>links\<close> is
  the number of links that may still be followed; with \<open>create\<close> the last component may be missing.
  \<open>dest\<close> has been resolved. An empty component and \<open>.\<close> stay.
\<close>

fun follow :: "string list option \<Rightarrow> bool \<Rightarrow> nat \<Rightarrow> node \<Rightarrow> string list \<Rightarrow> string list \<Rightarrow> string list result" where
  "follow below create links fs dest [] = Inr dest"
| "follow below create links fs dest (p # ps) =
     (if p = [] \<or> p = ''.'' then follow below create links fs dest ps
      else if p = ''..'' then
        (if below = Some dest then Inl escapes else follow below create links fs (butlast dest) ps)
      else case Lstat fs (dest @ [p]) of
          Inl e \<Rightarrow> if e = ErrNotExist \<and> create \<and> ps = [] then Inr (dest @ [p]) else Inl e
        | Inr (Lnk l) \<Rightarrow>
            (case links of 0 \<Rightarrow> Inl (Errorf ''too many links'')
             | Suc k \<Rightarrow>
                 if \<not> IsAbs l then follow below create k fs dest (Split l slash @ ps)
                 else if below = None then follow below create k fs [] (Split l slash @ ps)
                 else Inl escapes)
        | Inr (Dir es) \<Rightarrow> follow below create links fs (dest @ [p]) ps
        | Inr (Reg c) \<Rightarrow> if ps = [] then Inr (dest @ [p]) else Inl (Errorf ''not a directory''))"

definition EvalSymlinks :: "node \<Rightarrow> string list \<Rightarrow> string list result" where
  "EvalSymlinks fs path = follow None False 255 fs [] path"

text \<open>\<open>os.Root\<close> follows at most 8 links.\<close>

definition root_path :: "node \<Rightarrow> string list \<Rightarrow> bool \<Rightarrow> string \<Rightarrow> string list result" where
  "root_path fs base create name = follow (Some base) create 8 fs base (Split name slash)"

section \<open>Resolve\<close>

text \<open>The loop that goes up to the first ancestor that exists; the components left out come back.\<close>

function resolve_up :: "node \<Rightarrow> string list \<Rightarrow> string list \<Rightarrow> string list result" where
  "resolve_up fs target left =
     (case EvalSymlinks fs target of
        Inr r \<Rightarrow> Inr (r @ left)
      | Inl e \<Rightarrow>
          if e \<noteq> ErrNotExist \<or> target = [] then Inl e
          else resolve_up fs (butlast target) (last target # left))"
  by pat_completeness auto
termination
  by (relation "measure (\<lambda>(fs, target, left). length target)") auto

declare resolve_up.simps [simp del]

text \<open>\<open>filepath.Rel\<close> of two absolute paths.\<close>

definition Rel :: "string list \<Rightarrow> string list \<Rightarrow> string" where
  "Rel base target =
     (let n = length (longest_common_prefix base target);
          parts = replicate (length base - n) ''..'' @ drop n target
      in if parts = [] then ''.'' else Join parts ''/'')"

definition Resolve :: "node \<Rightarrow> string list \<Rightarrow> string \<Rightarrow> string result" where
  "Resolve fs root name =
     (if \<not> SafeRelative name \<or> Protected name then Inl (Errorf (''protected or invalid path: '' @ name))
      else bindR (EvalSymlinks fs root) (\<lambda>base.
           bindR (resolve_up fs (clean_parts True base (Split name slash)) []) (\<lambda>target.
             let rel = Rel base target
             in if \<not> SafeRelative rel \<or> Protected rel
                then Inl (Errorf (''resolved path is outside allowed workspace: '' @ name)) else Inr rel)))"

section \<open>Resolved paths\<close>

definition ordinary :: "string \<Rightarrow> bool" where
  "ordinary p \<longleftrightarrow> p \<noteq> [] \<and> p \<noteq> ''.'' \<and> p \<noteq> ''..'' \<and> slash \<notin> set p"

definition is_link :: "node \<Rightarrow> bool" where
  "is_link n \<longleftrightarrow> (\<exists>l. n = Lnk l)"

text \<open>A path that exists and holds no link.\<close>

definition canonical :: "node \<Rightarrow> string list \<Rightarrow> bool" where
  "canonical fs path \<longleftrightarrow> list_all ordinary path \<and> (\<forall>q. prefix q path \<longrightarrow> (\<exists>n. Lstat fs q = Inr n \<and> \<not> is_link n))"

lemma canonical_Nil: "\<not> is_link fs \<Longrightarrow> canonical fs []"
  by (simp add: canonical_def)

lemma canonical_prefix: "canonical fs path \<Longrightarrow> prefix q path \<Longrightarrow> canonical fs q"
  unfolding canonical_def by (auto simp: prefix_def)

lemma canonical_snoc:
  "canonical fs (d @ [p]) \<longleftrightarrow> canonical fs d \<and> ordinary p \<and> (\<exists>n. Lstat fs (d @ [p]) = Inr n \<and> \<not> is_link n)"
  unfolding canonical_def by (auto simp: prefix_snoc)

lemma Lstat_prefix: "Lstat fs path = Inr n \<Longrightarrow> strict_prefix q path \<Longrightarrow> \<exists>es. Lstat fs q = Inr (Dir es)"
proof -
  assume n: "Lstat fs path = Inr n" and "strict_prefix q path"
  then obtain p ps where "path = q @ p # ps" by (auto elim: strict_prefixE')
  with n obtain m where m: "Lstat fs q = Inr m" "Lstat m (p # ps) = Inr n" by (auto simp: Lstat_append bindR_eq_Inr)
  then show ?thesis by (cases m) auto
qed

lemma canonical_Lstat: "Lstat fs path = Inr n \<Longrightarrow> \<not> is_link n \<Longrightarrow> list_all ordinary path \<Longrightarrow> canonical fs path"
  unfolding canonical_def using Lstat_prefix [of fs path n]
  by (metis is_link_def node.distinct(5) strict_prefix_def)

text \<open>Where a walk ends.\<close>

abbreviation no_slash :: "string list \<Rightarrow> bool" where
  "no_slash ps \<equiv> list_all (\<lambda>p. slash \<notin> set p) ps"

lemma no_slash_Split [simp]: "no_slash (Split s slash)"
  using Split_no_sep by (fastforce simp: list_all_iff)

lemma canonical_butlast: "canonical fs d \<Longrightarrow> canonical fs (butlast d)"
  using canonical_prefix prefixeq_butlast by blast

lemma follow_canonical:
  "follow below False k fs dest ps = Inr r \<Longrightarrow> canonical fs dest \<Longrightarrow> \<not> is_link fs \<Longrightarrow> no_slash ps \<Longrightarrow> canonical fs r"
proof (induction below "False" k fs dest ps rule: follow.induct)
  case (2 below k fs dest p ps)
  consider "p = [] \<or> p = ''.''" | "p = ''..''" | "ordinary p" using "2.prems"(4) by (auto simp: ordinary_def)
  then show ?case
  proof cases
    case 1
    with 2 show ?thesis by auto
  next
    case 2
    with "2.prems" "2.hyps"(2) canonical_butlast show ?thesis by (auto split: if_splits)
  next
    case 3
    then have p: "p \<noteq> []" "p \<noteq> ''.''" "p \<noteq> ''..''" by (auto simp: ordinary_def)
    show ?thesis
    proof (cases "Lstat fs (dest @ [p])")
      case (Inl e)
      with "2.prems"(1) p show ?thesis by simp
    next
      case (Inr n)
      show ?thesis
      proof (cases n)
        case (Reg c)
        with "2.prems" p Inr 3 show ?thesis by (auto simp: canonical_snoc is_link_def split: if_splits)
      next
        case (Lnk l)
        with "2.prems" p Inr obtain k' where k: "k = Suc k'" by (auto split: nat.splits)
        show ?thesis
          using "2.prems" p Inr Lnk k "2.hyps"(3,4) [of _ l k'] canonical_Nil [of fs] by (auto split: if_splits)
      next
        case (Dir es)
        with "2.prems" p Inr 3 "2.hyps"(5) show ?thesis by (auto simp: canonical_snoc is_link_def)
      qed
    qed
  qed
qed simp

lemma follow_confined:
  "follow (Some base) create k fs dest ps = Inr r \<Longrightarrow> prefix base dest \<Longrightarrow> prefix base r"
proof (induction "Some base" create k fs dest ps rule: follow.induct)
  case (2 create k fs dest p ps)
  have up: "prefix base (butlast dest)" if "base \<noteq> dest"
    using "2.prems"(2) that by (cases dest rule: rev_cases) (auto simp: prefix_snoc)
  from 2 up show ?case by (auto split: if_splits sum.splits node.splits nat.splits)
qed simp

text \<open>A walk along a resolved path.\<close>

lemma follow_through:
  "canonical fs (dest @ pre) \<Longrightarrow> follow below create k fs dest (pre @ qs) =
     (if qs = [] \<or> pre = [] \<or> (\<exists>es. Lstat fs (dest @ pre) = Inr (Dir es)) then follow below create k fs (dest @ pre) qs
      else Inl (Errorf ''not a directory''))"
proof (induction pre arbitrary: dest)
  case (Cons p pre)
  have p: "p \<noteq> []" "p \<noteq> ''.''" "p \<noteq> ''..''" using Cons.prems by (auto simp: canonical_def ordinary_def)
  have "prefix (dest @ [p]) (dest @ p # pre)" by simp
  then obtain n where n: "Lstat fs (dest @ [p]) = Inr n" "\<not> is_link n" using Cons.prems unfolding canonical_def by blast
  show ?case
  proof (cases n)
    case (Reg c)
    have "pre = []"
    proof (rule ccontr)
      assume "pre \<noteq> []"
      moreover obtain m where "Lstat fs (dest @ p # pre) = Inr m" using Cons.prems unfolding canonical_def by blast
      ultimately show False using n Reg Lstat_prefix [of fs "dest @ p # pre" m "dest @ [p]"] by (auto simp: strict_prefix_def)
    qed
    with Reg n p show ?thesis by simp
  next
    case (Dir es)
    with Cons.IH [of "dest @ [p]"] Cons.prems n p show ?thesis by auto
  qed (use n in \<open>simp add: is_link_def\<close>)
qed simp

text \<open>A path that is missing stays missing when it is longer, and an \<open>os.Root\<close> does not find it either.\<close>

lemma follow_missing:
  "follow None False k fs d ps = Inl ErrNotExist \<Longrightarrow> \<exists>e. follow (Some b) False j fs d (ps @ qs) = Inl e"
proof (induction "None :: string list option" "False" k fs d ps arbitrary: j rule: follow.induct)
  case (2 k fs d p ps)
  consider "p = [] \<or> p = ''.''" | "p = ''..''" | "p \<noteq> []" "p \<noteq> ''.''" "p \<noteq> ''..''" by blast
  then show ?case
  proof cases
    case 3
    show ?thesis
    proof (cases "Lstat fs (d @ [p])")
      case (Inr n)
      show ?thesis
      proof (cases n)
        case (Lnk l)
        with "2.prems" 3 Inr obtain k' where k: "k = Suc k'" by (auto split: nat.splits)
        show ?thesis using "2.prems" 3 Inr Lnk k "2.hyps"(3) [of _ l k'] by (cases j) (auto split: if_splits)
      qed (use "2.prems" 3 Inr "2.hyps"(5) in \<open>auto split: if_splits\<close>)
    qed (use 3 in simp)
  qed (use "2.prems" "2.hyps"(1,2) in auto)
qed simp

lemma follow_snoc:
  "follow None False k fs d ps = Inr r \<Longrightarrow> ordinary s \<Longrightarrow> follow None False k fs d (ps @ [s]) = Inl ErrNotExist \<Longrightarrow>
     \<exists>k'. follow None False k' fs r [s] = Inl ErrNotExist"
proof (induction "None :: string list option" "False" k fs d ps rule: follow.induct)
  case (2 k fs d p ps)
  consider "p = [] \<or> p = ''.''" | "p = ''..''" | "p \<noteq> []" "p \<noteq> ''.''" "p \<noteq> ''..''" by blast
  then show ?case
  proof cases
    case 3
    show ?thesis
    proof (cases "Lstat fs (d @ [p])")
      case (Inr n)
      show ?thesis
      proof (cases n)
        case (Lnk l)
        with "2.prems" 3 Inr obtain k' where k: "k = Suc k'" by (auto split: nat.splits)
        show ?thesis using "2.prems" 3 Inr Lnk k "2.hyps"(3,4) [of _ l k'] by (auto split: if_splits)
      qed (use "2.prems" 3 Inr "2.hyps"(5) in \<open>auto split: if_splits\<close>)
    qed (use "2.prems" 3 in simp)
  qed (use "2.prems" "2.hyps"(1,2) in auto)
next
  case (1 k fs d)
  then show ?case by (metis append_Nil follow.simps(1) sum.inject(2))
qed

section \<open>What Resolve returns\<close>

text \<open>
  The loop ends at a resolved path with some components put back: none of them when the target
  exists, and otherwise the first one is missing, or a link that leads nowhere.
\<close>

lemma resolve_up_Inr:
  assumes "resolve_up fs target left = Inr out"
    and "\<not> is_link fs" "list_all ordinary target"
    and "list_all ordinary left" "left = [] \<or> EvalSymlinks fs (target @ [hd left]) = Inl ErrNotExist"
  shows "\<exists>r gone. out = r @ gone \<and> canonical fs r \<and> list_all ordinary gone \<and>
    (gone = [] \<or> (\<exists>k. follow None False k fs r [hd gone] = Inl ErrNotExist))"
  using assms
proof (induction fs target left rule: resolve_up.induct)
  case (1 fs target left)
  have ns: "no_slash target" using "1.prems"(3) by (auto simp: list_all_iff ordinary_def)
  show ?case
  proof (cases "EvalSymlinks fs target")
    case (Inr r)
    then have out: "out = r @ left" using "1.prems"(1) by (simp add: resolve_up.simps [of fs target])
    have "canonical fs r"
      using follow_canonical [OF Inr [unfolded EvalSymlinks_def] canonical_Nil] "1.prems"(2) ns by blast
    moreover have "left = [] \<or> (\<exists>k. follow None False k fs r [hd left] = Inl ErrNotExist)"
      using "1.prems"(4,5) follow_snoc Inr unfolding EvalSymlinks_def by (cases left) auto
    ultimately show ?thesis using out "1.prems"(4) by blast
  next
    case (Inl e)
    then have e: "e = ErrNotExist" "target \<noteq> []"
      and rest: "resolve_up fs (butlast target) (last target # left) = Inr out"
      using "1.prems"(1) by (auto simp: resolve_up.simps [of fs target] split: if_splits)
    have "list_all ordinary (butlast target)" "ordinary (last target)"
      using "1.prems"(3) e(2) by (auto simp: list_all_iff dest: in_set_butlastD)
    moreover have "EvalSymlinks fs (butlast target @ [last target]) = Inl ErrNotExist" using Inl e by simp
    ultimately show ?thesis using "1.IH" [OF Inl _ rest] e "1.prems"(2,4) by simp
  qed
qed

lemma clean_parts_ordinary:
  "list_all (\<lambda>p. p \<noteq> ''..'') ps \<Longrightarrow> clean_parts rooted acc ps = acc @ filter (\<lambda>p. p \<noteq> [] \<and> p \<noteq> ''.'') ps"
  by (induction rooted acc ps rule: clean_parts.induct) auto

text \<open>A relative path without traversal comes from a target below the base.\<close>

lemma Split_Join:
  "ps \<noteq> [] \<Longrightarrow> no_slash ps \<Longrightarrow> Split (Join ps ''/'') slash = ps"
proof (induction ps)
  case (Cons p ps)
  then show ?case by (cases ps) (auto simp: Split_append_sep Split_id)
qed simp

lemma Rel_safe:
  assumes "SafeRelative (Rel base target)" "no_slash target"
  shows "prefix base target"
proof (rule ccontr)
  assume np: "\<not> prefix base target"
  let ?l = "longest_common_prefix base target" and ?n = "length (longest_common_prefix base target)"
  let ?parts = "replicate (length base - ?n) ''..'' @ drop ?n target"
  have "prefix ?l base" "?l \<noteq> base"
    using np longest_common_prefix_prefix1 [of base target] longest_common_prefix_prefix2 [of base target] by auto
  then have "?n < length base" using prefix_length_less by (auto simp: strict_prefix_def)
  then obtain k where k: "length base - ?n = Suc k" by (metis Suc_diff_Suc)
  have ns: "no_slash ?parts" using assms(2) by (auto simp: list_all_iff dest: in_set_dropD)
  have "Split (Rel base target) slash = ?parts"
    using Split_Join [of ?parts] ns k by (auto simp: Rel_def Let_def)
  then have "''..'' \<in> set (Split (Rel base target) slash)" using k by simp
  then show False using assms(1) by (auto simp: SafeRelative_def list_all_iff)
qed

lemma Rel_below:
  assumes "list_all ordinary rest"
  shows "Split (Rel base (base @ rest)) slash = (if rest = [] then [''.''] else rest)"
proof -
  have "longest_common_prefix base (base @ rest) = base" by (induction base) auto
  then have rel: "Rel base (base @ rest) = (if rest = [] then ''.'' else Join rest ''/'')" by (simp add: Rel_def)
  have "no_slash rest" using assms by (auto simp: list_all_iff ordinary_def)
  with rel Split_Join [of rest] show ?thesis by simp
qed

text \<open>The parts of an admitted path, as a location below the base.\<close>

definition located :: "node \<Rightarrow> string list \<Rightarrow> string \<Rightarrow> string list \<Rightarrow> bool" where
  "located fs base rel rest \<longleftrightarrow> canonical fs base \<and> list_all ordinary rest \<and>
     Split rel slash = (if rest = [] then [''.''] else rest) \<and>
     (\<exists>pre gone. rest = pre @ gone \<and> canonical fs (base @ pre) \<and>
       (gone = [] \<or> (\<exists>k. follow None False k fs (base @ pre) [hd gone] = Inl ErrNotExist)))"

lemma Resolve_Inr:
  assumes ok: "Resolve fs root name = Inr rel" and fs: "\<not> is_link fs" and root: "no_slash root"
  obtains base rest where "EvalSymlinks fs root = Inr base" "located fs base rel rest" "SafeRelative rel" "\<not> Protected rel"
proof -
  from ok obtain base out where name: "SafeRelative name" and base: "EvalSymlinks fs root = Inr base"
    and up: "resolve_up fs (clean_parts True base (Split name slash)) [] = Inr out"
    and rel: "rel = Rel base out" "SafeRelative rel" "\<not> Protected rel"
    by (auto simp: Resolve_def bindR_eq_Inr Let_def split: if_splits)
  have cb: "canonical fs base"
    using follow_canonical [OF base [unfolded EvalSymlinks_def] canonical_Nil [OF fs] fs root] .
  have "list_all (\<lambda>p. p \<noteq> ''..'') (Split name slash)" using name by (simp add: SafeRelative_def)
  then have "list_all ordinary (clean_parts True base (Split name slash))"
    using cb no_slash_Split [of name] by (auto simp: clean_parts_ordinary canonical_def list_all_iff ordinary_def)
  from resolve_up_Inr [OF up fs this] obtain r gone where out: "out = r @ gone" "canonical fs r" "list_all ordinary gone"
    and miss: "gone = [] \<or> (\<exists>k. follow None False k fs r [hd gone] = Inl ErrNotExist)" by auto
  have ord: "list_all ordinary out" using out by (simp add: canonical_def)
  then have "no_slash out" by (auto simp: list_all_iff ordinary_def)
  with rel have "prefix base out" by (blast intro: Rel_safe)
  then obtain rest where rest: "out = base @ rest" by (auto simp: prefix_def)
  have "prefix base r"
  proof (rule ccontr)
    assume "\<not> prefix base r"
    then have "strict_prefix r base" using out(1) rest by (metis prefixI prefix_order.le_less prefix_same_cases)
    then obtain s more where b: "base = r @ s # more" by (auto elim: strict_prefixE')
    with out(1) rest have s: "gone \<noteq> []" "hd gone = s" by (auto simp: append_eq_append_conv2 append_eq_Cons_conv)
    have "canonical fs (r @ [s])" by (rule canonical_prefix [OF cb]) (simp add: b)
    from follow_through [of fs r "[s]" None False _ "[]", simplified, OF this] miss s show False by auto
  qed
  then obtain pre where pre: "r = base @ pre" by (auto simp: prefix_def)
  have "rest = pre @ gone" using out(1) rest pre by simp
  moreover have "list_all ordinary rest" using ord rest by simp
  ultimately have "located fs base rel rest"
    using cb out(2) miss pre Rel_below [of rest base] rel(1) rest unfolding located_def by blast
  with base rel that show thesis by blast
qed

text \<open>An \<open>os.Root\<close> opens nothing but the file stored under the admitted name.\<close>

lemma root_path_located:
  assumes loc: "located fs base rel rest" and ok: "root_path fs base False rel = Inr q"
  shows "q = base @ rest \<and> canonical fs q"
proof -
  from loc obtain pre gone where parts: "rest = pre @ gone" "canonical fs (base @ pre)"
    and miss: "gone = [] \<or> (\<exists>k. follow None False k fs (base @ pre) [hd gone] = Inl ErrNotExist)"
    unfolding located_def by blast
  have walk: "follow (Some base) False 8 fs base rest = Inr q"
    using ok loc unfolding root_path_def located_def by (cases "rest = []") simp_all
  show ?thesis
  proof (cases "gone = []")
    case True
    with walk parts follow_through [OF parts(2), of "Some base" False 8 "[]"] show ?thesis by simp
  next
    case False
    with miss obtain k where "follow None False k fs (base @ pre) [hd gone] = Inl ErrNotExist" by blast
    from follow_missing [OF this, of base 8 "tl gone"] False
    obtain e where "follow (Some base) False 8 fs (base @ pre) gone = Inl e" by auto
    with walk parts False follow_through [OF parts(2), of "Some base" False 8 gone] show ?thesis
      by (simp split: if_splits)
  qed
qed

end
