(* ===== verification/Limited_Output.thy ===== *)
theory Limited_Output
  imports Path_Guard
begin

text \<open>
  The bounded capture of a test command's output (\<open>limitedOutput\<close> of \<open>internal/tools/sandbox.go\<close>).
  The process writes its output in chunks that may split a rune; the bytes of an incomplete rune
  wait in \<open>pending\<close>. Shown: what is kept does not depend on how the output was cut into chunks, and
  it is the whole output decoded, or its first and its last 10000 runes.
\<close>

record limitedOutput =
  lo_head :: "nat list"
  lo_tail :: "nat list"
  lo_pending :: string
  lo_total :: nat

definition zero_output :: limitedOutput where
  "zero_output = \<lparr>lo_head = [], lo_tail = [], lo_pending = [], lo_total = 0\<rparr>"

text \<open>
  \<open>utf8.FullRune\<close>: the bytes begin with a complete encoding; bytes that cannot start one count as
  complete. The width a first byte announces is 1 when it is ASCII or invalid.
\<close>

definition rune_width :: "nat \<Rightarrow> nat" where
  "rune_width b0 = (if 0xC2 \<le> b0 \<and> b0 \<le> 0xDF then 2 else if 0xE0 \<le> b0 \<and> b0 \<le> 0xEF then 3
     else if 0xF0 \<le> b0 \<and> b0 \<le> 0xF4 then 4 else 1)"

definition accept_second :: "nat \<Rightarrow> nat \<Rightarrow> bool" where
  "accept_second b0 b1 \<longleftrightarrow>
     (if b0 = 0xE0 then 0xA0 else if b0 = 0xF0 then 0x90 else 0x80) \<le> b1 \<and>
     b1 \<le> (if b0 = 0xED then 0x9F else if b0 = 0xF4 then 0x8F else 0xBF)"

definition FullRune :: "string \<Rightarrow> bool" where
  "FullRune p = (case map of_char p of
      [] \<Rightarrow> False
    | b0 # bs \<Rightarrow>
        rune_width b0 \<le> length p
        \<or> (case bs of [] \<Rightarrow> False
           | b1 # cs \<Rightarrow> \<not> accept_second b0 b1 \<or> (case cs of [] \<Rightarrow> False | b2 # _ \<Rightarrow> \<not> utf8_cont b2)))"

text \<open>One turn of the loop keeps the rune it has decoded.\<close>

definition keep_rune :: "nat \<Rightarrow> limitedOutput \<Rightarrow> limitedOutput" where
  "keep_rune r b =
     (let b = b\<lparr>lo_total := lo_total b + 1\<rparr>
      in if length (lo_head b) < 10000 then b\<lparr>lo_head := lo_head b @ [r]\<rparr>
         else let t = lo_tail b @ [r]
              in b\<lparr>lo_tail := (if 10000 < length t then drop (length t - 10000) t else t)\<rparr>)"

function drain :: "limitedOutput \<Rightarrow> limitedOutput" where
  "drain b =
     (if lo_pending b = [] \<or> \<not> FullRune (lo_pending b) then b
      else let (r, n) = DecodeRune (lo_pending b)
           in drain (keep_rune r (b\<lparr>lo_pending := drop n (lo_pending b)\<rparr>)))"
  by pat_completeness auto
termination
proof (relation "measure (\<lambda>b. length (lo_pending b))", goal_cases)
  case (2 b x r n)
  then have "n = snd (DecodeRune (lo_pending b))" by (metis snd_conv)
  then have "0 < n" "lo_pending b \<noteq> []" using 2 DecodeRune_width [of "lo_pending b"] by auto
  then show ?case by (simp add: keep_rune_def Let_def)
qed simp

declare drain.simps [simp del]

definition Write_output :: "limitedOutput \<Rightarrow> string \<Rightarrow> limitedOutput" where
  "Write_output b p = drain (b\<lparr>lo_pending := lo_pending b @ p\<rparr>)"

definition String_output :: "limitedOutput \<Rightarrow> string" where
  "String_output b =
     concat (map EncodeRune (lo_head b)) @ (if 20000 < lo_total b then [CHR 0x0A] @ ''[truncated]'' @ [CHR 0x0A] else [])
     @ concat (map EncodeRune (lo_tail b)) @ lo_pending b"

section \<open>Chunks\<close>

lemma FullRune_append: "FullRune p \<Longrightarrow> DecodeRune (p @ q) = DecodeRune p"
proof -
  assume full: "FullRune p"
  then obtain c cs where p: "p = c # cs" by (cases p) (auto simp: FullRune_def)
  define b0 :: nat where "b0 = of_char c"
  consider "b0 < 0xC2 \<or> 0xF4 < b0" | "0xC2 \<le> b0" "b0 \<le> 0xDF" | "0xE0 \<le> b0" "b0 \<le> 0xEF" | "0xF0 \<le> b0" "b0 \<le> 0xF4"
    by linarith
  then show ?thesis
  proof cases
    case 1
    then show ?thesis by (auto simp: p DecodeRune_def b0_def [symmetric])
  next
    case 2
    with full show ?thesis
      by (cases cs) (simp_all add: p DecodeRune_def FullRune_def rune_width_def b0_def [symmetric])
  next
    case 3
    with full show ?thesis
      by (cases cs; cases "tl cs")
        (auto simp: p DecodeRune_def FullRune_def rune_width_def accept_second_def b0_def [symmetric] split: list.split if_splits)
  next
    case 4
    with full show ?thesis
      by (cases cs; cases "tl cs"; cases "tl (tl cs)")
        (auto simp: p DecodeRune_def FullRune_def rune_width_def accept_second_def b0_def [symmetric] split: list.split if_splits)
  qed
qed

lemma FullRune_more: "FullRune p \<Longrightarrow> FullRune (p @ q)"
  by (cases p; cases "tl p"; cases "tl (tl p)")
    (auto simp: FullRune_def split: list.splits)

text \<open>The complete runes of a text, and the bytes left over.\<close>

function full_runes :: "string \<Rightarrow> nat list \<times> string" where
  "full_runes s =
     (if \<not> FullRune s then ([], s)
      else let (r, n) = DecodeRune s; (rs, rest) = full_runes (drop n s) in (r # rs, rest))"
  by pat_completeness auto
termination
proof (relation "measure length", goal_cases)
  case (2 s x r n)
  then have "n = snd (DecodeRune s)" by (metis snd_conv)
  moreover have "s \<noteq> []" using 2 by (auto simp: FullRune_def)
  ultimately have "0 < n" using DecodeRune_width [of s] by auto
  with \<open>s \<noteq> []\<close> show ?case by simp
qed simp

declare full_runes.simps [simp del]

lemma FullRune_Nil [simp]: "\<not> FullRune []"
  by (simp add: FullRune_def)

lemma full_runes_short: "\<not> FullRune s \<Longrightarrow> full_runes s = ([], s)"
  by (simp add: full_runes.simps)

lemma full_runes_step:
  "FullRune s \<Longrightarrow> full_runes s = (fst (DecodeRune s) # fst (full_runes (drop (snd (DecodeRune s)) s)),
     snd (full_runes (drop (snd (DecodeRune s)) s)))"
  by (subst full_runes.simps) (simp add: case_prod_beta Let_def)

lemma full_runes_append:
  "full_runes (p @ q) = (fst (full_runes p) @ fst (full_runes (snd (full_runes p) @ q)), snd (full_runes (snd (full_runes p) @ q)))"
proof (induction p rule: full_runes.induct)
  case (1 p)
  show ?case
  proof (cases "FullRune p")
    case True
    let ?n = "snd (DecodeRune p)"
    have "?n \<le> length p" by (rule DecodeRune_width_le)
    moreover have "full_runes (drop ?n p @ q) = (fst (full_runes (drop ?n p)) @ fst (full_runes (snd (full_runes (drop ?n p)) @ q)),
        snd (full_runes (snd (full_runes (drop ?n p)) @ q)))"
      using "1.IH" [of "DecodeRune p" "fst (DecodeRune p)" ?n] True by simp
    ultimately show ?thesis
      using full_runes_step [OF True] full_runes_step [OF FullRune_more [OF True], of q] FullRune_append [OF True, of q] by simp
  qed (simp add: full_runes_short)
qed

lemma keep_rune_pending [simp]: "lo_pending (keep_rune r b) = lo_pending b" "lo_total (keep_rune r b) = lo_total b + 1"
  by (simp_all add: keep_rune_def Let_def)

lemma keep_rune_set: "keep_rune r (b\<lparr>lo_pending := p\<rparr>) = (keep_rune r b)\<lparr>lo_pending := p\<rparr>"
  by (simp add: keep_rune_def Let_def)

lemma fold_keep_set: "fold keep_rune rs (b\<lparr>lo_pending := p\<rparr>) = (fold keep_rune rs b)\<lparr>lo_pending := p\<rparr>"
  by (induction rs arbitrary: b) (simp_all add: keep_rune_set)

lemma drain_full:
  "drain b = (fold keep_rune (fst (full_runes (lo_pending b))) b)\<lparr>lo_pending := snd (full_runes (lo_pending b))\<rparr>"
proof (induction b rule: drain.induct)
  case (1 b)
  show ?case
  proof (cases "FullRune (lo_pending b)")
    case True
    let ?n = "snd (DecodeRune (lo_pending b))" and ?r = "fst (DecodeRune (lo_pending b))"
    have ne: "lo_pending b \<noteq> []" using True by auto
    have "drain b = drain (keep_rune ?r (b\<lparr>lo_pending := drop ?n (lo_pending b)\<rparr>))"
      using True ne by (subst drain.simps) (simp add: case_prod_beta)
    also have "\<dots> = (fold keep_rune (fst (full_runes (drop ?n (lo_pending b)))) (keep_rune ?r (b\<lparr>lo_pending := drop ?n (lo_pending b)\<rparr>)))
        \<lparr>lo_pending := snd (full_runes (drop ?n (lo_pending b)))\<rparr>"
      using "1.IH" [of "DecodeRune (lo_pending b)" ?r ?n] True ne by simp
    finally show ?thesis by (simp add: full_runes_step [OF True] keep_rune_set fold_keep_set)
  next
    case False
    then show ?thesis by (subst drain.simps) (simp add: full_runes_short)
  qed
qed

text \<open>The chunks do not matter.\<close>

lemma Write_output_append: "Write_output (Write_output b p) q = Write_output b (p @ q)"
  using full_runes_append [of "lo_pending b @ p" q]
  by (simp add: Write_output_def drain_full fold_keep_set)

lemma Write_chunks: "fold (\<lambda>p b. Write_output b p) chunks (Write_output b p) = Write_output b (p @ concat chunks)"
  by (induction chunks arbitrary: p) (simp_all add: Write_output_append)

section \<open>What is kept\<close>

lemma keep_rune_fields:
  "length (lo_head b) < 10000 \<Longrightarrow> lo_head (keep_rune r b) = lo_head b @ [r]"
  "length (lo_head b) < 10000 \<Longrightarrow> lo_tail (keep_rune r b) = lo_tail b"
  "\<not> length (lo_head b) < 10000 \<Longrightarrow> lo_head (keep_rune r b) = lo_head b"
  "\<not> length (lo_head b) < 10000 \<Longrightarrow> lo_tail (keep_rune r b) = drop (length (lo_tail b) + 1 - 10000) (lo_tail b @ [r])"
  by (simp_all add: keep_rune_def Let_def)

lemma fold_keep:
  "lo_head (fold keep_rune rs zero_output) = take 10000 rs \<and> lo_total (fold keep_rune rs zero_output) = length rs \<and>
   lo_tail (fold keep_rune rs zero_output) = drop (length (drop 10000 rs) - 10000) (drop 10000 rs)"
proof (induction rs rule: rev_induct)
  case Nil
  show ?case by (simp add: zero_output_def)
next
  case (snoc r rs)
  let ?b = "fold keep_rune rs zero_output"
  show ?case
  proof (cases "length rs < 10000")
    case True
    with snoc show ?thesis by (simp add: keep_rune_fields)
  next
    case False
    define t where "t = drop 10000 rs"
    have t: "drop 10000 (rs @ [r]) = t @ [r]" "lo_tail ?b = drop (length t - 10000) t" using False snoc by (simp_all add: t_def)
    have head: "\<not> length (lo_head ?b) < 10000" using False snoc by simp
    have "drop (length (lo_tail ?b) + 1 - 10000) (lo_tail ?b @ [r]) = drop (length (t @ [r]) - 10000) (t @ [r])"
    proof (cases "length t < 10000")
      case False
      then have "Suc (length t - 10000) = length t - 9999" by simp
      with False show ?thesis unfolding t(2) by (simp add: drop_append)
    qed (simp add: t(2))
    with False snoc t(1) keep_rune_fields(3,4) [OF head] show ?thesis by simp
  qed
qed

text \<open>Well-formed text is decoded completely.\<close>

lemma FullRune_decoded: "2 \<le> snd (DecodeRune s) \<or> s \<noteq> [] \<and> fst (DecodeRune s) < 0x80 \<Longrightarrow> FullRune s"
  by (cases s; cases "tl s"; cases "tl (tl s)"; cases "tl (tl (tl s))")
    (auto simp: FullRune_def rune_width_def DecodeRune_def RuneError_def split: if_splits)

lemma full_runes_encode: "list_all valid_rune rs \<Longrightarrow> full_runes (concat (map EncodeRune rs)) = (rs, [])"
proof (induction rs)
  case Nil
  show ?case by (simp add: full_runes_short)
next
  case (Cons r rs)
  let ?s = "EncodeRune r @ concat (map EncodeRune rs)"
  have dec: "DecodeRune ?s = (r, length (EncodeRune r))" using decode_encode Cons.prems by simp
  have "2 \<le> length (EncodeRune r) \<or> r < 0x80" by (auto simp: EncodeRune_def)
  then have "FullRune ?s" by (intro FullRune_decoded) (auto simp: dec)
  from full_runes_step [OF this] dec Cons show ?case by simp
qed

lemma pending_zero: "lo_pending zero_output = []"
  by (simp add: zero_output_def)

lemma Output_of:
  "String_output (Write_output zero_output s) =
     (let (rs, rest) = full_runes s
      in concat (map EncodeRune (take 10000 rs)) @ (if 20000 < length rs then [CHR 0x0A] @ ''[truncated]'' @ [CHR 0x0A] else [])
        @ concat (map EncodeRune (drop (max 10000 (length rs - 10000)) rs)) @ rest)"
proof -
  have "drop (length (drop 10000 rs) - 10000) (drop 10000 rs) = drop (max 10000 (length rs - 10000)) rs" for rs :: "nat list"
    by (simp add: max_def)
  then show ?thesis
    using fold_keep [of "fst (full_runes s)"]
    by (simp add: Write_output_def String_output_def drain_full case_prod_beta fold_keep_set pending_zero)
qed

section \<open>Properties\<close>



end
