(* ===== verification/Sandbox.thy ===== *)
theory Sandbox
  imports Path_Resolve Limited_Output Agent_Def
begin

text \<open>
  The tools an agent can call (\<open>internal/tools/sandbox.go\<close>): the path check, reading and writing
  files of the workspace, listing, searching, and running the configured tests. The file system is
  the tree of \<open>Path_Resolve\<close>; operations return the tree they leave behind. Parameters: the glob
  matcher (doublestar), JSON parsing and the regular expression engine of the standard library, the
  shell word splitter (mvdan.cc/sh), the processes that are run, and the context's error.
\<close>

section \<open>Changing the tree\<close>

fun put_entry :: "string \<Rightarrow> node \<Rightarrow> (string \<times> node) list \<Rightarrow> (string \<times> node) list" where
  "put_entry p n [] = [(p, n)]"
| "put_entry p n ((q, m) # es) =
     (if p = q then (p, n) # es else if p < q then (p, n) # (q, m) # es else (q, m) # put_entry p n es)"

text \<open>The tree with \<open>n\<close> stored at a path whose parent is a directory.\<close>

fun put :: "node \<Rightarrow> string list \<Rightarrow> node \<Rightarrow> node" where
  "put m [] n = n"
| "put (Dir es) (p # ps) n =
     (case map_of es p of Some m \<Rightarrow> Dir (put_entry p (put m ps n) es)
      | None \<Rightarrow> if ps = [] then Dir (put_entry p n es) else Dir es)"
| "put m (p # ps) n = m"

text \<open>\<open>Root.MkdirAll\<close>: missing directories are made on the way, links followed below the base.\<close>

function root_mkdir :: "nat \<Rightarrow> node \<Rightarrow> string list \<Rightarrow> string list \<Rightarrow> string list \<Rightarrow> unit result \<times> node" where
  "root_mkdir links fs base dest [] = (Inr (), fs)"
| "root_mkdir links fs base dest (p # ps) =
     (if p = [] \<or> p = ''.'' then root_mkdir links fs base dest ps
      else if p = ''..'' then
        (if base = dest then (Inl escapes, fs) else root_mkdir links fs base (butlast dest) ps)
      else case Lstat fs (dest @ [p]) of
          Inl e \<Rightarrow> if e = ErrNotExist then root_mkdir links (put fs (dest @ [p]) (Dir [])) base (dest @ [p]) ps
            else (Inl e, fs)
        | Inr (Lnk l) \<Rightarrow>
            (case links of 0 \<Rightarrow> (Inl (Errorf ''too many links''), fs)
             | Suc k \<Rightarrow> if IsAbs l then (Inl escapes, fs) else root_mkdir k fs base dest (Split l slash @ ps))
        | Inr (Dir es) \<Rightarrow> root_mkdir links fs base (dest @ [p]) ps
        | Inr (Reg c) \<Rightarrow> (Inl (Errorf ''not a directory''), fs))"
  by pat_completeness auto
termination
  by (relation "measures [\<lambda>(links, fs, base, dest, ps). links, \<lambda>(links, fs, base, dest, ps). length ps]") auto

text \<open>\<open>Root.WriteFile\<close>: the file is created or truncated.\<close>

definition root_write :: "node \<Rightarrow> string list \<Rightarrow> string \<Rightarrow> string \<Rightarrow> node result" where
  "root_write fs base name content =
     bindR (root_path fs base True name) (\<lambda>q.
       case Lstat fs q of
         Inr (Dir _) \<Rightarrow> Inl (Errorf ''is a directory'')
       | _ \<Rightarrow> Inr (put fs q (Reg content)))"

text \<open>\<open>filepath.Dir\<close> of a clean relative path.\<close>

definition Dir_path :: "string \<Rightarrow> string" where
  "Dir_path name = (let ps = butlast (Split name slash) in if ps = [] then ''.'' else Join ps ''/'')"

section \<open>The sandbox\<close>

record ToolSpec =
  tl_Name :: string
  tl_Description :: string
  tl_Schema :: string

record ToolArgs =
  ta_Path :: string
  ta_Content :: string
  ta_Pattern :: string
  ta_Glob :: string

record Sandbox =
  sx_Root :: "string list"
  sx_Agent :: AgentSpec
  sx_Allowed :: "string slice"

datatype run_end = Finished | Exited int | Failed_run

record world =
  w_GlobMatch :: "string \<Rightarrow> string \<Rightarrow> bool"
  w_parse :: "string \<Rightarrow> json result"
  w_regexp :: "string \<Rightarrow> (string \<Rightarrow> bool) result"
  w_fields :: "string \<Rightarrow> string list result"
  w_run :: "string list \<Rightarrow> node \<Rightarrow> run_end \<times> string list \<times> node"
  w_ctx :: "string \<Rightarrow> err option"

text \<open>\<open>%q\<close> of a slice of texts that need no escapes.\<close>

definition quoted_list :: "string list \<Rightarrow> string" where
  "quoted_list xs = ''['' @ Join (map (\<lambda>x. [CHR 0x22] @ x @ [CHR 0x22]) xs) '' '' @ '']''"

definition check :: "world \<Rightarrow> node \<Rightarrow> Sandbox \<Rightarrow> string \<Rightarrow> bool \<Rightarrow> unit result" where
  "check w fs s name write =
     (if \<not> SafeRelative name \<or> Protected name then Inl (Errorf (''protected or invalid path: '' @ name))
      else bindR (Resolve fs (sx_Root s) name) (\<lambda>resolved.
        if write then
          (if ag_ToolProfile (sx_Agent s) = ''publisher'' then Inl (Errorf ''publisher is read-only'')
           else if list_ex (\<lambda>wp. w_GlobMatch w name wp \<and> w_GlobMatch w resolved wp) (ag_WritePaths (sx_Agent s)) then Inr ()
           else Inl (Errorf (''path is outside write_paths='' @ quoted_list (ag_WritePaths (sx_Agent s)))))
        else Inr ()))"

text \<open>The directory the \<open>os.Root\<close> was opened on.\<close>

definition root_dir :: "node \<Rightarrow> Sandbox \<Rightarrow> string list result" where
  "root_dir fs s = EvalSymlinks fs (sx_Root s)"

definition limit_text :: "string \<Rightarrow> string" where
  "limit_text content = (let data = take 200001 content
     in if 200000 < length data then take 200000 data @ [CHR 0x0A] @ ''[truncated]'' else data)"

definition Read :: "world \<Rightarrow> node \<Rightarrow> Sandbox \<Rightarrow> string \<Rightarrow> string result" where
  "Read w fs s name =
     bindR (check w fs s name False) (\<lambda>_.
     bindR (Resolve fs (sx_Root s) name) (\<lambda>resolved.
     bindR (root_dir fs s) (\<lambda>base.
     bindR (root_path fs base False resolved) (\<lambda>q.
     bindR (Lstat fs q) (\<lambda>n. case n of
         Reg content \<Rightarrow> Inr (limit_text content)
       | _ \<Rightarrow> Inl (Errorf ''not a regular file''))))))"

text \<open>A write that fails may have made directories.\<close>

definition Write :: "world \<Rightarrow> node \<Rightarrow> Sandbox \<Rightarrow> string \<Rightarrow> string \<Rightarrow> unit result \<times> node" where
  "Write w fs s name content =
     (case bindR (check w fs s name True) (\<lambda>_.
          if 2000000 < length content then Inl (Errorf ''file exceeds 2 MB'')
          else bindR (Resolve fs (sx_Root s) name) (\<lambda>resolved.
               bindR (root_dir fs s) (\<lambda>base. Inr (resolved, base)))) of
        Inl e \<Rightarrow> (Inl e, fs)
      | Inr (resolved, base) \<Rightarrow>
          (case root_mkdir 8 fs base base (Split (Dir_path resolved) slash) of
             (Inl e, fs') \<Rightarrow> (Inl e, fs')
           | (Inr _, fs') \<Rightarrow>
               (case root_write fs' base resolved content of Inl e \<Rightarrow> (Inl e, fs') | Inr fs'' \<Rightarrow> (Inr (), fs''))))"

section \<open>Tools\<close>

definition tool :: "string \<Rightarrow> string \<Rightarrow> string \<Rightarrow> ToolSpec" where
  "tool name description schema = \<lparr>tl_Name = name, tl_Description = description, tl_Schema = schema\<rparr>"

definition all_tools :: "AgentSpec \<Rightarrow> ToolSpec list" where \<open>
  all_tools a =
    [tool ''read_file'' ''Read a repository file using a relative path.''
       ''{"type":"object","properties":{"path":{"type":"string"}},"required":["path"]}'',
     tool ''list_dir'' ''List repository files in a directory.''
       ''{"type":"object","properties":{"path":{"type":"string"}}}'',
     tool ''search'' ''Search file contents with a regular expression.''
       ''{"type":"object","properties":{"pattern":{"type":"string"},"glob":{"type":"string"}},"required":["pattern"]}'']
    @ (if ag_ToolProfile a \<noteq> ''publisher'' \<and> ag_WritePaths a \<noteq> []
       then [tool ''write_file'' (''Write a file. Allowed paths: ['' @ Join (ag_WritePaths a) '' '' @ '']'')
         ''{"type":"object","properties":{"path":{"type":"string"},"content":{"type":"string"}},"required":["path","content"]}'']
       else [])
    @ (if ag_ToolProfile a = ''code-writer'' \<and> ag_TestCommand a \<noteq> []
       then [tool ''run_tests'' ''Run the repository's configured test command.'' ''{"type":"object","properties":{}}''] else [])\<close>

definition Tools :: "Sandbox \<Rightarrow> ToolSpec list" where
  "Tools s = (case sx_Allowed s of None \<Rightarrow> all_tools (sx_Agent s)
     | Some names \<Rightarrow> filter (\<lambda>t. tl_Name t \<in> set names) (all_tools (sx_Agent s)))"

text \<open>
  \<open>json.Unmarshal\<close> of the parsed arguments: members are matched without regard to case, null leaves
  a field alone, anything but a string is an error.
\<close>

definition zero_ToolArgs :: ToolArgs where
  "zero_ToolArgs = \<lparr>ta_Path = [], ta_Content = [], ta_Pattern = [], ta_Glob = []\<rparr>"

definition set_arg :: "string \<Rightarrow> json \<Rightarrow> ToolArgs \<Rightarrow> ToolArgs result" where
  "set_arg key v a =
     (let k = ToLower key
      in if k \<notin> {''path'', ''content'', ''pattern'', ''glob''} \<or> v = JNull then Inr a
         else case v of
           JStr x \<Rightarrow> Inr (if k = ''path'' then a\<lparr>ta_Path := x\<rparr> else if k = ''content'' then a\<lparr>ta_Content := x\<rparr>
             else if k = ''pattern'' then a\<lparr>ta_Pattern := x\<rparr> else a\<lparr>ta_Glob := x\<rparr>)
         | _ \<Rightarrow> Inl (Errorf (''json: cannot unmarshal into field '' @ k)))"

fun set_args :: "(string \<times> json) list \<Rightarrow> ToolArgs \<Rightarrow> ToolArgs result" where
  "set_args [] a = Inr a"
| "set_args ((key, v) # kvs) a = bindR (set_arg key v a) (set_args kvs)"

definition UnmarshalArgs :: "world \<Rightarrow> string \<Rightarrow> ToolArgs result" where
  "UnmarshalArgs w raw = bindR (w_parse w raw) (\<lambda>j. case j of
       JObj kvs \<Rightarrow> set_args kvs zero_ToolArgs
     | JNull \<Rightarrow> Inr zero_ToolArgs
     | _ \<Rightarrow> Inl (Errorf ''json: cannot unmarshal into ToolArgs''))"

text \<open>\<open>fs.ReadDir(Root.FS(), name)\<close>.\<close>

definition ValidPath :: "string \<Rightarrow> bool" where
  "ValidPath name \<longleftrightarrow> name = ''.'' \<or> list_all (\<lambda>p. p \<noteq> [] \<and> p \<noteq> ''.'' \<and> p \<noteq> ''..'') (Split name slash)"

definition ReadDir :: "node \<Rightarrow> string list \<Rightarrow> string \<Rightarrow> (string \<times> node) list result" where
  "ReadDir fs base name =
     (if \<not> ValidPath name then Inl (Errorf ''invalid argument'')
      else bindR (root_path fs base False name) (\<lambda>q.
           bindR (Lstat fs q) (\<lambda>n. case n of Dir es \<Rightarrow> Inr es | _ \<Rightarrow> Inl (Errorf ''not a directory''))))"

definition list_dir :: "world \<Rightarrow> node \<Rightarrow> Sandbox \<Rightarrow> string \<Rightarrow> string list result" where
  "list_dir w fs s path =
     (let path = (if path = [] then ''.'' else path)
      in bindR (check w fs s path False) (\<lambda>_.
         bindR (root_dir fs s) (\<lambda>base.
         bindR (ReadDir fs base path) (\<lambda>entries.
           Inr (take 500 (map (\<lambda>(name, n). Join_path [path, name] @ (case n of Dir _ \<Rightarrow> ''/'' | _ \<Rightarrow> []))
             (filter (\<lambda>(name, n). check w fs s (Join_path [path, name]) False = Inr ()) entries)))))))"

definition truncate_line :: "string \<Rightarrow> nat \<Rightarrow> string" where
  "truncate_line t n = (let r = map fst (runes t)
     in if n < length r then concat (map EncodeRune (take n r)) @ EncodeRune 0x2026 else t)"

text \<open>The walk over the workspace, with the callback of \<open>search\<close>.\<close>

datatype walked = Going "string list" | Stopped "string list" | Aborted err

fun add_hits :: "(string \<Rightarrow> bool) \<Rightarrow> string \<Rightarrow> nat \<Rightarrow> string list \<Rightarrow> string list \<Rightarrow> walked" where
  "add_hits rx p i [] hits = Going hits"
| "add_hits rx p i (line # ls) hits =
     (if rx line
      then let hits = hits @ [p @ '':'' @ show_int (int i + 1) @ '': '' @ truncate_line line 200]
           in if 100 \<le> length hits then Stopped hits else add_hits rx p (i + 1) ls hits
      else add_hits rx p (i + 1) ls hits)"

definition search_file :: "world \<Rightarrow> node \<Rightarrow> Sandbox \<Rightarrow> (string \<Rightarrow> bool) \<Rightarrow> string \<Rightarrow> string \<Rightarrow> string list \<Rightarrow> walked" where
  "search_file w fs s rx glob p hits =
     (if \<not> w_GlobMatch w p glob then Going hits
      else case Read w fs s p of Inl e \<Rightarrow> Going hits | Inr content \<Rightarrow> add_hits rx p 0 (Split content (CHR 0x0A)) hits)"

fun search_node :: "world \<Rightarrow> node \<Rightarrow> Sandbox \<Rightarrow> (string \<Rightarrow> bool) \<Rightarrow> string \<Rightarrow> string \<Rightarrow> node \<Rightarrow> string list \<Rightarrow> walked"
  and search_entries :: "world \<Rightarrow> node \<Rightarrow> Sandbox \<Rightarrow> (string \<Rightarrow> bool) \<Rightarrow> string \<Rightarrow> string \<Rightarrow> (string \<times> node) list \<Rightarrow> string list \<Rightarrow> walked"
where
  "search_node w fs s rx glob p n hits =
     (case w_ctx w p of
        Some e \<Rightarrow> Aborted e
      | None \<Rightarrow>
          if check w fs s p False \<noteq> Inr () then Going hits
          else case n of
              Dir es \<Rightarrow> search_entries w fs s rx glob p es hits
            | _ \<Rightarrow> search_file w fs s rx glob p hits)"
| "search_entries w fs s rx glob p [] hits = Going hits"
| "search_entries w fs s rx glob p ((name, n) # es) hits =
     (case search_node w fs s rx glob (Join_path [p, name]) n hits of
        Going hits' \<Rightarrow> search_entries w fs s rx glob p es hits'
      | r \<Rightarrow> r)"

definition search :: "world \<Rightarrow> node \<Rightarrow> Sandbox \<Rightarrow> string \<Rightarrow> string \<Rightarrow> string list result" where
  "search w fs s pattern glob =
     bindR (w_regexp w pattern) (\<lambda>rx.
       let glob = (if glob = [] then ''**/*'' else glob)
       in bindR (root_dir fs s) (\<lambda>base.
          bindR (Lstat fs base) (\<lambda>n.
            case search_node w fs s rx glob ''.'' n [] of
              Going hits \<Rightarrow> Inr hits | Stopped hits \<Rightarrow> Inr hits | Aborted e \<Rightarrow> Inl e)))"

definition run_tests :: "world \<Rightarrow> node \<Rightarrow> Sandbox \<Rightarrow> string result \<times> node" where
  "run_tests w fs s =
     (let cmd = ag_TestCommand (sx_Agent s)
      in case (if Contains cmd ''&&'' then Inr [''bash'', ''-lc'', cmd]
               else case w_fields w cmd of
                   Inl e \<Rightarrow> Inl (Errorf (''invalid test_command: '' @ error_text e))
                 | Inr args \<Rightarrow> if args = [] then Inl (Errorf ''invalid test_command: <nil>'') else Inr args) of
           Inl e \<Rightarrow> (Inl e, fs)
         | Inr args \<Rightarrow>
             let (end_of_run, chunks, fs') = w_run w args fs;
                 out = fold (\<lambda>p b. Write_output b p) chunks zero_output;
                 code = (case end_of_run of Finished \<Rightarrow> 0 | Exited n \<Rightarrow> n | Failed_run \<Rightarrow> -1)
             in (Inr (''exit='' @ show_int code @ [CHR 0x0A] @ String_output out), fs'))"

definition Call :: "world \<Rightarrow> node \<Rightarrow> Sandbox \<Rightarrow> string \<Rightarrow> string \<Rightarrow> string result \<times> node" where
  "Call w fs s name raw =
     (if name \<notin> set (map tl_Name (Tools s)) then (Inl (Errorf (''tool not allowed: '' @ name)), fs)
      else case UnmarshalArgs w raw of
        Inl e \<Rightarrow> (Inl e, fs)
      | Inr args \<Rightarrow>
          if name = ''read_file'' then (Read w fs s (ta_Path args), fs)
          else if name = ''write_file'' then
            (case Write w fs s (ta_Path args) (ta_Content args) of
               (Inl e, fs') \<Rightarrow> (Inl e, fs') | (Inr _, fs') \<Rightarrow> (Inr (''wrote '' @ ta_Path args), fs'))
          else if name = ''list_dir'' then
            (bindR (list_dir w fs s (ta_Path args)) (\<lambda>out. Inr (Join out [CHR 0x0A])), fs)
          else if name = ''search'' then
            (bindR (search w fs s (ta_Pattern args) (ta_Glob args)) (\<lambda>hits. Inr (Join hits [CHR 0x0A])), fs)
          else if name = ''run_tests'' then run_tests w fs s
          else (Inl (Errorf ''unknown tool''), fs))"

section \<open>The tree after a change\<close>

lemma map_of_put_entry [simp]: "map_of (put_entry p n es) = (map_of es)(p \<mapsto> n)"
  by (induction p n es rule: put_entry.induct) auto

lemma Lstat_put_same: "Lstat fs d = Inr (Dir es) \<Longrightarrow> Lstat (put fs (d @ [p]) n) (d @ [p]) = Inr n"
proof (induction fs d rule: Lstat.induct)
  case (1 m)
  then show ?case by (cases "map_of es p") auto
next
  case (2 es' q qs)
  then show ?case by (auto split: option.splits)
qed auto

text \<open>What is at a path of the old tree is still there, unless it was the path written or a directory above it.\<close>

lemma Lstat_put_other:
  "Lstat fs q = Inr m \<Longrightarrow> Lstat fs path = Inr old \<and> (\<forall>es. old \<noteq> Dir es) \<or> Lstat fs path = Inl ErrNotExist \<Longrightarrow> q \<noteq> path \<Longrightarrow>
     \<exists>m'. Lstat (put fs path n) q = Inr m' \<and> (m' = m \<or> (\<exists>es es'. m = Dir es \<and> m' = Dir es'))"
proof (induction fs q arbitrary: path rule: Lstat.induct)
  case (1 fs)
  then show ?case by (cases "(fs, path)" rule: Lstat.cases) (auto split: option.splits)
next
  case (2 es p ps)
  obtain k where k: "map_of es p = Some k" "Lstat k ps = Inr m" using "2.prems"(1) by (auto split: option.splits)
  show ?case
  proof (cases path)
    case Nil
    with 2 show ?thesis by auto
  next
    case (Cons q qs)
    show ?thesis
    proof (cases "q = p")
      case True
      then have "Lstat k qs = Inr old \<and> (\<forall>es. old \<noteq> Dir es) \<or> Lstat k qs = Inl ErrNotExist" "ps \<noteq> qs"
        using "2.prems" k Cons by auto
      from "2.IH" [OF k(1) k(2) this] True k Cons show ?thesis by simp
    next
      case False
      with k Cons show ?thesis by (auto split: option.splits)
    qed
  qed
qed auto

lemma Lstat_put_only:
  "Lstat (put fs (d @ [p]) (Dir [])) q = Inr m \<Longrightarrow> Lstat fs d = Inr (Dir es) \<Longrightarrow> Lstat fs (d @ [p]) = Inl ErrNotExist \<Longrightarrow>
     Lstat fs q = Inr m \<or> (\<exists>es'. m = Dir es')"
proof (induction fs d arbitrary: q rule: Lstat.induct)
  case (1 fs)
  then have fs: "fs = Dir es" and none: "map_of es p = None" by (auto split: option.splits)
  show ?case
  proof (cases q)
    case (Cons x xs)
    show ?thesis using 1 fs none Cons by (cases "x = p"; cases xs) (auto split: option.splits)
  qed (use 1 fs none in auto)
next
  case (2 es' x xs)
  then obtain k where k: "map_of es' x = Some k" "Lstat k xs = Inr (Dir es)" "Lstat k (xs @ [p]) = Inl ErrNotExist"
    by (auto split: option.splits)
  show ?case
  proof (cases q)
    case (Cons y ys)
    show ?thesis
    proof (cases "y = x")
      case True
      with 2 k Cons "2.IH" [OF k(1) _ k(2,3), of ys] show ?thesis by simp
    qed (use 2 k Cons in auto)
  qed (use 2 k in auto)
qed auto

definition kept :: "string list option \<Rightarrow> node \<Rightarrow> node \<Rightarrow> bool" where
  "kept path fs fs' \<longleftrightarrow> (\<forall>q m. Lstat fs q = Inr m \<longrightarrow> Some q \<noteq> path \<longrightarrow>
     (\<exists>m'. Lstat fs' q = Inr m' \<and> (m' = m \<or> (\<exists>es es'. m = Dir es \<and> m' = Dir es'))))"

lemma kept_refl: "kept None fs fs"
  by (auto simp: kept_def)

lemma kept_trans: "kept None a b \<Longrightarrow> kept path b c \<Longrightarrow> kept path a c"
  unfolding kept_def by (metis option.distinct(1))

lemma kept_missing: "Lstat fs path = Inl ErrNotExist \<Longrightarrow> kept None fs (put fs path n)"
  unfolding kept_def using Lstat_put_other by (metis Inr_Inl_False)

lemma kept_write: "Lstat fs path = Inr old \<Longrightarrow> \<forall>es. old \<noteq> Dir es \<Longrightarrow> kept (Some path) fs (put fs path n)"
  unfolding kept_def using Lstat_put_other by metis

lemma root_mkdir_kept: "root_mkdir links fs base dest ps = (r, fs') \<Longrightarrow> kept None fs fs'"
proof (induction links fs base dest ps rule: root_mkdir.induct)
  case (1 links fs base dest)
  then show ?case by (simp add: kept_refl)
next
  case (2 links fs base dest p ps)
  then show ?case
    using kept_missing kept_trans
    by (auto simp: kept_refl split: if_splits sum.splits node.splits nat.splits) blast+
qed

section \<open>Reading\<close>

lemma check_Inr:
  assumes "check w fs s name write = Inr u"
  shows "\<exists>rel. Resolve fs (sx_Root s) name = Inr rel \<and>
    (write \<longrightarrow> ag_ToolProfile (sx_Agent s) \<noteq> ''publisher'' \<and>
       (\<exists>wp\<in>set (ag_WritePaths (sx_Agent s)). w_GlobMatch w name wp \<and> w_GlobMatch w rel wp))"
  using assms by (auto simp: check_def bindR_eq_Inr list_ex_iff split: if_splits)

lemma Read_Inr:
  assumes ok: "Read w fs s name = Inr out" and fs: "\<not> is_link fs" and root: "no_slash (sx_Root s)"
  shows "\<exists>base rel rest content. EvalSymlinks fs (sx_Root s) = Inr base \<and> Resolve fs (sx_Root s) name = Inr rel \<and>
    located fs base rel rest \<and> SafeRelative rel \<and> \<not> Protected rel \<and> canonical fs (base @ rest) \<and>
    Lstat fs (base @ rest) = Inr (Reg content) \<and> out = limit_text content"
proof -
  from ok obtain rel base q n where rel: "Resolve fs (sx_Root s) name = Inr rel" and base: "EvalSymlinks fs (sx_Root s) = Inr base"
    and q: "root_path fs base False rel = Inr q" and n: "Lstat fs q = Inr n"
    and out: "(case n of Reg content \<Rightarrow> Inr (limit_text content) | _ \<Rightarrow> Inl (Errorf ''not a regular file'')) = Inr out"
    by (auto simp: Read_def root_dir_def bindR_eq_Inr)
  obtain base' rest where loc: "EvalSymlinks fs (sx_Root s) = Inr base'" "located fs base' rel rest" "SafeRelative rel" "\<not> Protected rel"
    by (rule Resolve_Inr [OF rel fs root])
  have b: "base' = base" using base loc(1) by simp
  from root_path_located [OF loc(2) [unfolded b] q] have "q = base @ rest" "canonical fs q" by auto
  with n out base rel loc b show ?thesis by (auto split: node.splits)
qed

lemma limit_text_bound: "length (limit_text c) \<le> 200012"
  by (simp add: limit_text_def Let_def)

section \<open>Writing\<close>

text \<open>Along a path without links, \<open>MkdirAll\<close> makes just the directories of the path.\<close>

lemma root_mkdir_through:
  assumes "root_mkdir links fs base dest ps = (Inr u, fs')" "list_all ordinary ps" "Lstat fs dest = Inr (Dir es)"
    and "\<And>q l. prefix q ps \<Longrightarrow> Lstat fs (dest @ q) \<noteq> Inr (Lnk l)"
  shows "(\<exists>es'. Lstat fs' (dest @ ps) = Inr (Dir es')) \<and> (\<forall>q m. Lstat fs' q = Inr m \<longrightarrow> Lstat fs q = Inr m \<or> (\<exists>es'. m = Dir es'))"
  using assms
proof (induction links fs base dest ps arbitrary: es rule: root_mkdir.induct)
  case (2 links fs base dest p ps)
  have ps: "list_all ordinary ps" using "2.prems"(2) by simp
  have p: "p \<noteq> []" "p \<noteq> ''.''" "p \<noteq> ''..''" using "2.prems"(2) by (simp_all add: ordinary_def)
  have nolink: "Lstat fs ((dest @ [p]) @ q) \<noteq> Inr (Lnk l)" if "prefix q ps" for q l
    using "2.prems"(4) [of "p # q"] that by simp
  show ?case
  proof (cases "Lstat fs (dest @ [p])")
    case (Inl e)
    let ?fs = "put fs (dest @ [p]) (Dir [])"
    from Inl "2.prems"(1) p have e: "e = ErrNotExist"
      and rest: "root_mkdir links ?fs base (dest @ [p]) ps = (Inr u, fs')" by (auto split: if_splits)
    have new: "Lstat ?fs (dest @ [p]) = Inr (Dir [])" by (rule Lstat_put_same [OF "2.prems"(3)])
    have only: "Lstat fs q = Inr m \<or> (\<exists>es'. m = Dir es')" if "Lstat ?fs q = Inr m" for q m
      using that Lstat_put_only Inl e "2.prems"(3) by blast
    have nolink': "Lstat ?fs ((dest @ [p]) @ q) \<noteq> Inr (Lnk l)" if "prefix q ps" for q l
      using only nolink [OF that] by blast
    from "2.IH"(3) [OF _ _ Inl e rest ps new nolink'] p only show ?thesis by simp blast
  next
    case (Inr n)
    with "2.prems"(1) p nolink [of "[]"] obtain es' where n: "n = Dir es'"
      and rest: "root_mkdir links fs base (dest @ [p]) ps = (Inr u, fs')"
      by (cases n) auto
    from "2.IH"(5) [OF _ _ Inr n rest ps] Inr n nolink p show ?thesis by simp
  qed
qed auto

lemma Dir_path_located:
  assumes "located fs base rel rest" "rest \<noteq> []"
  shows "Split (Dir_path rel) slash = (if butlast rest = [] then [''.''] else butlast rest)"
proof -
  have rel: "Split rel slash = rest" and ord: "list_all ordinary rest" using assms by (auto simp: located_def)
  have "no_slash (butlast rest)" using ord by (auto simp: list_all_iff ordinary_def dest: in_set_butlastD)
  then show ?thesis using Split_Join [of "butlast rest"] by (simp add: Dir_path_def rel)
qed

lemma root_write_Inr:
  assumes "root_write fs base name content = Inr fs'"
  shows "\<exists>q. root_path fs base True name = Inr q \<and> (\<forall>es. Lstat fs q \<noteq> Inr (Dir es)) \<and> fs' = put fs q (Reg content)"
proof -
  from assms obtain q where q: "root_path fs base True name = Inr q"
    "(case Lstat fs q of Inr (Dir _) \<Rightarrow> Inl (Errorf ''is a directory'') | _ \<Rightarrow> Inr (put fs q (Reg content))) = Inr fs'"
    by (auto simp: root_write_def bindR_eq_Inr)
  show ?thesis
  proof (cases "Lstat fs q")
    case (Inr n)
    with q show ?thesis by (cases n) auto
  qed (use q in auto)
qed

lemma Write_Inr:
  assumes ok: "Write w fs s name content = (Inr u, fs')" and fs: "\<not> is_link fs" and root: "no_slash (sx_Root s)"
    and base: "EvalSymlinks fs (sx_Root s) = Inr base" and dir: "Lstat fs base = Inr (Dir des)"
    and rel: "Resolve fs (sx_Root s) name = Inr rel"
    and nolink: "\<And>q l. prefix q (Split rel slash) \<Longrightarrow> Lstat fs (base @ q) \<noteq> Inr (Lnk l)"
  shows "Lstat fs' (base @ Split rel slash) = Inr (Reg content) \<and> kept (Some (base @ Split rel slash)) fs fs' \<and>
    SafeRelative rel \<and> \<not> Protected rel \<and> length content \<le> 2000000"
proof -
  obtain rest where loc: "located fs base rel rest" and safe: "SafeRelative rel" "\<not> Protected rel"
    using Resolve_Inr [OF rel fs root] base by (metis sum.inject(2))
  from ok rel base obtain fs1 where size: "length content \<le> 2000000"
    and mk: "root_mkdir 8 fs base base (Split (Dir_path rel) slash) = (Inr (), fs1)" and wr: "root_write fs1 base rel content = Inr fs'"
    by (auto simp: Write_def root_dir_def bindR_def split: sum.splits prod.splits if_splits)
  from root_write_Inr [OF wr] obtain q where
    q: "root_path fs1 base True rel = Inr q" "\<forall>es. Lstat fs1 q \<noteq> Inr (Dir es)" "fs' = put fs1 q (Reg content)" by blast
  have keep1: "kept None fs fs1" by (rule root_mkdir_kept [OF mk])
  then obtain des1 where dir1: "Lstat fs1 base = Inr (Dir des1)" using dir unfolding kept_def by blast
  have ne: "rest \<noteq> []"
  proof
    assume "rest = []"
    then have "q = base" using q(1) loc by (simp add: root_path_def located_def)
    with q(2) dir1 show False by simp
  qed
  then have parts: "Split rel slash = rest" and ord: "list_all ordinary rest" and cb: "canonical fs base" using loc by (auto simp: located_def)
  let ?pre = "butlast rest" and ?last = "last rest"
  have split: "rest = ?pre @ [?last]" using ne by simp
  have ordp: "list_all ordinary ?pre" "ordinary ?last" using ord ne by (auto simp: list_all_iff dest: in_set_butlastD)
  have mk': "root_mkdir 8 fs base base ?pre = (Inr (), fs1)"
    using mk Dir_path_located [OF loc ne] by (cases "?pre = []") simp_all
  have nolink': "Lstat fs (base @ q) \<noteq> Inr (Lnk l)" if "prefix q ?pre" for q l
    using nolink [of q l] that parts split by (metis prefix_prefix)
  obtain es where pre: "Lstat fs1 (base @ ?pre) = Inr (Dir es)"
    and only: "\<And>q m. Lstat fs1 q = Inr m \<Longrightarrow> Lstat fs q = Inr m \<or> (\<exists>es'. m = Dir es')"
    using root_mkdir_through [OF mk' ordp(1) dir nolink'] by blast
  have "list_all ordinary (base @ ?pre)" using cb ordp by (simp add: canonical_def)
  then have can: "canonical fs1 (base @ ?pre)" using canonical_Lstat [OF pre] by (simp add: is_link_def)
  have nl: "Lstat fs1 (base @ rest) \<noteq> Inr (Lnk l)" for l
    using only [of "base @ rest" "Lnk l"] nolink [of rest l] parts by auto
  have walk: "follow (Some base) True 8 fs1 (base @ ?pre) [?last] = Inr q"
    using q(1) parts split follow_through [OF can, of "Some base" True 8 "[?last]"] pre by (metis root_path_def)
  have "(base @ ?pre) @ [?last] = base @ rest" using split by simp
  then have qr: "q = base @ rest"
    using walk ordp(2) nl by (auto simp: ordinary_def split: sum.splits node.splits if_splits)
  have "Lstat fs' (base @ rest) = Inr (Reg content)"
    using Lstat_put_same [OF pre, of ?last "Reg content"] split q(3) qr by simp
  moreover have "kept (Some (base @ rest)) fs fs'"
  proof (cases "Lstat fs1 (base @ rest)")
    case (Inl e)
    then have "e = ErrNotExist"
      using walk ordp(2) split by (auto simp: ordinary_def split: if_splits)
    then have "kept None fs1 fs'" using kept_missing Inl q(3) qr by blast
    then show ?thesis using kept_trans [OF keep1] unfolding kept_def by blast
  next
    case (Inr n)
    then show ?thesis using kept_trans [OF keep1 kept_write [OF Inr]] q(2,3) qr by simp
  qed
  ultimately show ?thesis using parts safe size by simp
qed

lemma Tools_names: "map tl_Name (Tools s) = tool_names (sx_Agent s) (sx_Allowed s)"
proof -
  have names: "map tl_Name (all_tools a) = tool_names a None" for a
    by (simp add: all_tools_def tool_names_def tool_def)
  have filt: "map tl_Name (filter (\<lambda>t. tl_Name t \<in> N) ts) = filter (\<lambda>n. n \<in> N) (map tl_Name ts)" for N ts
    by (simp add: filter_map comp_def)
  show ?thesis
  proof (cases "sx_Allowed s")
    case None
    then show ?thesis by (simp add: Tools_def names)
  next
    case (Some l)
    have "tool_names (sx_Agent s) (Some l) = filter (\<lambda>t. t \<in> set l) (tool_names (sx_Agent s) None)"
      by (simp only: tool_names_def Let_def option.case)
    with Some show ?thesis by (simp add: Tools_def filt names)
  qed
qed

text \<open>Only \<open>write_file\<close> and \<open>run_tests\<close> change the tree.\<close>

lemma Call_unchanged:
  assumes "Call w fs s name raw = (r, fs')" "name \<notin> {''write_file'', ''run_tests''} \<or> name \<notin> set (tool_names (sx_Agent s) (sx_Allowed s))"
  shows "fs' = fs"
  using assms by (auto simp: Call_def Tools_names split: if_splits sum.splits)

lemma reader_tools:
  "ag_ToolProfile (sx_Agent s) = ''publisher'' \<or> ag_WritePaths (sx_Agent s) = [] \<and> ag_ToolProfile (sx_Agent s) \<noteq> ''code-writer'' \<Longrightarrow>
     set (tool_names (sx_Agent s) (sx_Allowed s)) \<subseteq> {''read_file'', ''list_dir'', ''search''}"
  by (auto simp: tool_names_def Let_def split: option.splits if_splits)

lemma list_dir_Inr:
  assumes "list_dir w fs s path = Inr out"
  shows "length out \<le> 500" "x \<in> set out \<Longrightarrow> \<exists>p rel. SafeRelative p \<and> \<not> Protected p \<and> Resolve fs (sx_Root s) p = Inr rel \<and> (x = p \<or> x = p @ ''/'')"
proof -
  let ?path = "if path = [] then ''.'' else path"
  from assms obtain entries where out: "out = take 500 (map (\<lambda>(name, n). Join_path [?path, name] @ (case n of Dir _ \<Rightarrow> ''/'' | _ \<Rightarrow> []))
      (filter (\<lambda>(name, n). check w fs s (Join_path [?path, name]) False = Inr ()) entries))"
    by (auto simp: list_dir_def Let_def bindR_eq_Inr)
  show "length out \<le> 500" by (simp add: out)
  assume "x \<in> set out"
  then obtain name n where x: "x = Join_path [?path, name] @ (case n of Dir _ \<Rightarrow> ''/'' | _ \<Rightarrow> [])"
    and ok: "check w fs s (Join_path [?path, name]) False = Inr ()" unfolding out by (auto dest!: in_set_takeD)
  from check_Inr [OF ok] ok obtain rel where "Resolve fs (sx_Root s) (Join_path [?path, name]) = Inr rel"
    "SafeRelative (Join_path [?path, name])" "\<not> Protected (Join_path [?path, name])" by (auto simp: check_def split: if_splits)
  with x show "\<exists>p rel. SafeRelative p \<and> \<not> Protected p \<and> Resolve fs (sx_Root s) p = Inr rel \<and> (x = p \<or> x = p @ ''/'')"
    by (cases n) auto
qed

text \<open>A search reports at most 100 lines.\<close>

fun bounded :: "walked \<Rightarrow> bool" where
  "bounded (Going hits) = (length hits < 100)"
| "bounded (Stopped hits) = (length hits = 100)"
| "bounded (Aborted e) = True"

lemma add_hits_bound: "length hits < 100 \<Longrightarrow> bounded (add_hits rx p i ls hits)"
  by (induction rx p i ls hits rule: add_hits.induct) (auto simp: Let_def)

lemma search_file_bound: "length hits < 100 \<Longrightarrow> bounded (search_file w fs s rx glob p hits)"
  by (simp add: search_file_def add_hits_bound split: sum.split)

lemma search_bound:
  "length hits < 100 \<Longrightarrow> bounded (search_node w fs s rx glob p n hits)"
  "length hits < 100 \<Longrightarrow> bounded (search_entries w fs s rx glob p es hits)"
proof (induction w fs s rx glob p n hits and w fs s rx glob p es hits rule: search_node_search_entries.induct)
  case (1 w fs s rx glob p n hits)
  then show ?case using search_file_bound [OF "1.prems"] by (simp split: option.split node.split)
next
  case (3 w fs s rx glob p name n es hits)
  have first: "bounded (search_node w fs s rx glob (Join_path [p, name]) n hits)" by (rule "3.IH"(1) [OF "3.prems"])
  show ?case
  proof (cases "search_node w fs s rx glob (Join_path [p, name]) n hits")
    case (Going h)
    with first "3.IH"(2) [OF Going] show ?thesis by (simp del: search_node.simps)
  qed (use first in \<open>simp_all del: search_node.simps\<close>)
qed simp

lemma search_Inr:
  assumes "search w fs s pattern glob = Inr hits"
  shows "length hits \<le> 100"
proof -
  let ?glob = "if glob = [] then ''**/*'' else glob"
  from assms obtain rx n where n: "(case search_node w fs s rx ?glob ''.'' n [] of
      Going hits \<Rightarrow> Inr hits | Stopped hits \<Rightarrow> Inr hits | Aborted e \<Rightarrow> Inl e) = Inr hits"
    unfolding search_def Let_def bindR_eq_Inr by blast
  have "bounded (search_node w fs s rx ?glob ''.'' n [])" by (rule search_bound(1)) simp
  with n show ?thesis
    by (cases "search_node w fs s rx ?glob ''.'' n []") (simp_all del: search_node.simps)
qed

section \<open>Properties\<close>

text \<open>A workspace with a file, a link inside it and a link that leads nowhere yet.\<close>

definition box_tree :: node where
  "box_tree = Dir [(''ws'', Dir [(''docs'', Dir [(''a'', Lnk ''../.env''), (''link'', Lnk ''plan.md''), (''plan.md'', Reg ''text'')])])]"

definition box_world :: "world" where
  "box_world = \<lparr>w_GlobMatch = star_match, w_parse = (\<lambda>raw. Inr (JObj [(''path'', JStr raw)])),
     w_regexp = (\<lambda>_. Inl (Errorf ''no engine'')), w_fields = (\<lambda>_. Inr []), w_run = (\<lambda>_ fs. (Finished, [], fs)), w_ctx = (\<lambda>_. None)\<rparr>"

definition tool_box :: Sandbox where
  "tool_box = \<lparr>sx_Root = [''ws''], sx_Agent = zero_AgentSpec\<lparr>ag_ToolProfile := ''doc-writer'', ag_WritePaths := [''docs/*'']\<rparr>, sx_Allowed = None\<rparr>"

lemma box_paths_1 [simp]: "SafeRelative ''docs/link''"
  by code_simp

lemma box_paths_2 [simp]: "\<not> Protected ''docs/link''"
  by code_simp

lemma box_paths_3 [simp]: "EvalSymlinks box_tree [''ws''] = Inr [''ws'']"
  by code_simp

lemma box_paths_4 [simp]: "Resolve box_tree [''ws''] ''docs/link'' = Inr ''docs/plan.md''"
  by code_simp

lemma box_paths_5 [simp]: "Resolve box_tree [''ws''] ''docs/a'' = Inr ''docs/a''"
  by code_simp

lemma box_paths_6 [simp]: "Resolve box_tree [''ws''] ''docs/new.md'' = Inr ''docs/new.md''"
  by code_simp

lemma box_root [simp]: "sx_Root tool_box = [''ws'']"
  by (simp add: tool_box_def)

lemma box_read: "Read box_world box_tree tool_box ''docs/link'' = Inr ''text''"
proof -
  have "root_path box_tree [''ws''] False ''docs/plan.md'' = Inr [''ws'', ''docs'', ''plan.md'']" by code_simp
  moreover have "Lstat box_tree [''ws'', ''docs'', ''plan.md''] = Inr (Reg ''text'')" by code_simp
  ultimately show ?thesis by (simp add: Read_def check_def root_dir_def limit_text_def)
qed

lemma box_check_1 [simp]: "check box_world box_tree tool_box ''docs/a'' True = Inr ()"
  by code_simp

lemma box_check_2 [simp]: "check box_world box_tree tool_box ''docs/new.md'' True = Inr ()"
proof -
  have "SafeRelative ''docs/new.md''" by code_simp
  moreover have "\<not> Protected ''docs/new.md''" by code_simp
  moreover have "star_match ''docs/new.md'' ''docs/*''" by code_simp
  ultimately show ?thesis by (simp add: check_def box_world_def) (simp add: tool_box_def zero_AgentSpec_def)
qed

lemma box_check_3 [simp]: "root_mkdir 8 box_tree [''ws''] [''ws''] (Split (Dir_path ''docs/a'') slash) = (Inr (), box_tree)"
  by code_simp

lemma box_check_4 [simp]: "root_mkdir 8 box_tree [''ws''] [''ws''] (Split (Dir_path ''docs/new.md'') slash) = (Inr (), box_tree)"
  by code_simp

lemma box_missing_1: "root_path box_tree [''ws''] True ''docs/a'' = Inr [''ws'', ''.env'']"
  by code_simp

lemma box_missing_2: "Lstat box_tree [''ws'', ''.env''] = Inl ErrNotExist"
  by code_simp

lemma box_missing_3: "root_path box_tree [''ws''] True ''docs/new.md'' = Inr [''ws'', ''docs'', ''new.md'']"
  by code_simp

lemma box_missing_4: "Lstat box_tree [''ws'', ''docs'', ''new.md''] = Inl ErrNotExist"
  by code_simp

lemma box_Write:
  "Write box_world box_tree tool_box ''docs/new.md'' ''x'' = (Inr (), put box_tree [''ws'', ''docs'', ''new.md''] (Reg ''x''))"
  "Write box_world box_tree tool_box ''docs/a'' ''x'' = (Inr (), put box_tree [''ws'', ''.env''] (Reg ''x''))"
  by (simp_all add: Write_def root_write_def box_missing_1 box_missing_2 box_missing_3 box_missing_4 root_dir_def)

text \<open>
  C18. A read returns the content, cut at 200000 bytes, of one regular file below the workspace:
  it is reached without following any link, and neither the name asked for nor the name the file
  really has is a protected one.
\<close>

theorem read_confined:
  assumes "Read w fs s name = Inr out" "\<not> is_link fs" "no_slash (sx_Root s)"
  shows "\<exists>base rel rest content. EvalSymlinks fs (sx_Root s) = Inr base \<and> located fs base rel rest \<and>
    \<not> Protected name \<and> \<not> Protected rel \<and> canonical fs (base @ rest) \<and>
    Lstat fs (base @ rest) = Inr (Reg content) \<and> out = limit_text content \<and> length out \<le> 200012"
proof -
  obtain base rel rest content where r: "EvalSymlinks fs (sx_Root s) = Inr base" "located fs base rel rest"
    "Resolve fs (sx_Root s) name = Inr rel" "\<not> Protected rel" "canonical fs (base @ rest)"
    "Lstat fs (base @ rest) = Inr (Reg content)" "out = limit_text content"
    using Read_Inr [OF assms] by blast
  have "\<not> Protected name" using r(3) by (auto simp: Resolve_def split: if_splits)
  with r limit_text_bound show ?thesis by blast
qed

theorem read_confined_witness:
  "\<exists>base rel rest content. EvalSymlinks box_tree [''ws''] = Inr base \<and> located box_tree base rel rest \<and>
    \<not> Protected ''docs/link'' \<and> \<not> Protected rel \<and> canonical box_tree (base @ rest) \<and>
    Lstat box_tree (base @ rest) = Inr (Reg content) \<and> ''text'' = limit_text content"
  using read_confined [OF box_read] by (auto simp: box_tree_def is_link_def)

text \<open>
  C17. A write that succeeds on a path that no link is part of stores the content in exactly the
  file that was admitted: a file below the workspace that is not protected and that a write path
  of the agent matches; every other file, link and directory of the file system is still there.
\<close>

theorem write_confined:
  assumes "Write w fs s name content = (Inr u, fs')" "\<not> is_link fs" "no_slash (sx_Root s)"
    and "EvalSymlinks fs (sx_Root s) = Inr base" "Lstat fs base = Inr (Dir des)" "Resolve fs (sx_Root s) name = Inr rel"
    and "\<And>q l. prefix q (Split rel slash) \<Longrightarrow> Lstat fs (base @ q) \<noteq> Inr (Lnk l)"
  shows "Lstat fs' (base @ Split rel slash) = Inr (Reg content) \<and> kept (Some (base @ Split rel slash)) fs fs' \<and>
    SafeRelative rel \<and> \<not> Protected rel \<and> length content \<le> 2000000 \<and> ag_ToolProfile (sx_Agent s) \<noteq> ''publisher'' \<and>
    (\<exists>wp\<in>set (ag_WritePaths (sx_Agent s)). w_GlobMatch w name wp \<and> w_GlobMatch w rel wp)"
proof -
  have "check w fs s name True = Inr ()" using assms(1) by (auto simp: Write_def bindR_def split: sum.splits)
  from check_Inr [OF this] assms(6) Write_Inr [OF assms] show ?thesis by simp
qed

theorem write_confined_witness:
  "let fs' = put box_tree [''ws'', ''docs'', ''new.md''] (Reg ''x'') in
    Lstat fs' [''ws'', ''docs'', ''new.md''] = Inr (Reg ''x'') \<and> kept (Some [''ws'', ''docs'', ''new.md'']) box_tree fs'"
proof -
  have dir: "Lstat box_tree [''ws''] = Inr (Dir [(''docs'', Dir [(''a'', Lnk ''../.env''), (''link'', Lnk ''plan.md''), (''plan.md'', Reg ''text'')])])"
    by (simp add: box_tree_def)
  have parts: "Split ''docs/new.md'' slash = [''docs'', ''new.md'']" by code_simp
  have nolink: "Lstat box_tree ([''ws''] @ q) \<noteq> Inr (Lnk l)" if "prefix q (Split ''docs/new.md'' slash)" for q l
    using that unfolding parts by (auto simp: prefix_Cons box_tree_def)
  have nl: "\<not> is_link box_tree" by (simp add: box_tree_def is_link_def)
  have root: "no_slash (sx_Root tool_box)" by simp
  have base: "EvalSymlinks box_tree (sx_Root tool_box) = Inr [''ws'']" by simp
  have rel: "Resolve box_tree (sx_Root tool_box) ''docs/new.md'' = Inr ''docs/new.md''" by simp
  show ?thesis
    using write_confined [OF box_Write(1) nl root base dir rel nolink] by (simp add: parts Let_def)
qed


text \<open>
  The only calls that change the file system are \<open>write_file\<close> and \<open>run_tests\<close>, and neither is
  offered to a publisher or to an agent without write paths that is not a code writer: no call of
  such an agent changes anything.
\<close>

theorem reader_changes_nothing:
  assumes "Call w fs s name raw = (r, fs')"
    and "ag_ToolProfile (sx_Agent s) = ''publisher'' \<or> ag_WritePaths (sx_Agent s) = [] \<and> ag_ToolProfile (sx_Agent s) \<noteq> ''code-writer''"
  shows "fs' = fs"
  using Call_unchanged [OF assms(1)] reader_tools [OF assms(2)] by auto

theorem reader_changes_nothing_witness:
  "snd (Call box_world box_tree \<lparr>sx_Root = [''ws''], sx_Agent = publisher_spec, sx_Allowed = None\<rparr> ''write_file'' ''docs/new.md'') = box_tree"
proof -
  let ?box = "\<lparr>sx_Root = [''ws''], sx_Agent = publisher_spec, sx_Allowed = None\<rparr>"
  have p: "ag_ToolProfile (sx_Agent ?box) = ''publisher''" by (simp add: publisher_spec_def)
  show ?thesis
    by (rule reader_changes_nothing [OF prod.collapse [symmetric] disjI1 [OF p]])
qed

text \<open>
  A listing has at most 500 entries, each of a path that may be read (safe, not protected, inside
  the workspace after links), and a search reports at most 100 lines.
\<close>

lemma listings_bounded:
  "(case list_dir w fs s path of Inl e \<Rightarrow> True | Inr out \<Rightarrow> length out \<le> 500 \<and>
     list_all (\<lambda>x. \<exists>p rel. SafeRelative p \<and> \<not> Protected p \<and> Resolve fs (sx_Root s) p = Inr rel \<and> (x = p \<or> x = p @ ''/'')) out) \<and>
   (case search w fs s pattern glob of Inl e \<Rightarrow> True | Inr hits \<Rightarrow> length hits \<le> 100)"
proof (intro conjI)
  show "case list_dir w fs s path of Inl e \<Rightarrow> True | Inr out \<Rightarrow> length out \<le> 500 \<and>
     list_all (\<lambda>x. \<exists>p rel. SafeRelative p \<and> \<not> Protected p \<and> Resolve fs (sx_Root s) p = Inr rel \<and> (x = p \<or> x = p @ ''/'')) out"
  proof (cases "list_dir w fs s path")
    case (Inr out)
    then show ?thesis using list_dir_Inr [OF Inr] by (simp add: list_all_iff)
  qed simp
  show "case search w fs s pattern glob of Inl e \<Rightarrow> True | Inr hits \<Rightarrow> length hits \<le> 100"
    using search_Inr [of w fs s pattern glob] by (simp split: sum.split)
qed

end
