(* ===== verification/Stage_Runner.thy ===== *)
theory Stage_Runner
  imports Sandbox App_Services Scm_Report
begin

text \<open>
  A stage run (\<open>internal/stage/runner.go\<close>) and the model registry (\<open>internal/llm/llm.go\<close>): the
  loop that asks the model, answers its tool calls and collects the deliverable. What the loop
  calls outside (the budget guard, \<open>Emit\<close>, the model, the context, the clock) is a parameter:
  an answer may depend on everything the run has done so far, which is kept as a list of actions.
  The tree may be changed by others between two calls of tools. Shown: the loop asks the model at
  most the configured number of times, each time with a well-formed dialogue; a plan run calls no
  tool and writes nothing; the paths reported as written are admitted write paths; and the last
  of them gets its heading line.
\<close>

section \<open>Data\<close>

record ToolCall =
  tc_ID :: string
  tc_Name :: string
  tc_Args :: string

record Message =
  ms_Role :: string
  ms_Text :: string
  ms_CallID :: string
  ms_Calls :: "ToolCall list"

record Usage =
  us_Input :: int
  us_Output :: int
  us_CacheRead :: int
  us_CacheWrite :: int

record ChatRequest =
  cq_System :: string
  cq_Messages :: "Message list"
  cq_Tools :: "ToolSpec list"
  cq_MaxTokens :: int

record ChatResponse =
  cs_Text :: string
  cs_ToolCalls :: "ToolCall list"
  cs_Model :: string
  cs_Usage :: Usage

text \<open>The model \<open>Registry.Get\<close> hands out: the fake one, or what a provider's factory makes of a name.\<close>

datatype LLM = Fake | Provided string string

record Registry =
  rg_Providers :: "string list"
  rg_ForceFake :: bool

definition Registry_Get :: "Registry \<Rightarrow> string \<Rightarrow> LLM result" where
  "Registry_Get r model =
     bindR (Registry_Validate (rg_Providers r) model) (\<lambda>_.
       if rg_ForceFake r \<or> model = [] \<or> model = ''fake'' \<or> model = ''fake/echo'' then Inr Fake
       else case Cut model ''/'' of
           Some (provider, name) \<Rightarrow> Inr (Provided provider name)
         | None \<Rightarrow> Inr (Provided model []))"

section \<open>What a run does outside\<close>

datatype action =
    Checked string
  | Emitted string json
  | Chatted LLM ChatRequest
  | Called string string

record outside =
  o_budget :: "(action list \<Rightarrow> unit result) option"
  o_emit :: "action list \<Rightarrow> unit result"
  o_chat :: "action list \<Rightarrow> ChatResponse result"
  o_ctx :: "action list \<Rightarrow> err option"
  o_millis :: "action list \<Rightarrow> int"
  o_world :: "action list \<Rightarrow> world"
  o_tree :: "action list \<Rightarrow> node \<Rightarrow> node"

record run_state =
  n_tree :: node
  n_done :: "action list"

definition acted :: "action \<Rightarrow> run_state \<Rightarrow> run_state" where
  "acted a st = st\<lparr>n_done := n_done st @ [a]\<rparr>"

definition budget_check :: "outside \<Rightarrow> string \<Rightarrow> run_state \<Rightarrow> unit result \<times> run_state" where
  "budget_check X task st =
     (let st' = acted (Checked task) st
      in (case o_budget X of None \<Rightarrow> Inr () | Some guard \<Rightarrow> guard (n_done st'), st'))"

definition emit :: "outside \<Rightarrow> string \<Rightarrow> json \<Rightarrow> run_state \<Rightarrow> unit result \<times> run_state" where
  "emit X kind payload st = (let st' = acted (Emitted kind payload) st in (o_emit X (n_done st'), st'))"

definition chat :: "outside \<Rightarrow> LLM \<Rightarrow> ChatRequest \<Rightarrow> run_state \<Rightarrow> ChatResponse result \<times> run_state" where
  "chat X m rq st = (let st' = acted (Chatted m rq) st in (o_chat X (n_done st'), st'))"

section \<open>Prompts\<close>

definition Prompts :: "Input \<Rightarrow> AgentSpec \<Rightarrow> string \<times> string" where
  "Prompts inp a =
     (let mission = (if in_Mode inp = ''execute''
            then ''Execute the approved plan, write deliverables, and check completion criteria. Include rejection feedback in the revision.''
            else ''Write only a short plan following conventions. Do not use tools or write files.'');
          system = ''<persona>'' @ [nl] @ ag_Persona a @ [nl] @ ''</persona>'' @ [nl] @ ''<conventions>'' @ [nl] @ ag_Conventions a
            @ [nl] @ ''</conventions>'' @ [nl] @ ''<project>'' @ [nl] @ df_ProjectSpec (in_Definition inp) @ [nl] @ ''</project>'' @ [nl]
            @ ''<mission>'' @ [nl] @ mission @ [nl] @ ''</mission>'' @ [nl] @ ''<knowledge>'' @ [nl] @ ag_Knowledge a @ [nl]
            @ ''</knowledge>'' @ [nl] @ ''<tools>'' @ [nl] @ ''profile='' @ ag_ToolProfile a @ ''; write_paths=''
            @ quoted_list (ag_WritePaths a) @ [nl] @ ''</tools>'';
          user = ''[[MODE:'' @ in_Mode inp @ '']]'' @ [nl] @ ''[[COMMAND]]'' @ [nl] @ in_Command inp @ [nl] @ ''[[/COMMAND]]'' @ [nl]
            @ ''<inputs>'' @ [nl] @ in_Inputs inp @ [nl] @ ''</inputs>''
            @ (if in_Plan inp \<noteq> [] then [nl] @ ''<approved_plan>'' @ [nl] @ in_Plan inp @ [nl] @ ''</approved_plan>'' else [])
            @ (if in_Feedback inp \<noteq> [] then [nl] @ ''[[FEEDBACK]]'' @ [nl] @ in_Feedback inp @ [nl] @ ''[[/FEEDBACK]]'' else [])
      in (system, user))"

section \<open>Tool calls\<close>

text \<open>The observation the model is told.\<close>

definition observation :: "world \<Rightarrow> ToolCall \<Rightarrow> string result \<Rightarrow> string" where
  "observation w tc r = (case r of
       Inr text \<Rightarrow> text
     | Inl e \<Rightarrow> (case UnmarshalArgs w (tc_Args tc) of
           Inl _ \<Rightarrow> ''[bad args] ''
         | Inr _ \<Rightarrow> if e = ErrNotExist then ''[not found] '' else ''[denied] '') @ error_text e)"

definition written :: "world \<Rightarrow> ToolCall \<Rightarrow> string result \<Rightarrow> string list result" where
  "written w tc r = (case r of
       Inl _ \<Rightarrow> Inr []
     | Inr _ \<Rightarrow> if tc_Name tc = ''write_file''
         then bindR (UnmarshalArgs w (tc_Args tc)) (\<lambda>args. Inr [ta_Path args]) else Inr [])"

definition call_tool :: "outside \<Rightarrow> Sandbox \<Rightarrow> ToolCall \<Rightarrow> Result \<Rightarrow> Message list \<Rightarrow> run_state
    \<Rightarrow> err option \<times> Result \<times> Message list \<times> run_state" where
  "call_tool X s tc out ms st =
     (case o_ctx X (n_done st) of
        Some e \<Rightarrow> (Some e, out, ms, st)
      | None \<Rightarrow>
       (case emit X ''agent.tool_call'' (JObj [(''call_id'', JStr (tc_ID tc)), (''tool'', JStr (tc_Name tc)),
            (''args_summary'', JStr (Truncate (tc_Args tc) 200))]) st of
          (Inl e, st) \<Rightarrow> (Some e, out, ms, st)
        | (Inr _, st) \<Rightarrow>
           (let w = o_world X (n_done st);
                (r, tree) = Call w (o_tree X (n_done st) (n_tree st)) s (tc_Name tc) (tc_Args tc);
                st = acted (Called (tc_Name tc) (tc_Args tc)) (st\<lparr>n_tree := tree\<rparr>);
                text = observation w tc r
            in case written w tc r of
                 Inl e \<Rightarrow> (Some e, out, ms, st)
               | Inr paths \<Rightarrow>
                   (let out = out\<lparr>rs_WrittenPaths := rs_WrittenPaths out @ paths\<rparr>
                    in case emit X ''agent.tool_result'' (JObj [(''call_id'', JStr (tc_ID tc)), (''tool'', JStr (tc_Name tc)),
                         (''ok'', JBool (case r of Inl _ \<Rightarrow> False | Inr _ \<Rightarrow> True)), (''summary'', JStr (Truncate text 200)),
                         (''duration_ms'', JInt (o_millis X (n_done st)))]) st of
                       (Inl e, st) \<Rightarrow> (Some e, out, ms, st)
                     | (Inr _, st) \<Rightarrow>
                         (None, out, ms @ [\<lparr>ms_Role = ''tool'', ms_Text = text, ms_CallID = tc_ID tc, ms_Calls = []\<rparr>], st)))))"

fun call_tools :: "outside \<Rightarrow> Sandbox \<Rightarrow> ToolCall list \<Rightarrow> Result \<Rightarrow> Message list \<Rightarrow> run_state
    \<Rightarrow> err option \<times> Result \<times> Message list \<times> run_state" where
  "call_tools X s [] out ms st = (None, out, ms, st)"
| "call_tools X s (tc # tcs) out ms st =
     (case call_tool X s tc out ms st of
        (Some e, out, ms, st) \<Rightarrow> (Some e, out, ms, st)
      | (None, out, ms, st) \<Rightarrow> call_tools X s tcs out ms st)"

section \<open>The loop\<close>

definition hit_limit :: string where
  "hit_limit = ''[iteration limit reached '' @ utf8 [0x2014] @ '' submitting current deliverable]''"

record asked =
  k_model :: LLM
  k_name :: string
  k_system :: string
  k_specs :: "ToolSpec list"

text \<open>The body of the loop: iteration \<open>i\<close>, which may be the last one.\<close>

datatype turn_end = Return "err option" Result run_state | Next Result "Message list" run_state

definition thinking :: "Input \<Rightarrow> asked \<Rightarrow> nat \<Rightarrow> json" where
  "thinking inp k i = JObj [(''summary'', JStr (in_Mode inp)), (''iteration'', JInt (int i + 1)), (''model'', JStr (k_name k))]"

definition usage_payload :: "ChatResponse \<Rightarrow> json" where
  "usage_payload turn = JObj [(''model'', JStr (cs_Model turn)), (''input_tokens'', JInt (us_Input (cs_Usage turn))),
     (''output_tokens'', JInt (us_Output (cs_Usage turn))), (''cache_read_tokens'', JInt (us_CacheRead (cs_Usage turn))),
     (''cache_write_tokens'', JInt (us_CacheWrite (cs_Usage turn)))]"

definition request :: "asked \<Rightarrow> Message list \<Rightarrow> ChatRequest" where
  "request k ms = \<lparr>cq_System = k_system k, cq_Messages = ms, cq_Tools = k_specs k, cq_MaxTokens = 8192\<rparr>"

text \<open>What follows an answer of the model.\<close>

definition answered :: "outside \<Rightarrow> Sandbox \<Rightarrow> Input \<Rightarrow> bool \<Rightarrow> ChatResponse \<Rightarrow> Result \<Rightarrow> Message list \<Rightarrow> run_state \<Rightarrow> turn_end" where
  "answered X s inp final turn out ms st =
     (let ms = ms @ [\<lparr>ms_Role = ''assistant'', ms_Text = cs_Text turn, ms_CallID = [], ms_Calls = cs_ToolCalls turn\<rparr>]
      in if cs_ToolCalls turn = [] then Return None (out\<lparr>rs_Content := cs_Text turn\<rparr>) st
         else if in_Mode inp = ''plan'' then Return (Some (Errorf ''plan phase must not call tools'')) out st
         else case call_tools X s (cs_ToolCalls turn) out ms st of
             (Some e, out, ms, st) \<Rightarrow> Return (Some e) out st
           | (None, out, ms, st) \<Rightarrow>
               if final then
                 (let out = out\<lparr>rs_HitLimit := True, rs_Content := hit_limit\<rparr>
                  in case emit X ''agent.message'' (JObj [(''text'', JStr hit_limit), (''hit_limit'', JBool True)]) st of
                       (Inl e, st) \<Rightarrow> Return (Some e) out st | (Inr _, st) \<Rightarrow> Next out ms st)
               else Next out ms st)"

definition turn :: "outside \<Rightarrow> Sandbox \<Rightarrow> Input \<Rightarrow> asked \<Rightarrow> bool \<Rightarrow> nat \<Rightarrow> Result \<Rightarrow> Message list \<Rightarrow> run_state \<Rightarrow> turn_end" where
  "turn X s inp k final i out ms st =
     (case budget_check X (in_TaskID inp) st of
        (Inl e, st) \<Rightarrow> Return (Some e) out st
      | (Inr _, st) \<Rightarrow>
     (case emit X ''agent.thinking'' (thinking inp k i) st of
        (Inl e, st) \<Rightarrow> Return (Some e) out st
      | (Inr _, st) \<Rightarrow>
     (case chat X (k_model k) (request k ms) st of
        (Inl e, st) \<Rightarrow> Return (Some e) out st
      | (Inr reply, st) \<Rightarrow>
     (let out = out\<lparr>rs_Iterations := int i + 1\<rparr>
      in case emit X ''usage'' (usage_payload reply) st of
        (Inl e, st) \<Rightarrow> Return (Some e) out st
      | (Inr _, st) \<Rightarrow> answered X s inp final reply out ms st))))"

text \<open>\<open>left\<close> iterations are left and \<open>i\<close> have been made.\<close>

fun turns :: "outside \<Rightarrow> Sandbox \<Rightarrow> Input \<Rightarrow> asked \<Rightarrow> nat \<Rightarrow> nat \<Rightarrow> Result \<Rightarrow> Message list \<Rightarrow> run_state
    \<Rightarrow> err option \<times> Result \<times> run_state" where
  "turns X s inp k 0 i out ms st = (None, out, st)"
| "turns X s inp k (Suc left) i out ms st =
     (case turn X s inp k (left = 0) i out ms st of
        Return e out st \<Rightarrow> (e, out, st)
      | Next out ms st \<Rightarrow> turns X s inp k left (i + 1) out ms st)"

section \<open>The deliverable\<close>

definition stamp :: "Input \<Rightarrow> AgentSpec \<Rightarrow> string" where
  "stamp inp a = ''> Task: '' @ in_TaskID inp @ utf8 [0x20, 0xB7, 0x20, 0xC791, 0xC131] @ '': '' @ ag_Name a
     @ utf8 [0x20, 0xB7, 0x20, 0xBC84, 0xC804] @ '': v'' @ show_int (in_RetryNo inp + 1) @ [nl, nl]"

definition finish :: "outside \<Rightarrow> Sandbox \<Rightarrow> Input \<Rightarrow> AgentSpec \<Rightarrow> Result \<Rightarrow> run_state \<Rightarrow> err option \<times> Result \<times> run_state" where
  "finish X s inp a out st =
     (if in_Mode inp = ''execute'' \<and> rs_WrittenPaths out \<noteq> [] then
        (let primary = last (rs_WrittenPaths out);
             out = out\<lparr>rs_Ref := Some primary\<rparr>;
             w = o_world X (n_done st);
             tree = o_tree X (n_done st) (n_tree st)
         in case Read w tree s primary of
              Inl e \<Rightarrow> (Some e, out\<lparr>rs_Content := []\<rparr>, st\<lparr>n_tree := tree\<rparr>)
            | Inr content \<Rightarrow>
                if HasPrefix content ''> Task:'' then (None, out\<lparr>rs_Content := content\<rparr>, st\<lparr>n_tree := tree\<rparr>)
                else let content = stamp inp a @ content; out = out\<lparr>rs_Content := content\<rparr>
                     in case Write w tree s primary content of
                          (Inl e, tree) \<Rightarrow> (Some e, out, st\<lparr>n_tree := tree\<rparr>)
                        | (Inr _, tree) \<Rightarrow> (None, out, st\<lparr>n_tree := tree\<rparr>))
      else (None, out, st))"

section \<open>Run\<close>

text \<open>\<open>os.OpenRoot\<close>; \<open>dir\<close> is an absolute path.\<close>

definition path_parts :: "string \<Rightarrow> string list" where
  "path_parts dir = filter (\<lambda>p. p \<noteq> []) (Split dir slash)"

definition OpenRoot :: "node \<Rightarrow> string \<Rightarrow> string list result" where
  "OpenRoot fs dir =
     bindR (EvalSymlinks fs (path_parts dir)) (\<lambda>q. bindR (Lstat fs q) (\<lambda>n. case n of
       Dir _ \<Rightarrow> Inr (path_parts dir) | _ \<Rightarrow> Inl (Errorf ''not a directory'')))"

definition iteration_limit :: "Input \<Rightarrow> nat" where
  "iteration_limit inp = (if in_Mode inp = ''plan'' then 1 else nat (MaxIterations (pl_Policy (df_Pipeline (in_Definition inp)))))"

definition Run :: "outside \<Rightarrow> Registry \<Rightarrow> Input \<Rightarrow> run_state \<Rightarrow> err option \<times> Result \<times> run_state" where
  "Run X rg inp st =
     (let d = in_Definition inp; model = Model d (in_Stage inp); a = agent_of d (sp_Agent (in_Stage inp))
      in case OpenRoot (n_tree st) (df_Workspace d) of
           Inl e \<Rightarrow> (Some e, zero_Result, st)
         | Inr root \<Rightarrow>
            (let s = \<lparr>sx_Root = root, sx_Agent = a, sx_Allowed = sp_Tools (in_Stage inp)\<rparr>
             in case Registry_Get rg model of
                  Inl e \<Rightarrow> (Some e, zero_Result, st)
                | Inr m \<Rightarrow>
                   (let (system, user) = Prompts inp a;
                        name = (if rg_ForceFake rg \<or> model = [] \<or> model = ''fake'' then ''fake/echo'' else model);
                        specs = (if in_Mode inp = ''execute'' then Tools s else []);
                        k = \<lparr>k_model = m, k_name = name, k_system = system, k_specs = specs\<rparr>
                    in case turns X s inp k (iteration_limit inp) 0 zero_Result
                           [\<lparr>ms_Role = ''user'', ms_Text = user, ms_CallID = [], ms_Calls = []\<rparr>] st of
                         (Some e, out, st) \<Rightarrow> (Some e, out, st)
                       | (None, out, st) \<Rightarrow> finish X s inp a out st)))"

section \<open>What one call of a tool does\<close>

fun is_chat :: "action \<Rightarrow> bool" where
  "is_chat (Chatted m rq) = True"
| "is_chat _ = False"

fun is_call :: "action \<Rightarrow> bool" where
  "is_call (Called name args) = True"
| "is_call _ = False"

definition chats :: "action list \<Rightarrow> nat" where
  "chats tr = length (filter is_chat tr)"

lemma chats_simps [simp]: "chats [] = 0" "chats (a # tr) = (if is_chat a then 1 else 0) + chats tr" "chats (tr @ tr') = chats tr + chats tr'"
  by (simp_all add: chats_def)

lemma acted_simps [simp]: "n_done (acted a st) = n_done st @ [a]" "n_tree (acted a st) = n_tree st"
  by (simp_all add: acted_def)

text \<open>The run goes on by some actions, none of which asks the model.\<close>

definition goes_on :: "run_state \<Rightarrow> run_state \<Rightarrow> bool" where
  "goes_on st st' \<longleftrightarrow> (\<exists>xs. n_done st' = n_done st @ xs \<and> list_all (\<lambda>a. \<not> is_chat a) xs)"

lemma goes_on_refl [simp]: "goes_on st st"
  by (simp add: goes_on_def)

lemma goes_on_trans: "goes_on a b \<Longrightarrow> goes_on b c \<Longrightarrow> goes_on a c"
  by (auto simp: goes_on_def)

lemma goes_on_acted: "\<not> is_chat a \<Longrightarrow> goes_on st (acted a st)" "\<not> is_chat a \<Longrightarrow> goes_on st (acted a (st\<lparr>n_tree := t\<rparr>))"
  by (simp_all add: goes_on_def)

lemma emit_goes_on: "emit X kind payload st = (r, st') \<Longrightarrow> goes_on st st'"
  by (auto simp: emit_def Let_def goes_on_acted)

text \<open>A path that may be written under the profile and one of the write paths of the agent.\<close>

definition admitted :: "(string \<Rightarrow> string \<Rightarrow> bool) \<Rightarrow> Sandbox \<Rightarrow> string \<Rightarrow> bool" where
  "admitted G s p \<longleftrightarrow> SafeRelative p \<and> \<not> Protected p \<and> ag_ToolProfile (sx_Agent s) \<noteq> ''publisher'' \<and>
     (\<exists>wp\<in>set (ag_WritePaths (sx_Agent s)). G p wp)"

text \<open>The glob matcher matches at most what \<open>G\<close> does, whenever it is called.\<close>

definition globs :: "outside \<Rightarrow> (string \<Rightarrow> string \<Rightarrow> bool) \<Rightarrow> bool" where
  "globs X G \<longleftrightarrow> (\<forall>h n p. w_GlobMatch (o_world X h) n p \<longrightarrow> G n p)"

lemma admitted_mono: "admitted F s p \<Longrightarrow> (\<And>n q. F n q \<Longrightarrow> G n q) \<Longrightarrow> admitted G s p"
  by (auto simp: admitted_def)

lemma written_admitted:
  assumes "Call w fs s (tc_Name tc) (tc_Args tc) = (r, fs')" "written w tc r = Inr ps" "p \<in> set ps"
  shows "admitted (w_GlobMatch w) s p"
proof -
  from assms(2,3) obtain t0 args where r: "r = Inr t0" and name: "tc_Name tc = ''write_file''"
    and args: "UnmarshalArgs w (tc_Args tc) = Inr args" and p: "p = ta_Path args"
    by (auto simp: written_def bindR_eq_Inr split: sum.splits if_splits)
  with assms(1) have "check w fs s p True = Inr ()"
    by (auto simp: Call_def Write_def bindR_def split: if_splits sum.splits prod.splits)
  then show ?thesis
    using check_Inr [of w fs s p True] by (auto simp: admitted_def check_def split: if_splits)
qed

text \<open>The messages that answer the calls of a turn, one each and in order.\<close>

definition answers :: "Message \<Rightarrow> ToolCall \<Rightarrow> bool" where
  "answers m tc \<longleftrightarrow> ms_Role m = ''tool'' \<and> ms_CallID m = tc_ID tc \<and> ms_Calls m = []"

lemma call_tool_spec:
  assumes "call_tool X s tc out ms st = (e, out', ms', st')"
  shows "goes_on st st'" "rs_Iterations out' = rs_Iterations out"
    "e = None \<Longrightarrow> \<exists>m. ms' = ms @ [m] \<and> answers m tc"
    "\<exists>h ps. rs_WrittenPaths out' = rs_WrittenPaths out @ ps \<and> (\<forall>p\<in>set ps. admitted (w_GlobMatch (o_world X h)) s p)"
proof -
  let ?e1 = "emit X ''agent.tool_call'' (JObj [(''call_id'', JStr (tc_ID tc)), (''tool'', JStr (tc_Name tc)),
            (''args_summary'', JStr (Truncate (tc_Args tc) 200))]) st"
  have "goes_on st st' \<and> rs_Iterations out' = rs_Iterations out \<and> (e = None \<longrightarrow> (\<exists>m. ms' = ms @ [m] \<and> answers m tc)) \<and>
    (\<exists>h ps. rs_WrittenPaths out' = rs_WrittenPaths out @ ps \<and> (\<forall>p\<in>set ps. admitted (w_GlobMatch (o_world X h)) s p))"
  proof (cases "o_ctx X (n_done st)")
    case (Some e1)
    with assms have "e = Some e1" "out' = out" "ms' = ms" "st' = st" by (simp_all add: call_tool_def)
    then show ?thesis by simp
  next
    case None
    obtain r1 st1 where e1: "?e1 = (r1, st1)" by (cases ?e1)
    have g1: "goes_on st st1" by (rule emit_goes_on [OF e1])
    show ?thesis
    proof (cases r1)
      case (Inl e2)
      with assms None e1 g1 show ?thesis by (auto simp: call_tool_def)
    next
      case (Inr u)
      let ?w = "o_world X (n_done st1)"
      obtain r fs' where c: "Call ?w (o_tree X (n_done st1) (n_tree st1)) s (tc_Name tc) (tc_Args tc) = (r, fs')"
        by (cases "Call ?w (o_tree X (n_done st1) (n_tree st1)) s (tc_Name tc) (tc_Args tc)")
      let ?st2 = "acted (Called (tc_Name tc) (tc_Args tc)) (st1\<lparr>n_tree := fs'\<rparr>)"
      have g2: "goes_on st ?st2" by (rule goes_on_trans [OF g1 goes_on_acted(2)]) simp
      show ?thesis
      proof (cases "written ?w tc r")
        case (Inl e2)
        with assms None e1 Inr c g2 show ?thesis by (auto simp: call_tool_def)
      next
        case w: (Inr ps)
        have adm: "\<forall>p\<in>set ps. admitted (w_GlobMatch ?w) s p" using written_admitted [OF c w] by blast
        let ?e3 = "emit X ''agent.tool_result'' (JObj [(''call_id'', JStr (tc_ID tc)), (''tool'', JStr (tc_Name tc)),
            (''ok'', JBool (case r of Inl _ \<Rightarrow> False | Inr _ \<Rightarrow> True)), (''summary'', JStr (Truncate (observation ?w tc r) 200)),
            (''duration_ms'', JInt (o_millis X (n_done ?st2)))]) ?st2"
        obtain r3 st3 where e3: "?e3 = (r3, st3)" by (cases ?e3)
        have g3: "goes_on st st3" by (rule goes_on_trans [OF g2 emit_goes_on [OF e3]])
        show ?thesis
          using assms None e1 Inr c w e3 g3 adm
          by (cases r3) (auto simp: call_tool_def answers_def simp del: acted_simps)
      qed
    qed
  qed
  then show "goes_on st st'" "rs_Iterations out' = rs_Iterations out" "e = None \<Longrightarrow> \<exists>m. ms' = ms @ [m] \<and> answers m tc"
    "\<exists>h ps. rs_WrittenPaths out' = rs_WrittenPaths out @ ps \<and> (\<forall>p\<in>set ps. admitted (w_GlobMatch (o_world X h)) s p)" by blast+
qed

lemma call_tools_spec:
  assumes "call_tools X s tcs out ms st = (e, out', ms', st')" and "globs X G"
  shows "goes_on st st' \<and> rs_Iterations out' = rs_Iterations out \<and>
    (e = None \<longrightarrow> (\<exists>rs. ms' = ms @ rs \<and> list_all2 answers rs tcs)) \<and>
    (\<exists>ps. rs_WrittenPaths out' = rs_WrittenPaths out @ ps \<and> (\<forall>p\<in>set ps. admitted G s p))"
  using assms
proof (induction X s tcs out ms st rule: call_tools.induct)
  case (1 X s out ms st)
  then show ?case by simp
next
  case (2 X s tc tcs out ms st)
  obtain e1 out1 ms1 st1 where one: "call_tool X s tc out ms st = (e1, out1, ms1, st1)" by (cases "call_tool X s tc out ms st")
  note spec = call_tool_spec [OF one]
  obtain h ps where ps: "rs_WrittenPaths out1 = rs_WrittenPaths out @ ps" "\<forall>p\<in>set ps. admitted (w_GlobMatch (o_world X h)) s p"
    using spec(4) by blast
  have adm: "\<forall>p\<in>set ps. admitted G s p" using ps(2) admitted_mono "2.prems"(2) unfolding globs_def by blast
  show ?case
  proof (cases e1)
    case (Some e2)
    with one "2.prems"(1) have "e = Some e2" "out' = out1" "st' = st1" by auto
    with spec(1,2) ps(1) adm show ?thesis by auto
  next
    case None
    with one "2.prems"(1) have rest: "call_tools X s tcs out1 ms1 st1 = (e, out', ms', st')" by simp
    obtain m where m: "ms1 = ms @ [m]" "answers m tc" using spec(3) None by blast
    have IH: "goes_on st1 st' \<and> rs_Iterations out' = rs_Iterations out1 \<and>
      (e = None \<longrightarrow> (\<exists>rs. ms' = ms1 @ rs \<and> list_all2 answers rs tcs)) \<and>
      (\<exists>ps. rs_WrittenPaths out' = rs_WrittenPaths out1 @ ps \<and> (\<forall>p\<in>set ps. admitted G s p))"
      by (rule "2.IH" [OF one [symmetric] None refl refl rest "2.prems"(2)])
    then obtain qs where qs: "rs_WrittenPaths out' = rs_WrittenPaths out1 @ qs" "\<forall>p\<in>set qs. admitted G s p" by blast
    have "goes_on st st'" using IH spec(1) goes_on_trans by blast
    moreover have "rs_Iterations out' = rs_Iterations out" using IH spec(2) by simp
    moreover have "\<exists>rs. ms' = ms @ rs \<and> list_all2 answers rs (tc # tcs)" if "e = None"
      using IH that m by auto
    moreover have "rs_WrittenPaths out' = rs_WrittenPaths out @ (ps @ qs)" "\<forall>p\<in>set (ps @ qs). admitted G s p"
      using ps(1) adm qs by auto
    ultimately show ?thesis by blast
  qed
qed

section \<open>What one iteration does\<close>

text \<open>A message of the model that calls tools, followed by the answers.\<close>

definition exchange :: "Message list \<Rightarrow> bool" where
  "exchange r \<longleftrightarrow> (\<exists>a rs. r = a # rs \<and> ms_Role a = ''assistant'' \<and> ms_Calls a \<noteq> [] \<and> list_all2 answers rs (ms_Calls a))"

text \<open>
  The actions of one iteration: the budget is checked, the thinking event is emitted, and only
  when both went well is the model asked, once, with the messages so far.
\<close>

definition guarded :: "outside \<Rightarrow> Input \<Rightarrow> asked \<Rightarrow> nat \<Rightarrow> Message list \<Rightarrow> action list \<Rightarrow> action list \<Rightarrow> bool" where
  "guarded X inp k i ms old xs \<longleftrightarrow> list_all (\<lambda>a. \<not> is_chat a) xs \<or>
     (\<exists>ys. xs = [Checked (in_TaskID inp), Emitted ''agent.thinking'' (thinking inp k i), Chatted (k_model k) (request k ms)] @ ys \<and>
        list_all (\<lambda>a. \<not> is_chat a) ys \<and>
        (\<forall>guard. o_budget X = Some guard \<longrightarrow> guard (old @ [Checked (in_TaskID inp)]) = Inr ()))"

fun end_state :: "turn_end \<Rightarrow> run_state" where
  "end_state (Return e out st) = st"
| "end_state (Next out ms st) = st"

fun end_result :: "turn_end \<Rightarrow> Result" where
  "end_result (Return e out st) = out"
| "end_result (Next out ms st) = out"

lemma answered_spec:
  assumes "answered X s inp final reply out ms st = t" and glob: "globs X G"
  shows "goes_on st (end_state t)" "rs_Iterations (end_result t) = rs_Iterations out"
    "t = Next out' ms' st' \<Longrightarrow> in_Mode inp \<noteq> ''plan'' \<and> (\<exists>r. ms' = ms @ r \<and> exchange r)"
    "\<exists>ps. rs_WrittenPaths (end_result t) = rs_WrittenPaths out @ ps \<and> (\<forall>p\<in>set ps. admitted G s p)"
    "in_Mode inp = ''plan'' \<Longrightarrow> end_state t = st"
proof -
  let ?a = "\<lparr>ms_Role = ''assistant'', ms_Text = cs_Text reply, ms_CallID = [], ms_Calls = cs_ToolCalls reply\<rparr>"
  let ?c = "call_tools X s (cs_ToolCalls reply) out (ms @ [?a]) st"
  obtain e1 out1 ms1 st1 where c: "?c = (e1, out1, ms1, st1)" by (cases ?c)
  note spec = call_tools_spec [OF c glob]
  let ?m = "emit X ''agent.message'' (JObj [(''text'', JStr hit_limit), (''hit_limit'', JBool True)]) st1"
  obtain r2 st2 where m: "?m = (r2, st2)" by (cases ?m)
  have g2: "goes_on st st2" using spec emit_goes_on [OF m] goes_on_trans by blast
  have next_ms: "\<exists>r. ms1 = ms @ r \<and> exchange r" if "e1 = None" "cs_ToolCalls reply \<noteq> []"
  proof -
    from spec that(1) obtain rs where "ms1 = ms @ ?a # rs" "list_all2 answers rs (cs_ToolCalls reply)" by auto
    with that(2) have "ms1 = ms @ (?a # rs)" "exchange (?a # rs)" by (auto simp: exchange_def)
    then show ?thesis by blast
  qed
  consider (silent) "cs_ToolCalls reply = []" "t = Return None (out\<lparr>rs_Content := cs_Text reply\<rparr>) st"
    | (plan) "in_Mode inp = ''plan''" "t = Return (Some (Errorf ''plan phase must not call tools'')) out st"
    | (failed) e where "in_Mode inp \<noteq> ''plan''" "t = Return (Some e) out1 st1"
    | (limit) e where "in_Mode inp \<noteq> ''plan''" "t = Return (Some e) (out1\<lparr>rs_HitLimit := True, rs_Content := hit_limit\<rparr>) st2"
    | (final) "in_Mode inp \<noteq> ''plan''" "e1 = None" "cs_ToolCalls reply \<noteq> []" "t = Next (out1\<lparr>rs_HitLimit := True, rs_Content := hit_limit\<rparr>) ms1 st2"
    | (more) "in_Mode inp \<noteq> ''plan''" "e1 = None" "cs_ToolCalls reply \<noteq> []" "t = Next out1 ms1 st1"
    using assms(1) c m
    by (cases e1; cases r2; cases final; cases "cs_ToolCalls reply = []"; cases "in_Mode inp = ''plan''") (auto simp: answered_def)
  note cases = this
  show "goes_on st (end_state t)" using cases spec g2 by cases auto
  show "rs_Iterations (end_result t) = rs_Iterations out" using cases spec by cases auto
  show "t = Next out' ms' st' \<Longrightarrow> in_Mode inp \<noteq> ''plan'' \<and> (\<exists>r. ms' = ms @ r \<and> exchange r)"
    using cases next_ms by cases auto
  show "\<exists>ps. rs_WrittenPaths (end_result t) = rs_WrittenPaths out @ ps \<and> (\<forall>p\<in>set ps. admitted G s p)"
    using cases spec by cases auto
  show "in_Mode inp = ''plan'' \<Longrightarrow> end_state t = st" using cases by cases auto
qed

lemma turn_cases:
  assumes "turn X s inp k final i out ms st = t"
  obtains (early) xs e st' where "t = Return (Some e) out st'" "n_tree st' = n_tree st" "n_done st' = n_done st @ xs"
      "guarded X inp k i ms (n_done st) xs" "list_all (\<lambda>a. \<not> is_call a) xs"
    | (usage) e st' xs where "t = Return (Some e) (out\<lparr>rs_Iterations := int i + 1\<rparr>) st'" "n_tree st' = n_tree st"
      "n_done st' = n_done st @ xs" "guarded X inp k i ms (n_done st) xs" "list_all (\<lambda>a. \<not> is_call a) xs"
    | (reply) reply st' xs where "t = answered X s inp final reply (out\<lparr>rs_Iterations := int i + 1\<rparr>) ms st'"
      "n_tree st' = n_tree st" "n_done st' = n_done st @ xs" "guarded X inp k i ms (n_done st) xs" "list_all (\<lambda>a. \<not> is_call a) xs"
      "\<not> list_all (\<lambda>a. \<not> is_chat a) xs"
proof -
  let ?task = "in_TaskID inp"
  let ?st1 = "acted (Checked ?task) st"
  let ?st2 = "acted (Emitted ''agent.thinking'' (thinking inp k i)) ?st1"
  let ?st3 = "acted (Chatted (k_model k) (request k ms)) ?st2"
  define r1 where "r1 = (case o_budget X of None \<Rightarrow> Inr () | Some guard \<Rightarrow> guard (n_done ?st1))"
  have b: "budget_check X ?task st = (r1, ?st1)" by (simp add: budget_check_def r1_def Let_def)
  have e2: "emit X ''agent.thinking'' (thinking inp k i) ?st1 = (o_emit X (n_done ?st2), ?st2)" by (simp add: emit_def)
  have c: "chat X (k_model k) (request k ms) ?st2 = (o_chat X (n_done ?st3), ?st3)" by (simp add: chat_def)
  have grant: "guard (n_done st @ [Checked ?task]) = Inr ()" if "r1 = Inr ()" "o_budget X = Some guard" for guard
    using r1_def that by simp
  show ?thesis
  proof (cases r1)
    case (Inl e)
    then show ?thesis
      using assms b by (intro early [of e ?st1 "[Checked ?task]"]) (simp_all add: turn_def guarded_def)
  next
    case g: (Inr u)
    show ?thesis
    proof (cases "o_emit X (n_done ?st2)")
      case (Inl e)
      then show ?thesis
        using assms b g e2 by (intro early [of e ?st2 "[Checked ?task, Emitted ''agent.thinking'' (thinking inp k i)]"])
          (simp_all add: turn_def guarded_def)
    next
      case e: (Inr u2)
      show ?thesis
      proof (cases "o_chat X (n_done ?st3)")
        case (Inl e1)
        then show ?thesis
          using assms b g e2 e c grant
          by (intro early [of e1 ?st3 "[Checked ?task, Emitted ''agent.thinking'' (thinking inp k i), Chatted (k_model k) (request k ms)]"])
            (simp_all add: turn_def guarded_def)
      next
        case ch: (Inr reply)
        let ?st4 = "acted (Emitted ''usage'' (usage_payload reply)) ?st3"
        let ?xs = "[Checked ?task, Emitted ''agent.thinking'' (thinking inp k i), Chatted (k_model k) (request k ms), Emitted ''usage'' (usage_payload reply)]"
        have e4: "emit X ''usage'' (usage_payload reply) ?st3 = (o_emit X (n_done ?st4), ?st4)" by (simp add: emit_def)
        have gd: "guarded X inp k i ms (n_done st) ?xs" using grant g by (simp add: guarded_def)
        show ?thesis
        proof (cases "o_emit X (n_done ?st4)")
          case (Inl e1)
          then show ?thesis
            using assms b g e2 e c ch e4 gd by (intro usage [of e1 ?st4 ?xs]) (simp_all add: turn_def)
        next
          case (Inr u4)
          then show ?thesis
            using assms b g e2 e c ch e4 gd by (intro reply [of reply ?st4 ?xs]) (simp_all add: turn_def)
        qed
      qed
    qed
  qed
qed

lemma guarded_more:
  assumes "guarded X inp k i ms old xs" "list_all (\<lambda>a. \<not> is_chat a) ys"
  shows "guarded X inp k i ms old (xs @ ys)"
  using assms by (auto simp: guarded_def)

lemma turn_spec:
  assumes "turn X s inp k final i out ms st = t" and glob: "globs X G"
  shows "\<exists>xs. n_done (end_state t) = n_done st @ xs \<and> guarded X inp k i ms (n_done st) xs \<and>
      (in_Mode inp = ''plan'' \<longrightarrow> list_all (\<lambda>a. \<not> is_call a) xs \<and> n_tree (end_state t) = n_tree st)"
    "rs_Iterations (end_result t) = rs_Iterations out \<or> rs_Iterations (end_result t) = int i + 1"
    "t = Next out' ms' st' \<Longrightarrow> in_Mode inp \<noteq> ''plan'' \<and> (\<exists>r. ms' = ms @ r \<and> exchange r)"
    "\<exists>ps. rs_WrittenPaths (end_result t) = rs_WrittenPaths out @ ps \<and> (\<forall>p\<in>set ps. admitted G s p)"
proof -
  have "(\<exists>xs. n_done (end_state t) = n_done st @ xs \<and> guarded X inp k i ms (n_done st) xs \<and>
      (in_Mode inp = ''plan'' \<longrightarrow> list_all (\<lambda>a. \<not> is_call a) xs \<and> n_tree (end_state t) = n_tree st)) \<and>
    (rs_Iterations (end_result t) = rs_Iterations out \<or> rs_Iterations (end_result t) = int i + 1) \<and>
    (\<forall>out' ms' st'. t = Next out' ms' st' \<longrightarrow> in_Mode inp \<noteq> ''plan'' \<and> (\<exists>r. ms' = ms @ r \<and> exchange r)) \<and>
    (\<exists>ps. rs_WrittenPaths (end_result t) = rs_WrittenPaths out @ ps \<and> (\<forall>p\<in>set ps. admitted G s p))"
    using assms(1)
  proof (cases rule: turn_cases)
    case (early xs e st')
    then show ?thesis by simp
  next
    case (usage e st' xs)
    then show ?thesis by simp
  next
    case (reply reply st' xs)
    note a = answered_spec [OF reply(1) [symmetric] glob]
    obtain ys where ys: "n_done (end_state t) = n_done st' @ ys" "list_all (\<lambda>a. \<not> is_chat a) ys"
      using a(1) by (auto simp: goes_on_def)
    have "n_done (end_state t) = n_done st @ (xs @ ys)" "guarded X inp k i ms (n_done st) (xs @ ys)"
      using ys reply guarded_more by auto
    moreover have "list_all (\<lambda>a. \<not> is_call a) (xs @ ys) \<and> n_tree (end_state t) = n_tree st" if "in_Mode inp = ''plan''"
      using a(5) [OF that] ys reply by simp
    ultimately have one: "\<exists>xs. n_done (end_state t) = n_done st @ xs \<and> guarded X inp k i ms (n_done st) xs \<and>
      (in_Mode inp = ''plan'' \<longrightarrow> list_all (\<lambda>a. \<not> is_call a) xs \<and> n_tree (end_state t) = n_tree st)" by blast
    have two: "rs_Iterations (end_result t) = int i + 1" using a(2) by simp
    have "\<exists>ps. rs_WrittenPaths (end_result t) = rs_WrittenPaths out @ ps \<and> (\<forall>p\<in>set ps. admitted G s p)" using a(4) by simp
    with one two a(3) show ?thesis by blast
  qed
  then show "\<exists>xs. n_done (end_state t) = n_done st @ xs \<and> guarded X inp k i ms (n_done st) xs \<and>
      (in_Mode inp = ''plan'' \<longrightarrow> list_all (\<lambda>a. \<not> is_call a) xs \<and> n_tree (end_state t) = n_tree st)"
    "rs_Iterations (end_result t) = rs_Iterations out \<or> rs_Iterations (end_result t) = int i + 1"
    "t = Next out' ms' st' \<Longrightarrow> in_Mode inp \<noteq> ''plan'' \<and> (\<exists>r. ms' = ms @ r \<and> exchange r)"
    "\<exists>ps. rs_WrittenPaths (end_result t) = rs_WrittenPaths out @ ps \<and> (\<forall>p\<in>set ps. admitted G s p)" by blast+
qed

section \<open>What the loop does\<close>

definition dialogue :: "Message \<Rightarrow> Message list \<Rightarrow> bool" where
  "dialogue u ms \<longleftrightarrow> (\<exists>rounds. ms = u # concat rounds \<and> list_all exchange rounds)"

lemma dialogue_start: "dialogue u [u]"
  unfolding dialogue_def by (rule exI [of _ "[]"]) simp

lemma dialogue_more:
  assumes "dialogue u ms" "exchange r"
  shows "dialogue u (ms @ r)"
proof -
  obtain rounds where "ms = u # concat rounds" "list_all exchange rounds" using assms(1) unfolding dialogue_def by blast
  with assms(2) have "ms @ r = u # concat (rounds @ [r])" "list_all exchange (rounds @ [r])" by simp_all
  then show ?thesis unfolding dialogue_def by blast
qed

text \<open>
  Every question to the model follows a granted check of the budget and the thinking event at
  once, and its messages are a dialogue.
\<close>

definition well_asked :: "outside \<Rightarrow> Input \<Rightarrow> asked \<Rightarrow> Message \<Rightarrow> action list \<Rightarrow> action list \<Rightarrow> bool" where
  "well_asked X inp k u old xs \<longleftrightarrow> (\<forall>ys m rq zs. xs = ys @ Chatted m rq # zs \<longrightarrow>
     m = k_model k \<and> (\<exists>ms. rq = request k ms \<and> dialogue u ms) \<and>
     (\<exists>ys' i. ys = ys' @ [Checked (in_TaskID inp), Emitted ''agent.thinking'' (thinking inp k i)] \<and>
        (\<forall>guard. o_budget X = Some guard \<longrightarrow> guard (old @ ys' @ [Checked (in_TaskID inp)]) = Inr ())))"

lemma no_chat_split: "list_all (\<lambda>a. \<not> is_chat a) xs \<Longrightarrow> xs \<noteq> ys @ Chatted m rq # zs"
  by auto

lemma guarded_well_asked:
  assumes "guarded X inp k i ms old xs" "dialogue u ms"
  shows "well_asked X inp k u old xs" "chats xs \<le> 1"
proof -
  let ?head = "[Checked (in_TaskID inp), Emitted ''agent.thinking'' (thinking inp k i)]"
  consider (none) "list_all (\<lambda>a. \<not> is_chat a) xs"
    | (one) tail where "xs = ?head @ Chatted (k_model k) (request k ms) # tail" "list_all (\<lambda>a. \<not> is_chat a) tail"
      "\<forall>guard. o_budget X = Some guard \<longrightarrow> guard (old @ [Checked (in_TaskID inp)]) = Inr ()"
    using assms(1) by (auto simp: guarded_def)
  then show "well_asked X inp k u old xs"
  proof cases
    case none
    then show ?thesis using no_chat_split unfolding well_asked_def by blast
  next
    case one
    have "ys = ?head \<and> m = k_model k \<and> rq = request k ms" if "xs = ys @ Chatted m rq # zs" for ys m rq zs
      using that one(1,2) by (auto simp: append_eq_Cons_conv Cons_eq_append_conv)
    then show ?thesis using one(3) assms(2) unfolding well_asked_def by (metis append_Nil)
  qed
  show "chats xs \<le> 1" using assms(1) by (auto simp: guarded_def chats_def filter_False list_all_iff)
qed

lemma well_asked_append:
  assumes "well_asked X inp k u old xs" "well_asked X inp k u (old @ xs) ys"
  shows "well_asked X inp k u old (xs @ ys)"
  unfolding well_asked_def
proof (intro allI impI)
  fix as m rq zs assume eq: "xs @ ys = as @ Chatted m rq # zs"
  let ?good = "\<lambda>old as. m = k_model k \<and> (\<exists>ms. rq = request k ms \<and> dialogue u ms) \<and>
     (\<exists>ys' i. as = ys' @ [Checked (in_TaskID inp), Emitted ''agent.thinking'' (thinking inp k i)] \<and>
        (\<forall>guard. o_budget X = Some guard \<longrightarrow> guard (old @ ys' @ [Checked (in_TaskID inp)]) = Inr ()))"
  from eq consider (left) bs where "xs = as @ Chatted m rq # bs" | (right) bs where "as = xs @ bs" "ys = bs @ Chatted m rq # zs"
    by (auto simp: append_eq_append_conv2 append_eq_Cons_conv Cons_eq_append_conv)
  then show "?good old as"
  proof cases
    case left
    then show ?thesis using assms(1) unfolding well_asked_def by blast
  next
    case right
    then have "?good (old @ xs) bs" using assms(2) unfolding well_asked_def by blast
    then obtain cs i where "m = k_model k" "\<exists>ms. rq = request k ms \<and> dialogue u ms"
      and "bs = cs @ [Checked (in_TaskID inp), Emitted ''agent.thinking'' (thinking inp k i)]"
      and "\<forall>guard. o_budget X = Some guard \<longrightarrow> guard ((old @ xs) @ cs @ [Checked (in_TaskID inp)]) = Inr ()" by blast
    with right(1) show ?thesis
      by (intro conjI exI [of _ "xs @ cs"] exI [of _ i]) simp_all
  qed
qed

lemma turns_spec:
  assumes "turns X s inp k left i out ms st = (e, out', st')" and "globs X G"
    and "dialogue u ms" "rs_Iterations out \<le> int i"
  shows "\<exists>xs. n_done st' = n_done st @ xs \<and> well_asked X inp k u (n_done st) xs \<and> chats xs \<le> left \<and>
      (in_Mode inp = ''plan'' \<longrightarrow> list_all (\<lambda>a. \<not> is_call a) xs \<and> n_tree st' = n_tree st) \<and>
      rs_Iterations out' \<le> int (i + left) \<and>
      (\<exists>ps. rs_WrittenPaths out' = rs_WrittenPaths out @ ps \<and> (\<forall>p\<in>set ps. admitted G s p))"
  using assms
proof (induction left arbitrary: i out ms st)
  case 0
  then show ?case by (auto simp: well_asked_def)
next
  case (Suc left)
  define t where "t = turn X s inp k (left = 0) i out ms st"
  note spec = turn_spec [OF t_def [symmetric] Suc.prems(2)]
  obtain xs where xs: "n_done (end_state t) = n_done st @ xs" "guarded X inp k i ms (n_done st) xs"
    "in_Mode inp = ''plan'' \<longrightarrow> list_all (\<lambda>a. \<not> is_call a) xs \<and> n_tree (end_state t) = n_tree st" using spec(1) by blast
  obtain ps where ps: "rs_WrittenPaths (end_result t) = rs_WrittenPaths out @ ps" "\<forall>p\<in>set ps. admitted G s p" using spec(4) by blast
  note ask = guarded_well_asked [OF xs(2) Suc.prems(3)]
  have it: "rs_Iterations (end_result t) \<le> int (i + 1)" using spec(2) Suc.prems(4) by auto
  show ?case
  proof (cases t)
    case (Return e1 out1 st1)
    with Suc.prems(1) have "out' = end_result t" "st' = end_state t" by (simp_all add: t_def [symmetric])
    with xs ps ask it show ?thesis by (intro exI [of _ xs]) auto
  next
    case (Next out1 ms1 st1)
    obtain r where r: "ms1 = ms @ r" "exchange r" "in_Mode inp \<noteq> ''plan''" using spec(3) [OF Next] by blast
    have d: "dialogue u ms1" using dialogue_more [OF Suc.prems(3) r(2)] r(1) by simp
    have "turns X s inp k left (i + 1) out1 ms1 st1 = (e, out', st')" using Suc.prems(1) Next by (simp add: t_def [symmetric])
    from Suc.IH [OF this Suc.prems(2) d] it Next obtain ys qs where
      ys: "n_done st' = n_done st1 @ ys" "well_asked X inp k u (n_done st1) ys" "chats ys \<le> left" "rs_Iterations out' \<le> int (i + 1 + left)"
        "rs_WrittenPaths out' = rs_WrittenPaths out1 @ qs" "\<forall>p\<in>set qs. admitted G s p" by auto
    have "well_asked X inp k u (n_done st) (xs @ ys)" using well_asked_append ask(1) ys(2) xs(1) Next by simp
    moreover have "rs_WrittenPaths out' = rs_WrittenPaths out @ (ps @ qs)" "\<forall>p\<in>set (ps @ qs). admitted G s p" using ps ys(5,6) Next by auto
    ultimately show ?thesis using xs(1) ys ask(2) Next r(3) by (intro exI [of _ "xs @ ys"]) auto
  qed
qed

section \<open>What a run does\<close>

lemma finish_frame:
  assumes "finish X s inp a out st = (e, out', st')"
  shows "n_done st' = n_done st" "rs_Iterations out' = rs_Iterations out" "rs_WrittenPaths out' = rs_WrittenPaths out"
    "in_Mode inp = ''plan'' \<Longrightarrow> st' = st"
  using assms by (auto simp: finish_def Let_def split: if_splits sum.splits prod.splits)

definition user_message :: "Input \<Rightarrow> Message" where
  "user_message inp = \<lparr>ms_Role = ''user'', ms_Text = snd (Prompts inp (agent_of (in_Definition inp) (sp_Agent (in_Stage inp)))),
     ms_CallID = [], ms_Calls = []\<rparr>"

definition stage_box :: "Input \<Rightarrow> string list \<Rightarrow> Sandbox" where
  "stage_box inp root = \<lparr>sx_Root = root, sx_Agent = agent_of (in_Definition inp) (sp_Agent (in_Stage inp)),
     sx_Allowed = sp_Tools (in_Stage inp)\<rparr>"

lemma Run_cases:
  assumes "Run X rg inp st = (e, out, st')"
  obtains (refused) e1 where "e = Some e1" "out = zero_Result" "st' = st"
    | (asked) root k e1 out1 st1 where "OpenRoot (n_tree st) (df_Workspace (in_Definition inp)) = Inr root"
      "k_specs k = (if in_Mode inp = ''execute'' then Tools (stage_box inp root) else [])"
      "turns X (stage_box inp root) inp k (iteration_limit inp) 0 zero_Result [user_message inp] st = (e1, out1, st1)"
      "(e, out, st') = (case e1 of Some e2 \<Rightarrow> (Some e2, out1, st1)
         | None \<Rightarrow> finish X (stage_box inp root) inp (sx_Agent (stage_box inp root)) out1 st1)"
proof -
  let ?d = "in_Definition inp"
  let ?a = "agent_of ?d (sp_Agent (in_Stage inp))" and ?model = "Model ?d (in_Stage inp)"
  show ?thesis
  proof (cases "OpenRoot (n_tree st) (df_Workspace ?d)")
    case (Inl e1)
    with assms show ?thesis by (intro refused [of e1]) (simp_all add: Run_def)
  next
    case root: (Inr root)
    show ?thesis
    proof (cases "Registry_Get rg ?model")
      case (Inl e1)
      with assms root show ?thesis by (intro refused [of e1]) (simp_all add: Run_def)
    next
      case m: (Inr m)
      let ?k = "\<lparr>k_model = m, k_name = (if rg_ForceFake rg \<or> ?model = [] \<or> ?model = ''fake'' then ''fake/echo'' else ?model),
        k_system = fst (Prompts inp ?a), k_specs = (if in_Mode inp = ''execute'' then Tools (stage_box inp root) else [])\<rparr>"
      let ?t = "turns X (stage_box inp root) inp ?k (iteration_limit inp) 0 zero_Result [user_message inp] st"
      obtain e1 out1 st1 where t: "?t = (e1, out1, st1)" by (cases ?t)
      have box: "\<lparr>sx_Root = root, sx_Agent = ?a, sx_Allowed = sp_Tools (in_Stage inp)\<rparr> = stage_box inp root" by (simp add: stage_box_def)
      have user: "\<lparr>ms_Role = ''user'', ms_Text = snd (Prompts inp ?a), ms_CallID = [], ms_Calls = []\<rparr> = user_message inp"
        by (simp add: user_message_def)
      have "Run X rg inp st = (case ?t of (Some e, out, st) \<Rightarrow> (Some e, out, st)
          | (None, out, st) \<Rightarrow> finish X (stage_box inp root) inp ?a out st)"
        by (simp only: Run_def Let_def root m sum.case box split_beta user)
      then have "(e, out, st') = (case ?t of (Some e, out, st) \<Rightarrow> (Some e, out, st)
          | (None, out, st) \<Rightarrow> finish X (stage_box inp root) inp ?a out st)" using assms by simp
      with t show ?thesis by (intro asked [OF root _ t]) (auto simp: stage_box_def split: option.splits)
    qed
  qed
qed

lemma Run_spec:
  assumes run: "Run X rg inp st = (e, out, st')" and glob: "globs X G"
  shows "\<exists>k xs root. n_done st' = n_done st @ xs \<and> well_asked X inp k (user_message inp) (n_done st) xs \<and>
      (in_Mode inp \<noteq> ''execute'' \<longrightarrow> k_specs k = []) \<and> chats xs \<le> iteration_limit inp \<and>
      (in_Mode inp = ''plan'' \<longrightarrow> list_all (\<lambda>a. \<not> is_call a) xs \<and> n_tree st' = n_tree st) \<and>
      rs_Iterations out \<le> int (iteration_limit inp) \<and> (\<forall>p\<in>set (rs_WrittenPaths out). admitted G (stage_box inp root) p)"
  using run
proof (cases rule: Run_cases)
  case (refused e1)
  then show ?thesis
    by (intro exI [of _ "\<lparr>k_model = Fake, k_name = [], k_system = [], k_specs = []\<rparr>"] exI [of _ "[]"])
      (simp add: well_asked_def zero_Result_def)
next
  case (asked root k e1 out1 st1)
  obtain xs ps where xs: "n_done st1 = n_done st @ xs" "well_asked X inp k (user_message inp) (n_done st) xs" "chats xs \<le> iteration_limit inp"
      "in_Mode inp = ''plan'' \<longrightarrow> list_all (\<lambda>a. \<not> is_call a) xs \<and> n_tree st1 = n_tree st" "rs_Iterations out1 \<le> int (iteration_limit inp)"
      "rs_WrittenPaths out1 = ps" "\<forall>p\<in>set ps. admitted G (stage_box inp root) p"
    using turns_spec [OF asked(3) glob dialogue_start] by (auto simp: zero_Result_def)
  have "n_done st' = n_done st1 \<and> rs_Iterations out = rs_Iterations out1 \<and> rs_WrittenPaths out = rs_WrittenPaths out1 \<and>
      (in_Mode inp = ''plan'' \<longrightarrow> st' = st1)"
    using asked(4) finish_frame by (cases e1) (simp_all, metis)
  with xs asked(2) show ?thesis by (intro exI [of _ k] exI [of _ xs] exI [of _ root]) auto
qed

section \<open>Properties\<close>

text \<open>A run of one stage whose model answers at once.\<close>

definition quick :: outside where
  "quick = \<lparr>o_budget = None, o_emit = (\<lambda>_. Inr ()),
     o_chat = (\<lambda>_. Inr \<lparr>cs_Text = ''done'', cs_ToolCalls = [], cs_Model = ''m'', cs_Usage = \<lparr>us_Input = 1, us_Output = 1, us_CacheRead = 0, us_CacheWrite = 0\<rparr>\<rparr>),
     o_ctx = (\<lambda>_. None), o_millis = (\<lambda>_. 0), o_world = (\<lambda>_. box_world), o_tree = (\<lambda>_ fs. fs)\<rparr>"

definition quick_input :: "string \<Rightarrow> Input" where
  "quick_input mode = \<lparr>in_TaskID = ''t'', in_Command = ''do'', in_Mode = mode, in_Plan = [], in_Feedback = [], in_Inputs = [],
     in_Stage = \<lparr>sp_ID = [], sp_Agent = [], sp_DependsOn = None, sp_Approvals = None, sp_Model = [], sp_Tools = None\<rparr>,
     in_Definition = \<lparr>df_Pipeline = default_Pipeline, df_Agents = [([], sx_Agent tool_box)], df_ProjectSpec = [], df_Workspace = ''/ws''\<rparr>,
     in_RetryNo = 0\<rparr>"

text \<open>A model that writes a file in its first turn and then is down.\<close>

definition busy :: outside where
  "busy = quick\<lparr>o_chat := (\<lambda>h. if chats h = 1
     then Inr \<lparr>cs_Text = [], cs_ToolCalls = [\<lparr>tc_ID = ''c1'', tc_Name = ''write_file'', tc_Args = ''docs/new.md''\<rparr>], cs_Model = ''m'',
       cs_Usage = \<lparr>us_Input = 1, us_Output = 1, us_CacheRead = 0, us_CacheWrite = 0\<rparr>\<rparr>
     else Inl (Errorf ''down''))\<rparr>"

definition fake_registry :: Registry where
  "fake_registry = \<lparr>rg_Providers = [], rg_ForceFake = True\<rparr>"

definition box_state :: run_state where
  "box_state = \<lparr>n_tree = box_tree, n_done = []\<rparr>"

lemma box_open: "OpenRoot box_tree ''/ws'' = Inr [''ws'']"
  by code_simp

lemma quick_fields [simp]:
  "in_Mode (quick_input mode) = mode" "in_TaskID (quick_input mode) = ''t''" "df_Workspace (in_Definition (quick_input mode)) = ''/ws''"
  "stage_box (quick_input mode) [''ws''] = tool_box" "iteration_limit (quick_input mode) = (if mode = ''plan'' then 1 else 40)"
  "Registry_Get fake_registry m = (case Registry_Validate [] m of Inl e \<Rightarrow> Inl e | Inr _ \<Rightarrow> Inr Fake)"
  "Model (in_Definition (quick_input mode)) (in_Stage (quick_input mode)) = []"
  "n_tree box_state = box_tree" "n_done box_state = []"
  by (simp_all add: quick_input_def stage_box_def agent_of_def tool_box_def iteration_limit_def default_Pipeline_def zero_Pipeline_def zero_Policy_def
      Registry_Get_def fake_registry_def Model_def zero_AgentSpec_def box_state_def bindR_def split: sum.split)

lemma quick_run:
  "\<exists>k. k_model k = Fake \<and> Run X fake_registry (quick_input mode) box_state =
    (case turns X tool_box (quick_input mode) k (if mode = ''plan'' then 1 else 40) 0 zero_Result [user_message (quick_input mode)] box_state of
       (Some e, out, st) \<Rightarrow> (Some e, out, st) | (None, out, st) \<Rightarrow> finish X tool_box (quick_input mode) (sx_Agent tool_box) out st)"
proof -
  let ?i = "quick_input mode"
  let ?a = "agent_of (in_Definition ?i) (sp_Agent (in_Stage ?i))"
  have box: "\<lparr>sx_Root = [''ws''], sx_Agent = ?a, sx_Allowed = sp_Tools (in_Stage ?i)\<rparr> = tool_box"
    using quick_fields(4) [of mode] by (simp only: stage_box_def)
  have a: "?a = sx_Agent tool_box" using arg_cong [OF box, of sx_Agent] by simp
  have user: "\<lparr>ms_Role = ''user'', ms_Text = snd (Prompts ?i ?a), ms_CallID = [], ms_Calls = []\<rparr> = user_message ?i"
    by (simp add: user_message_def)
  have get: "Registry_Get fake_registry [] = Inr Fake" by (simp add: Registry_Validate_def)
  let ?k = "\<lparr>k_model = Fake, k_name = ''fake/echo'', k_system = fst (Prompts ?i ?a), k_specs = (if in_Mode ?i = ''execute'' then Tools tool_box else [])\<rparr>"
  have "Run X fake_registry ?i box_state = (case turns X tool_box ?i ?k (iteration_limit ?i) 0 zero_Result [user_message ?i] box_state of
       (Some e, out, st) \<Rightarrow> (Some e, out, st) | (None, out, st) \<Rightarrow> finish X tool_box ?i ?a out st)"
    by (simp only: Run_def Let_def quick_fields(3,7,8) box_open get sum.case box split_beta user simp_thms if_True)
  then show ?thesis by (intro exI [of _ ?k]) (simp only: quick_fields(5) a simp_thms asked.simps)
qed

lemma call_write: "Call box_world box_tree tool_box ''write_file'' ''docs/new.md'' = (Inr ''wrote docs/new.md'', put box_tree [''ws'', ''docs'', ''new.md''] (Reg []))"
proof -
  have args: "UnmarshalArgs box_world ''docs/new.md'' = Inr (zero_ToolArgs\<lparr>ta_Path := ''docs/new.md''\<rparr>)" by code_simp
  have wr: "Write box_world box_tree tool_box ''docs/new.md'' [] = (Inr (), put box_tree [''ws'', ''docs'', ''new.md''] (Reg []))"
    by (simp add: Write_def root_write_def box_missing_3 box_missing_4 root_dir_def)
  have "''write_file'' \<in> set (tool_names (sx_Agent tool_box) (sx_Allowed tool_box))"
    by (simp add: tool_names_def tool_box_def zero_AgentSpec_def)
  then show ?thesis by (simp add: Call_def Tools_names args wr zero_ToolArgs_def)
qed

lemma busy_run:
  "\<exists>e out st. Run busy fake_registry (quick_input ''execute'') box_state = (e, out, st) \<and> rs_WrittenPaths out = [''docs/new.md'']"
proof -
  obtain k where run: "Run busy fake_registry (quick_input ''execute'') box_state =
    (case turns busy tool_box (quick_input ''execute'') k 40 0 zero_Result [user_message (quick_input ''execute'')] box_state of
       (Some e, out, st) \<Rightarrow> (Some e, out, st) | (None, out, st) \<Rightarrow> finish busy tool_box (quick_input ''execute'') (sx_Agent tool_box) out st)"
    using quick_run [of busy "''execute''"] by auto
  have args: "UnmarshalArgs box_world ''docs/new.md'' = Inr (zero_ToolArgs\<lparr>ta_Path := ''docs/new.md''\<rparr>)" by code_simp
  have "\<exists>out st. turns busy tool_box (quick_input ''execute'') k (Suc (Suc n)) 0 zero_Result [user_message (quick_input ''execute'')] box_state =
      (Some (Errorf ''down''), out, st) \<and> rs_WrittenPaths out = [''docs/new.md'']" for n
    by (simp add: turn_def answered_def budget_check_def emit_def chat_def busy_def quick_def call_tool_def call_write written_def args
        zero_ToolArgs_def zero_Result_def Let_def)
  from this [of 38] have "\<exists>out st. turns busy tool_box (quick_input ''execute'') k 40 0 zero_Result [user_message (quick_input ''execute'')] box_state =
      (Some (Errorf ''down''), out, st) \<and> rs_WrittenPaths out = [''docs/new.md'']" by (simp only: Suc_numeral semiring_norm)
  then show ?thesis unfolding run by force
qed

lemma quick_plan:
  "\<exists>out st p u rq. Run quick fake_registry (quick_input ''plan'') box_state = (None, out, st) \<and>
     n_done st = [Checked ''t'', Emitted ''agent.thinking'' p, Chatted Fake rq, Emitted ''usage'' u]"
proof -
  obtain k where k: "k_model k = Fake" and run: "Run quick fake_registry (quick_input ''plan'') box_state =
    (case turns quick tool_box (quick_input ''plan'') k 1 0 zero_Result [user_message (quick_input ''plan'')] box_state of
       (Some e, out, st) \<Rightarrow> (Some e, out, st) | (None, out, st) \<Rightarrow> finish quick tool_box (quick_input ''plan'') (sx_Agent tool_box) out st)"
    using quick_run [of quick "''plan''"] by auto
  have "\<exists>out st p u rq. turns quick tool_box (quick_input ''plan'') k (Suc 0) 0 zero_Result [user_message (quick_input ''plan'')] box_state = (None, out, st) \<and>
      n_done st = [Checked ''t'', Emitted ''agent.thinking'' p, Chatted Fake rq, Emitted ''usage'' u]"
    by (simp add: turn_def answered_def budget_check_def emit_def chat_def quick_def Let_def k)
  then show ?thesis unfolding run by (force simp: finish_def)
qed



text \<open>
  C21. The model is asked only right after the budget guard has granted it and the thinking event
  has been recorded, and always with a well-formed dialogue: the user's message, then rounds of
  a message that calls tools followed by exactly one answer for each call, in order and under its
  identifier. Outside the execution phase it is offered no tools.
\<close>

theorem asked_within_budget:
  assumes "Run X rg inp st = (e, out, st')" "n_done st' = n_done st @ ys @ Chatted m rq # zs"
  shows "dialogue (user_message inp) (cq_Messages rq) \<and> (in_Mode inp \<noteq> ''execute'' \<longrightarrow> cq_Tools rq = []) \<and>
    (\<exists>as p. ys = as @ [Checked (in_TaskID inp), Emitted ''agent.thinking'' p] \<and>
       (\<forall>guard. o_budget X = Some guard \<longrightarrow> guard (n_done st @ as @ [Checked (in_TaskID inp)]) = Inr ()))"
proof -
  obtain k where "well_asked X inp k (user_message inp) (n_done st) (ys @ Chatted m rq # zs)" "in_Mode inp \<noteq> ''execute'' \<longrightarrow> k_specs k = []"
    using Run_spec [OF assms(1), of "\<lambda>_ _. True"] assms(2) by (auto simp: globs_def)
  then obtain ms as i where "rq = request k ms" "dialogue (user_message inp) ms"
    "ys = as @ [Checked (in_TaskID inp), Emitted ''agent.thinking'' (thinking inp k i)]"
    "\<forall>guard. o_budget X = Some guard \<longrightarrow> guard (n_done st @ as @ [Checked (in_TaskID inp)]) = Inr ()"
    "in_Mode inp \<noteq> ''execute'' \<longrightarrow> k_specs k = []"
    unfolding well_asked_def by blast
  then show ?thesis by (auto simp: request_def)
qed

theorem asked_within_budget_witness:
  "\<exists>out st p u rq. Run quick fake_registry (quick_input ''plan'') box_state = (None, out, st) \<and>
     n_done st = [Checked ''t'', Emitted ''agent.thinking'' p, Chatted Fake rq, Emitted ''usage'' u] \<and>
     dialogue (user_message (quick_input ''plan'')) (cq_Messages rq) \<and> cq_Tools rq = []"
proof -
  obtain out st p u rq where run: "Run quick fake_registry (quick_input ''plan'') box_state = (None, out, st)"
    and tr: "n_done st = [Checked ''t'', Emitted ''agent.thinking'' p, Chatted Fake rq, Emitted ''usage'' u]" using quick_plan by blast
  have "n_done st = n_done box_state @ [Checked ''t'', Emitted ''agent.thinking'' p] @ Chatted Fake rq # [Emitted ''usage'' u]" using tr by simp
  from asked_within_budget [OF run this] run tr show ?thesis by simp
qed

text \<open>
  C22. Planning has no side effect on the workspace: a run in plan mode calls no tool and leaves
  every file as it was.
\<close>

theorem plan_changes_nothing:
  assumes "Run X rg inp st = (e, out, st')" "in_Mode inp = ''plan''"
  shows "n_tree st' = n_tree st \<and> (\<forall>name args. Called name args \<in> set (n_done st') \<longrightarrow> Called name args \<in> set (n_done st))"
  using Run_spec [OF assms(1), of "\<lambda>_ _. True"] assms(2) by (fastforce simp: globs_def list_all_iff)

theorem plan_changes_nothing_witness:
  "\<exists>e out st. Run busy fake_registry (quick_input ''plan'') box_state = (e, out, st) \<and> n_tree st = box_tree"
proof -
  obtain e out st where run: "Run busy fake_registry (quick_input ''plan'') box_state = (e, out, st)"
    by (cases "Run busy fake_registry (quick_input ''plan'') box_state")
  show ?thesis using plan_changes_nothing [OF run] run by simp
qed

text \<open>
  Every path a run reports as written is one its agent may write: safe, not protected, matched
  by a write path, and never for a publisher.
\<close>

theorem written_paths_admitted:
  assumes "Run X rg inp st = (e, out, st')" "globs X G" "p \<in> set (rs_WrittenPaths out)"
    and "a = agent_of (in_Definition inp) (sp_Agent (in_Stage inp))"
  shows "SafeRelative p \<and> \<not> Protected p \<and> ag_ToolProfile a \<noteq> ''publisher'' \<and> (\<exists>wp\<in>set (ag_WritePaths a). G p wp)"
  using Run_spec [OF assms(1,2)] assms(3,4) by (auto simp: admitted_def stage_box_def)

theorem written_paths_admitted_witness:
  "\<exists>e out st. Run busy fake_registry (quick_input ''execute'') box_state = (e, out, st) \<and> rs_WrittenPaths out = [''docs/new.md''] \<and>
     \<not> Protected ''docs/new.md'' \<and> star_match ''docs/new.md'' ''docs/*''"
proof -
  obtain e out st where run: "Run busy fake_registry (quick_input ''execute'') box_state = (e, out, st)"
    and p: "rs_WrittenPaths out = [''docs/new.md'']" using busy_run by blast
  have "globs busy star_match" by (simp add: globs_def busy_def quick_def box_world_def)
  from written_paths_admitted [OF run this _ refl] p have "\<not> Protected ''docs/new.md''"
    "\<exists>wp\<in>set (ag_WritePaths (agent_of (in_Definition (quick_input ''execute'')) (sp_Agent (in_Stage (quick_input ''execute''))))). star_match ''docs/new.md'' wp"
    by simp_all
  then show ?thesis using run p by (simp add: quick_input_def agent_of_def tool_box_def)
qed

text \<open>The heading survives the limit on what is read.\<close>

lemma HasPrefix_limit_text: "length p \<le> 200000 \<Longrightarrow> HasPrefix (limit_text c) p = HasPrefix c p"
  by (simp add: HasPrefix_def limit_text_def Let_def min_def)

lemma HasPrefix_append: "HasPrefix (p @ x) p"
  by (simp add: HasPrefix_def)

lemma stamp_heading: "HasPrefix (stamp inp a @ c) ''> Task:''"
  by (simp add: HasPrefix_def stamp_def)

text \<open>When a run that wrote files ends well, the last file written starts with the heading line and the result refers to it.\<close>

lemma finish_heading:
  assumes fin: "finish X s inp a out st = (None, out', st')" and ex: "in_Mode inp = ''execute''" "rs_WrittenPaths out \<noteq> []"
    and tree: "tree = o_tree X (n_done st) (n_tree st)" and fs: "\<not> is_link tree" and root: "no_slash (sx_Root s)"
    and base: "EvalSymlinks tree (sx_Root s) = Inr base" and dir: "Lstat tree base = Inr (Dir des)"
    and rel: "Resolve tree (sx_Root s) (last (rs_WrittenPaths out)) = Inr rel"
    and nolink: "\<And>q l. prefix q (Split rel slash) \<Longrightarrow> Lstat tree (base @ q) \<noteq> Inr (Lnk l)"
  shows "\<exists>c. Lstat tree (base @ Split rel slash) = Inr (Reg c) \<and> HasPrefix (rs_Content out') ''> Task:'' \<and>
    rs_Ref out' = Some (last (rs_WrittenPaths out)) \<and>
    Lstat (n_tree st') (base @ Split rel slash) = Inr (Reg (if HasPrefix c ''> Task:'' then c else stamp inp a @ limit_text c))"
proof -
  let ?p = "last (rs_WrittenPaths out)" and ?w = "o_world X (n_done st)"
  obtain content where rd: "Read ?w tree s ?p = Inr content"
    using fin ex tree by (cases "Read ?w tree s ?p") (auto simp: finish_def)
  obtain rest c where c: "located tree base rel rest" "Lstat tree (base @ rest) = Inr (Reg c)" "content = limit_text c"
    using Read_Inr [OF rd fs root] base rel by auto
  have "rest \<noteq> []" using c(2) dir by auto
  then have parts: "Split rel slash = rest" using c(1) by (simp add: located_def)
  have pre: "HasPrefix content ''> Task:'' = HasPrefix c ''> Task:''" by (simp add: c(3) HasPrefix_limit_text)
  show ?thesis
  proof (cases "HasPrefix content ''> Task:''")
    case True
    with fin ex tree rd have "rs_Content out' = content" "rs_Ref out' = Some ?p" "n_tree st' = tree" by (auto simp: finish_def)
    with True pre c parts show ?thesis by auto
  next
    case False
    obtain r tree' where wr: "Write ?w tree s ?p (stamp inp a @ content) = (r, tree')" by (cases "Write ?w tree s ?p (stamp inp a @ content)")
    with fin ex tree rd False obtain u where u: "r = Inr u" and eqs: "rs_Content out' = stamp inp a @ content" "rs_Ref out' = Some ?p" "n_tree st' = tree'"
      by (cases r) (auto simp: finish_def)
    have "Lstat tree' (base @ Split rel slash) = Inr (Reg (stamp inp a @ content))"
      using Write_Inr [OF wr [unfolded u] fs root base dir rel nolink] by blast
    with eqs stamp_heading pre False c parts show ?thesis by auto
  qed
qed

text \<open>A workspace with one document.\<close>

definition page :: "string \<Rightarrow> node" where
  "page c = Dir [(''ws'', Dir [(''docs'', Dir [(''plan.md'', Reg c)])])]"

lemma page_base: "EvalSymlinks (page c) [''ws''] = Inr [''ws'']"
  by code_simp

lemma page_path: "root_path (page c) [''ws''] b ''docs/plan.md'' = Inr [''ws'', ''docs'', ''plan.md'']"
proof -
  have "Split ''docs/plan.md'' slash = [''docs'', ''plan.md'']" by code_simp
  then show ?thesis by (simp add: root_path_def page_def)
qed

lemma page_mkdir: "root_mkdir 8 (page c) [''ws''] [''ws''] (Split (Dir_path ''docs/plan.md'') slash) = (Inr (), page c)"
  by code_simp

lemma page_safe: "SafeRelative ''docs/plan.md''"
  by code_simp

lemma page_open: "\<not> Protected ''docs/plan.md''"
  by code_simp

lemma page_glob: "star_match ''docs/plan.md'' ''docs/*''"
  by code_simp

lemma page_rel: "Resolve (page c) [''ws''] ''docs/plan.md'' = Inr ''docs/plan.md''"
proof -
  have parts: "clean_parts True [''ws''] (Split ''docs/plan.md'' slash) = [''ws'', ''docs'', ''plan.md'']" by code_simp
  have rel: "Rel [''ws''] [''ws'', ''docs'', ''plan.md''] = ''docs/plan.md''" by code_simp
  have "EvalSymlinks (page c) [''ws'', ''docs'', ''plan.md''] = Inr [''ws'', ''docs'', ''plan.md'']"
    by (simp add: EvalSymlinks_def page_def)
  then have "resolve_up (page c) [''ws'', ''docs'', ''plan.md''] [] = Inr [''ws'', ''docs'', ''plan.md'']"
    by (subst resolve_up.simps) simp
  then show ?thesis by (simp only: Resolve_def page_safe page_open page_base bindR_simps parts rel Let_def simp_thms if_False)
qed

lemma page_put: "put (page c) [''ws'', ''docs'', ''plan.md''] (Reg c') = page c'"
  by (simp add: page_def)

lemma page_Read: "Read box_world (page c) tool_box ''docs/plan.md'' = Inr (limit_text c)"
proof -
  have "Lstat (page c) [''ws'', ''docs'', ''plan.md''] = Inr (Reg c)" by (simp add: page_def)
  then show ?thesis by (simp add: Read_def check_def root_dir_def page_base page_rel page_path page_safe page_open)
qed

lemma page_Write: "length c' \<le> 2000000 \<Longrightarrow> Write box_world (page c) tool_box ''docs/plan.md'' c' = (Inr (), page c')"
proof -
  assume len: "length c' \<le> 2000000"
  have "list_ex (\<lambda>wp. w_GlobMatch box_world ''docs/plan.md'' wp \<and> w_GlobMatch box_world ''docs/plan.md'' wp) (ag_WritePaths (sx_Agent tool_box))"
    by (simp add: tool_box_def box_world_def page_glob)
  moreover have "ag_ToolProfile (sx_Agent tool_box) \<noteq> ''publisher''" by (simp add: tool_box_def)
  ultimately have "check box_world (page c) tool_box ''docs/plan.md'' True = Inr ()"
    by (simp add: check_def page_base page_rel page_safe page_open)
  moreover have "Lstat (page c) [''ws'', ''docs'', ''plan.md''] = Inr (Reg c)" by (simp add: page_def)
  ultimately show ?thesis using len
    by (simp add: Write_def root_write_def root_dir_def page_base page_rel page_path page_mkdir page_put)
qed

abbreviation one_page :: Result where
  "one_page \<equiv> zero_Result\<lparr>rs_WrittenPaths := [''docs/plan.md'']\<rparr>"

lemma page_finish:
  assumes "length (stamp inp a @ limit_text c) \<le> 2000000" "in_Mode inp = ''execute''" "\<not> HasPrefix c ''> Task:''"
  shows "finish quick tool_box inp a one_page \<lparr>n_tree = page c, n_done = []\<rparr> =
    (None, one_page\<lparr>rs_Ref := Some ''docs/plan.md'', rs_Content := stamp inp a @ limit_text c\<rparr>,
     \<lparr>n_tree = page (stamp inp a @ limit_text c), n_done = []\<rparr>)"
  using assms page_Read [of c] page_Write [of "stamp inp a @ limit_text c" c]
  by (simp add: finish_def quick_def HasPrefix_limit_text Let_def)

lemma short_stamp: "length (stamp (quick_input ''execute'') a) \<le> 100 + length (ag_Name a)"
  by (simp add: stamp_def quick_input_def EncodeRune_def show_int_def digits.simps)

text \<open>
  A deliverable of more than 200000 bytes is cut short in the workspace: the heading is put in
  front of what a tool would have been shown of it, and that is written back.
\<close>

theorem long_deliverable_cut:
  "finish quick tool_box (quick_input ''execute'') zero_AgentSpec one_page \<lparr>n_tree = page (replicate 200001 (CHR ''x'')), n_done = []\<rparr> =
   (let cut = stamp (quick_input ''execute'') zero_AgentSpec @ replicate 200000 (CHR ''x'') @ [nl] @ ''[truncated]''
    in (None, one_page\<lparr>rs_Ref := Some ''docs/plan.md'', rs_Content := cut\<rparr>, \<lparr>n_tree = page cut, n_done = []\<rparr>))"
proof -
  let ?c = "replicate 200001 (CHR ''x'')"
  have lim: "limit_text ?c = replicate 200000 (CHR ''x'') @ [nl] @ ''[truncated]''" by (simp add: limit_text_def min_def)
  have "length (stamp (quick_input ''execute'') zero_AgentSpec @ limit_text ?c) \<le> 2000000"
    using short_stamp [of zero_AgentSpec] limit_text_bound [of ?c] by (simp add: zero_AgentSpec_def)
  moreover have "\<not> HasPrefix ?c ''> Task:''" 
  proof -
    have "?c = CHR ''x'' # replicate 200000 (CHR ''x'')" by (simp only: replicate_Suc [symmetric] Suc_numeral semiring_norm)
    then show ?thesis by (simp only:) (simp add: HasPrefix_def)
  qed
  ultimately show ?thesis using page_finish [of "quick_input ''execute''" zero_AgentSpec ?c] lim by (simp add: Let_def)
qed

end
