(* ===== verification/Orchestrator.thy ===== *)
theory Orchestrator
  imports System_Laws Stage_Runner
begin

text \<open>
  The orchestrator (\<open>internal/orchestrator\<close>): \<open>Reconcile\<close>, the run of a claimed stage, the built-in
  publisher stage and \<open>Recover\<close>. Every access to the store is one read or one transaction; before
  each of them other handlers and runs may take any number of steps. What lies outside (git, the
  hosting service, the snapshot of the definition, the model) is a parameter that may answer
  differently at each access. Shown: each of these procedures refines the step relation of
  \<open>System\<close>, whatever happens in between, so that its invariants hold throughout.
\<close>

section \<open>Procedures over the shared state\<close>

datatype effect = Pushed string string | OpenedPR string

record PullRequest =
  pr_Owner :: string
  pr_Repo :: string
  pr_Head :: string
  pr_Base :: string
  pr_Title :: string
  pr_Body :: string

record Opened =
  op_URL :: string
  op_Number :: int
  op_Created :: bool

record outer =
  q_env :: "nat \<Rightarrow> env"
  q_other :: "nat \<Rightarrow> sys \<Rightarrow> sys"
  q_stop :: "nat \<Rightarrow> err option"
  q_load :: "nat \<Rightarrow> string \<Rightarrow> Definition result"
  q_accept :: "nat \<Rightarrow> string \<Rightarrow> string \<Rightarrow> string list \<Rightarrow> unit result"
  q_reset :: "nat \<Rightarrow> string \<Rightarrow> string list \<Rightarrow> unit result"
  q_branch :: "nat \<Rightarrow> string \<Rightarrow> string \<Rightarrow> string list option \<Rightarrow> string \<Rightarrow> (string \<times> bool) result"
  q_push :: "nat \<Rightarrow> string \<Rightarrow> string \<Rightarrow> string \<Rightarrow> unit result"
  q_open :: "nat \<Rightarrow> PullRequest \<Rightarrow> Opened result"
  q_web :: "string option"
  q_spawn :: "nat \<Rightarrow> bool"
  q_agent :: outside
  q_registry :: Registry
  q_tree :: "nat \<Rightarrow> node"

text \<open>
  The bookkeeping beside the shared state: the identifiers of the stages in the \<open>running\<close> maps, the
  tasks whose context has been cancelled, the runs that were spawned, the hooks that ran after commits, and what was done to the
  hosting service. \<open>or_n\<close> counts the accesses.
\<close>

record orch =
  or_sys :: sys
  or_n :: nat
  or_running :: "string list"
  or_cancelled :: "string list"
  or_spawned :: "(TaskEntity \<times> StageEntity \<times> Input) list"
  or_hooks :: "hook list"
  or_effects :: "effect list"

type_synonym 'a om = "orch \<Rightarrow> 'a result \<times> orch"

definition retO :: "'a \<Rightarrow> 'a om" where
  "retO v o1 = (Inr v, o1)"

definition failO :: "err \<Rightarrow> 'a om" where
  "failO e o1 = (Inl e, o1)"

definition liftO :: "'a result \<Rightarrow> 'a om" where
  "liftO r o1 = (r, o1)"

definition bindO :: "'a om \<Rightarrow> ('a \<Rightarrow> 'b om) \<Rightarrow> 'b om" where
  "bindO m f o1 = (case m o1 of (Inl e, o2) \<Rightarrow> (Inl e, o2) | (Inr v, o2) \<Rightarrow> f v o2)"

fun eachO :: "('a \<Rightarrow> unit om) \<Rightarrow> 'a list \<Rightarrow> unit om" where
  "eachO f [] = retO ()"
| "eachO f (x # xs) = bindO (f x) (\<lambda>_. eachO f xs)"

text \<open>The steps others take before an access.\<close>

definition others :: "outer \<Rightarrow> orch \<Rightarrow> orch" where
  "others w o1 = o1\<lparr>or_sys := q_other w (or_n o1) (or_sys o1), or_n := or_n o1 + 1\<rparr>"

definition askO :: "outer \<Rightarrow> (nat \<Rightarrow> 'a result) \<Rightarrow> 'a om" where
  "askO w f o1 = (let o2 = others w o1 in (f (or_n o2), o2))"

definition readO :: "outer \<Rightarrow> (db \<Rightarrow> 'a result) \<Rightarrow> 'a om" where
  "readO w f o1 = (let o2 = others w o1 in (f (y_db (or_sys o2)), o2))"

definition txO :: "outer \<Rightarrow> 'a txm \<Rightarrow> 'a om" where
  "txO w m o1 =
     (let o2 = others w o1; (r, d, hs) = WithTx (q_env w (or_n o2)) m (y_db (or_sys o2))
      in (r, o2\<lparr>or_sys := set_db d (or_sys o2), or_hooks := or_hooks o2 @ hs,
        or_cancelled := List.map_filter (\<lambda>h. case h of CancelTask rid \<Rightarrow> Some rid | _ \<Rightarrow> None) hs @ or_cancelled o2\<rparr>))"

section \<open>Reconcile\<close>

definition accept_stage :: "outer \<Rightarrow> TaskEntity \<Rightarrow> Definition \<Rightarrow> StageEntity \<Rightarrow> unit om" where
  "accept_stage w t d s =
     (if s_Status s = ''approved''
      then askO w (\<lambda>n. q_accept w n (t_Workspace t) (s_StageKey s) (ag_WritePaths (agent_of d (s_Role s))))
      else retO ())"

text \<open>After a claim: the run is entered into \<open>running\<close> and spawned; a closed orchestrator spawns nothing.\<close>

definition spawn_run :: "outer \<Rightarrow> TaskEntity \<Rightarrow> StageEntity \<Rightarrow> Input \<Rightarrow> unit om" where
  "spawn_run w t claimed inp o1 =
     (let o2 = o1\<lparr>or_sys := (or_sys o1)\<lparr>y_claims := (t_ID t, claimed, inp) # y_claims (or_sys o1)\<rparr>\<rparr>
      in if q_spawn w (or_n o1)
         then (Inr (), o2\<lparr>or_running := s_ID claimed # or_running o2, or_spawned := or_spawned o2 @ [(t, claimed, inp)]\<rparr>)
         else (Inr (), o2))"

definition claim_stage :: "outer \<Rightarrow> TaskEntity \<Rightarrow> Definition \<Rightarrow> StageEntity list \<Rightarrow> StageEntity \<Rightarrow> unit om" where
  "claim_stage w t d stages s o1 =
     (let mode = stage_mode s stages
      in if s_ID s \<in> set (or_running o1) \<or> mode = [] then (Inr (), o1)
         else case txO w (claim_tx (t_ID t) s mode) o1 of
             (Inl e, o2) \<Rightarrow> if errors_Is e ErrStale then (Inr (), o2) else (Inl e, o2)
           | (Inr claimed, o2) \<Rightarrow>
               (case claim_input t d stages s mode claimed of
                  None \<Rightarrow> (Inl (Errorf (''missing stage in pipeline snapshot: '' @ s_StageKey s)), o2)
                | Some inp \<Rightarrow> spawn_run w t claimed inp o2))"

definition reconcile_live :: "outer \<Rightarrow> string \<Rightarrow> TaskEntity \<Rightarrow> Definition \<Rightarrow> StageEntity list \<Rightarrow> unit om" where
  "reconcile_live w rid t d stages =
     (if Terminal (t_Status t) \<or> t_Status t = ''paused'' \<or> t_Status t = ''blocked'' then retO ()
      else bindO (if t_Status t = ''queued'' then txO w (start_tx rid d) else retO ()) (\<lambda>_.
           bindO (eachO (claim_stage w t d stages) stages) (\<lambda>_.
           txO w (derive_tx rid))))"

definition Reconcile :: "outer \<Rightarrow> string \<Rightarrow> unit om" where
  "Reconcile w rid =
     bindO (\<lambda>o1. case q_stop w (or_n o1) of Some e \<Rightarrow> (Inl e, o1) | None \<Rightarrow> (Inr (), o1)) (\<lambda>_.
     bindO (readO w (\<lambda>db. Reader_Task db rid)) (\<lambda>t.
     bindO (readO w (\<lambda>db. Inr (Reader_Stages db rid))) (\<lambda>stages.
       if t_Status t = ''failed'' \<or> t_Status t = ''cancelled''
       then (\<lambda>o1. (Inr (), o1\<lparr>or_cancelled := rid # or_cancelled o1\<rparr>))
       else (\<lambda>o1. case askO w (\<lambda>n. q_load w n (t_Workspace t)) o1 of
           (Inl e, o2) \<Rightarrow> txO w (fail_tx (t_ID t) [] 0 e) o2
         | (Inr d0, o2) \<Rightarrow>
             (let d = pipeline_snapshot t d0
              in bindO (eachO (accept_stage w t d) stages) (\<lambda>_. reconcile_live w rid t d stages) o2)))))"

section \<open>The publisher stage\<close>

record branch =
  br_role :: string
  br_name :: string
  br_source :: string
  br_patterns :: "string list option"
  br_stages :: "nat list"

definition stage_report :: "ApprovalEntity list \<Rightarrow> StageEntity \<Rightarrow> StageReport" where
  "stage_report approvals s =
     \<lparr>sr_Key = s_StageKey s, sr_Role = s_Role s, sr_Branch = [], sr_Ref = Text (s_DeliverableRef s),
       sr_Summary = Text (s_DeliverableSummary s),
       sr_Approvals = map (\<lambda>a. \<lparr>ar_Kind = a_Kind a, ar_RetryNo = a_RetryNo a, ar_Status = a_Status a, ar_DecidedBy = Text (a_DecidedBy a),
           ar_DecidedAt = a_DecidedAt a, ar_Feedback = Text (a_DecisionFeedback a)\<rparr>)
         (filter (\<lambda>a. a_StageID a = s_ID s \<and> a_Status a \<noteq> ''pending'') approvals)\<rparr>"

definition report :: "outer \<Rightarrow> TaskEntity \<Rightarrow> ProjectEntity \<Rightarrow> Definition \<Rightarrow> Report om" where
  "report w t p d =
     bindO (readO w (\<lambda>db. Inr (Reader_Stages db (t_ID t)))) (\<lambda>stages.
     bindO (readO w (\<lambda>db. Inr (Reader_Approvals db (Some (t_ID t)) None))) (\<lambda>approvals.
     retO \<lparr>rp_TaskID = t_ID t, rp_Command = t_Command t, rp_Owner = p_GithubOwner p, rp_Repo = p_GithubRepo p, rp_WebURL = [],
       rp_Stages = map (stage_report approvals) (filter (\<lambda>s. s_Status s = ''approved'' \<and>
         ag_ToolProfile (agent_of d (s_Role s)) \<noteq> ''publisher'') stages)\<rparr>))"

definition branches_of :: "TaskEntity \<Rightarrow> Definition \<Rightarrow> string \<Rightarrow> Report \<Rightarrow> branch list" where
  "branches_of t d mode rep =
     (let n = length (rp_Stages rep)
      in if mode = ''single'' then [\<lparr>br_role = ''all'', br_name = ''devsquad/'' @ t_ID t, br_source = ''HEAD'', br_patterns = None, br_stages = [0..<n]\<rparr>]
         else List.map_filter (\<lambda>i. let s = rp_Stages rep ! i; paths = ag_WritePaths (agent_of d (sr_Role s))
             in if paths = [] then None
                else Some \<lparr>br_role = sr_Role s, br_name = ''devsquad/'' @ t_ID t @ ''/'' @ sr_Role s,
                  br_source = ''refs/devsquad/approved/'' @ sr_Key s, br_patterns = Some paths, br_stages = [i]\<rparr>) [0..<n])"

definition done_effect :: "effect \<Rightarrow> unit om" where
  "done_effect e o1 = (Inr (), o1\<lparr>or_effects := or_effects o1 @ [e]\<rparr>)"

definition publishing :: "string \<Rightarrow> 'a result \<Rightarrow> 'a result" where
  "publishing what r = (case r of Inl e \<Rightarrow> Inl (ErrPublish (Wrapf what e)) | Inr v \<Rightarrow> Inr v)"

definition set_branch :: "branch \<Rightarrow> Report \<Rightarrow> Report" where
  "set_branch b rep = rep\<lparr>rp_Stages := fold (\<lambda>i ss. ss[i := (ss ! i)\<lparr>sr_Branch := br_name b\<rparr>]) (br_stages b) (rp_Stages rep)\<rparr>"

fun push_all :: "outer \<Rightarrow> TaskEntity \<Rightarrow> branch list \<Rightarrow> Report \<Rightarrow> branch list \<Rightarrow> (Report \<times> branch list) om" where
  "push_all w t [] rep pushed = retO (rep, pushed)"
| "push_all w t (b # bs) rep pushed =
     bindO (askO w (\<lambda>n. publishing (''build branch '' @ br_name b @ '': '')
         (q_branch w n (t_Workspace t) (br_source b) (br_patterns b) (Title (t_Command t) (br_role b))))) (\<lambda>(sha, changed).
       if \<not> changed then push_all w t bs rep pushed
       else bindO (askO w (\<lambda>n. publishing (''push '' @ br_name b @ '': '') (q_push w n (t_Workspace t) sha (br_name b)))) (\<lambda>_.
            bindO (done_effect (Pushed (br_name b) sha)) (\<lambda>_.
            push_all w t bs (set_branch b rep) (pushed @ [b]))))"

fun open_all :: "outer \<Rightarrow> TaskEntity \<Rightarrow> StageEntity \<Rightarrow> ProjectEntity \<Rightarrow> string \<Rightarrow> string \<Rightarrow> string \<Rightarrow> branch list \<Rightarrow> string \<Rightarrow> string om" where
  "open_all w t c p mode base body [] links = retO links"
| "open_all w t c p mode base body (b # bs) links =
     bindO (askO w (\<lambda>n. publishing (''open pull request for '' @ br_name b @ '': '')
         (q_open w n \<lparr>pr_Owner = p_GithubOwner p, pr_Repo = p_GithubRepo p, pr_Head = br_name b, pr_Base = base,
            pr_Title = Title (t_Command t) (if mode = ''single'' then [] else br_role b), pr_Body = body\<rparr>))) (\<lambda>pr.
     bindO (done_effect (OpenedPR (br_name b))) (\<lambda>_.
     bindO (txO w (progress_tx (t_ID t) c ''pr.opened'' (JObj [(''url'', JStr (op_URL pr)), (''number'', JInt (op_Number pr)),
         (''role'', JStr (br_role b)), (''branch'', JStr (br_name b)), (''created'', JBool (op_Created pr))]))) (\<lambda>_.
     open_all w t c p mode base body bs (links @ ''- [#'' @ show_int (op_Number pr) @ '' '' @ br_role b @ '']('' @ op_URL pr @ '')''
       @ utf8 [0x20, 0xB7, 0x20, 0x60] @ br_name b @ ''`'' @ [nl]))))"

definition skipped :: string where
  "skipped = utf8 [0x23, 0x23, 0x20, 0x50, 0x52, 0x20, 0xC0DD, 0xC131, 0x20, 0xAC74, 0xB108, 0xB700] @ [nl, nl]"

definition publish_plan :: "ProjectEntity \<Rightarrow> bool \<Rightarrow> string \<Rightarrow> string \<Rightarrow> Report \<Rightarrow> string" where
  "publish_plan p remote base mode rep =
     utf8 [0x23, 0x23, 0x20, 0x50, 0x52, 0x20, 0xACC4, 0xD68D] @ [nl, nl] @ utf8 [0x2D, 0x20, 0xB300, 0xC0C1, 0x3A, 0x20]
     @ (if remote then p_GithubOwner p @ ''/'' @ p_GithubRepo p @ '' (base: '' @ base @ '', '' @ mode @ '')''
        else utf8 [0xC5C6, 0xC74C, 0x3A, 0x20, 0xC6D0, 0xACA9, 0x20, 0xC800, 0xC7A5, 0xC18C, 0xC640, 0x20, 0xC5F0, 0xACB0, 0xB418, 0xC9C0,
          0x20, 0xC54A, 0xC740, 0x20, 0xD504, 0xB85C, 0xC81D, 0xD2B8, 0xB77C, 0x20, 0x50, 0x52, 0x20, 0xCD08, 0xC548, 0xB9CC, 0x20, 0xC791,
          0xC131, 0xD569, 0xB2C8, 0xB2E4])
     @ [nl] @ utf8 [0x2D, 0x20, 0xD3EC, 0xD568, 0x20, 0xB2E8, 0xACC4, 0x3A, 0x20] @ Join (map sr_Key (rp_Stages rep)) '', '' @ [nl]"

definition text_result :: "string \<Rightarrow> Result" where
  "text_result content = zero_Result\<lparr>rs_Content := content\<rparr>"

definition publish :: "outer \<Rightarrow> TaskEntity \<Rightarrow> StageEntity \<Rightarrow> Input \<Rightarrow> Result om" where
  "publish w t c inp =
     bindO (readO w (\<lambda>db. Reader_Project db (t_ProjectID t))) (\<lambda>p.
     bindO (report w t p (in_Definition inp)) (\<lambda>rep.
       let policy = pl_Policy (df_Pipeline (in_Definition inp));
           mode = (if PR_Mode policy = [] then ''single'' else PR_Mode policy);
           base = (if PR_BaseBranch policy = [] then p_DefaultBranch p else PR_BaseBranch policy);
           remote = (q_web w \<noteq> None \<and> Text (p_LocalPath p) = [])
       in if in_Mode inp = ''plan'' then retO (text_result (publish_plan p remote base mode rep))
          else if \<not> remote then retO (text_result (skipped
            @ utf8 [0xC6D0, 0xACA9, 0x20, 0xC800, 0xC7A5, 0xC18C, 0xC640, 0x20, 0xC5F0, 0xACB0, 0xB418, 0xC9C0, 0x20, 0xC54A, 0xC740, 0x20, 0xD504,
                0xB85C, 0xC81D, 0xD2B8] @ ''(local_path)'' @ utf8 [0xB77C, 0x20, 0x50, 0x52, 0xC744, 0x20, 0xB9CC, 0xB4E4, 0xC9C0, 0x20, 0xC54A,
                0xC558, 0xC2B5, 0xB2C8, 0xB2E4, 0x2E, 0x20, 0xC544, 0xB798, 0xB294, 0x20, 0x50, 0x52, 0x20, 0xBCF8, 0xBB38, 0x20, 0xCD08, 0xC548,
                0xC785, 0xB2C8, 0xB2E4, 0x2E] @ [nl, nl] @ Body rep))
          else bindO (push_all w t (branches_of t (in_Definition inp) mode rep) (rep\<lparr>rp_WebURL := Text (q_web w)\<rparr>) []) (\<lambda>(rep, pushed).
            if pushed = [] then retO (text_result (skipped @ utf8 [0xC2B9, 0xC778, 0xB41C, 0x20, 0xB2E8, 0xACC4, 0xC5D0, 0x20, 0xBCC0, 0xACBD, 0xB41C,
                0x20, 0xD30C, 0xC77C, 0xC774, 0x20, 0xC5C6, 0xC5B4, 0x20, 0x50, 0x52, 0xC744, 0x20, 0xB9CC, 0xB4E4, 0xC9C0, 0x20, 0xC54A, 0xC558,
                0xC2B5, 0xB2C8, 0xB2E4, 0x2E] @ [nl]))
            else let body = Body rep
                 in bindO (open_all w t c p mode base body pushed []) (\<lambda>links.
                    retO (text_result (''## Pull Requests'' @ [nl, nl] @ links @ [nl] @ body))))))"

section \<open>A run\<close>

definition budgetO :: "outer \<Rightarrow> string \<Rightarrow> unit om" where
  "budgetO w task o1 =
     (let o2 = others w o1; o3 = others w o2; (r, d, hs) = Budget_Check (q_env w (or_n o3)) (y_db (or_sys o2)) (y_db (or_sys o3)) task
      in (r, o3\<lparr>or_sys := set_db d (or_sys o3), or_hooks := or_hooks o3 @ hs\<rparr>))"

text \<open>What the actions of an agent's run do to the store: \<open>in.Emit\<close> is \<open>progress\<close>, the budget guard is the budget service.\<close>

fun act :: "outer \<Rightarrow> string \<Rightarrow> StageEntity \<Rightarrow> action \<Rightarrow> unit om" where
  "act w rid c (Emitted kind payload) = txO w (progress_tx rid c kind payload)"
| "act w rid c (Checked task) = budgetO w task"
| "act w rid c (Chatted m rq) = (\<lambda>o1. (Inr (), others w o1))"
| "act w rid c (Called name args) = (\<lambda>o1. (Inr (), others w o1))"

definition replay :: "outer \<Rightarrow> string \<Rightarrow> StageEntity \<Rightarrow> action list \<Rightarrow> unit om" where
  "replay w rid c tr o1 = fold (\<lambda>a (r, o2). act w rid c a o2) tr (Inr (), o1)"

definition agent_outside :: "outer \<Rightarrow> string \<Rightarrow> StageEntity \<Rightarrow> orch \<Rightarrow> outside" where
  "agent_outside w rid c o1 = (q_agent w)\<lparr>o_budget := Some (\<lambda>h. fst (replay w rid c h o1)), o_emit := (\<lambda>h. fst (replay w rid c h o1))\<rparr>"

definition agent_run :: "outer \<Rightarrow> TaskEntity \<Rightarrow> StageEntity \<Rightarrow> Input \<Rightarrow> Result om" where
  "agent_run w t c inp o1 =
     (let (e, out, st) = Run (agent_outside w (t_ID t) c o1) (q_registry w) inp \<lparr>n_tree = q_tree w (or_n o1), n_done = []\<rparr>
      in (case e of Some e \<Rightarrow> Inl e | None \<Rightarrow> Inr out, snd (replay w (t_ID t) c (n_done st) o1)))"

definition run_ctx :: "outer \<Rightarrow> TaskEntity \<Rightarrow> orch \<Rightarrow> err option" where
  "run_ctx w t o1 = (if t_ID t \<in> set (or_cancelled o1) then Some ErrCanceled else q_stop w (or_n o1))"

definition attempt :: "(outer \<Rightarrow> TaskEntity \<Rightarrow> StageEntity \<Rightarrow> Input \<Rightarrow> Result om) \<Rightarrow> outer \<Rightarrow> TaskEntity \<Rightarrow> StageEntity \<Rightarrow> Input \<Rightarrow> unit om" where
  "attempt runner w t c inp =
     (let a = agent_of (in_Definition inp) (s_Role c)
      in bindO (if in_Mode inp = ''execute'' then askO w (\<lambda>n. q_reset w n (t_Workspace t) (ag_WritePaths a)) else retO ()) (\<lambda>_.
         bindO (if ag_ToolProfile a = ''publisher'' then publish w t c inp else runner w t c inp) (\<lambda>result.
         txO w (commit_tx (t_ID t) c inp result))))"

definition run :: "(outer \<Rightarrow> TaskEntity \<Rightarrow> StageEntity \<Rightarrow> Input \<Rightarrow> Result om) \<Rightarrow> outer \<Rightarrow> TaskEntity \<Rightarrow> StageEntity \<Rightarrow> Input \<Rightarrow> orch \<Rightarrow> orch" where
  "run runner w t c inp o1 =
     (let o3 = (case attempt runner w t c inp o1 of
            (Inr _, o2) \<Rightarrow> o2
          | (Inl e, o2) \<Rightarrow>
              if As_publishError e \<and> run_ctx w t o2 = None then snd (txO w (block_tx (t_ID t) c e) o2)
              else if run_ctx w t o2 = None \<and> \<not> errors_Is e ErrStale \<and> \<not> errors_Is e ErrBudgetExceeded
                then snd (txO w (fail_tx (t_ID t) (s_ID c) (s_Attempt c) e) o2)
              else o2)
      in o3\<lparr>or_running := removeAll (s_ID c) (or_running o3), or_hooks := or_hooks o3 @ [WakeTask (t_ID t)]\<rparr>)"

section \<open>Recover\<close>

fun reconcile_all :: "outer \<Rightarrow> TaskEntity list \<Rightarrow> orch \<Rightarrow> err list \<times> orch" where
  "reconcile_all w [] o1 = ([], o1)"
| "reconcile_all w (t # ts) o1 =
     (if t_Status t = ''failed'' \<or> t_Status t = ''cancelled'' then reconcile_all w ts o1
      else case Reconcile w (t_ID t) o1 of
          (Inl e, o2) \<Rightarrow> (let (es, o3) = reconcile_all w ts o2 in (e # es, o3))
        | (Inr _, o2) \<Rightarrow> reconcile_all w ts o2)"

text \<open>\<open>cleanup\<close> is \<open>Workspace.Cleanup\<close> of the workspace root, given the identifiers of all tasks; \<open>None\<close> without a root.\<close>

definition Recover :: "outer \<Rightarrow> (string list \<Rightarrow> unit result) option \<Rightarrow> orch \<Rightarrow> err list \<times> orch" where
  "Recover w cleanup o1 =
     (let o2 = others w o1; tasks = Reader_Tasks (y_db (or_sys o2)) None None; (es, o3) = reconcile_all w tasks o2
      in case cleanup of
           None \<Rightarrow> (es, o3)
         | Some f \<Rightarrow> (case f (map t_ID tasks) of Inl e \<Rightarrow> (es @ [e], o3) | Inr _ \<Rightarrow> (es, o3)))"

end
