(* ===== verification/Orch_Refines.thy ===== *)
theory Orch_Refines
  imports Orchestrator
begin

text \<open>
  The procedures of the orchestrator refine the step relation of \<open>System\<close>: whatever steps others
  take before each access to the store, what a procedure does to the shared state is again a
  sequence of steps. So the invariants of \<open>System\<close> hold at every moment of \<open>Reconcile\<close>, of a run and
  of \<open>Recover\<close>.
\<close>

section \<open>Going on by steps\<close>

text \<open>Others take steps of the system and forget no claim of this process.\<close>

definition others_step :: "outer \<Rightarrow> bool" where
  "others_step w \<longleftrightarrow> (\<forall>n s. step\<^sup>*\<^sup>* s (q_other w n s) \<and> set (y_claims s) \<subseteq> set (y_claims (q_other w n s)))"

definition goes :: "sys \<Rightarrow> sys \<Rightarrow> bool" where
  "goes s s' \<longleftrightarrow> step\<^sup>*\<^sup>* s s' \<and> set (y_claims s) \<subseteq> set (y_claims s')"

lemma goes_refl [simp]: "goes s s"
  by (simp add: goes_def)

lemma goes_trans: "goes a b \<Longrightarrow> goes b c \<Longrightarrow> goes a c"
  by (auto simp: goes_def)

lemma goes_step: "step s s' \<Longrightarrow> set (y_claims s) \<subseteq> set (y_claims s') \<Longrightarrow> goes s s'"
  by (simp add: goes_def)

lemma goes_tx: "goes s s1 \<Longrightarrow> step s1 (set_db d s1) \<Longrightarrow> goes s (set_db d s1)"
proof -
  assume g: "goes s s1" and st: "step s1 (set_db d s1)"
  have "goes s1 (set_db d s1)" by (rule goes_step [OF st]) (simp add: set_db_def)
  with g show ?thesis by (rule goes_trans)
qed

lemma goes_reachable: "goes s s' \<Longrightarrow> reachable s \<Longrightarrow> reachable s'"
  using reachable_steps by (auto simp: goes_def)

lemma others_goes: "others_step w \<Longrightarrow> goes (or_sys o1) (or_sys (others w o1))"
  by (simp add: others_def others_step_def goes_def)

text \<open>The databases that have been seen stay seen, the present one among them.\<close>

lemma step_seen: "step s s' \<Longrightarrow> set (y_seen s) \<subseteq> set (y_seen s') \<and> (y_db s \<in> set (y_seen s) \<longrightarrow> y_db s' \<in> set (y_seen s'))"
  by (induction rule: step.induct) (auto simp: set_db_def)

lemma steps_seen: "step\<^sup>*\<^sup>* s s' \<Longrightarrow> set (y_seen s) \<subseteq> set (y_seen s') \<and> (y_db s \<in> set (y_seen s) \<longrightarrow> y_db s' \<in> set (y_seen s'))"
  by (induction rule: rtranclp_induct) (use step_seen in blast)+

lemma reachable_seen: "reachable s \<Longrightarrow> y_db s \<in> set (y_seen s)"
  unfolding reachable_def using steps_seen [of start_sys s] by (simp add: start_sys_def)

section \<open>Procedures that only take steps\<close>

definition safeO :: "(sys \<Rightarrow> bool) \<Rightarrow> 'a om \<Rightarrow> bool" where
  "safeO I m \<longleftrightarrow> (\<forall>o1 r o2. reachable (or_sys o1) \<longrightarrow> I (or_sys o1) \<longrightarrow> m o1 = (r, o2) \<longrightarrow> goes (or_sys o1) (or_sys o2))"

lemma safeO_I: "(\<And>o1 r o2. reachable (or_sys o1) \<Longrightarrow> I (or_sys o1) \<Longrightarrow> m o1 = (r, o2) \<Longrightarrow> goes (or_sys o1) (or_sys o2)) \<Longrightarrow> safeO I m"
  by (simp add: safeO_def)

lemma safeO_D: "safeO I m \<Longrightarrow> reachable (or_sys o1) \<Longrightarrow> I (or_sys o1) \<Longrightarrow> m o1 = (r, o2) \<Longrightarrow> goes (or_sys o1) (or_sys o2)"
  unfolding safeO_def by blast

lemma safe_ret: "safeO I (retO v)"
  and safe_fail: "safeO I (failO e)"
  and safe_lift: "safeO I (liftO x)"
  and safe_effect: "safeO I (done_effect f)"
  by (auto simp: safeO_def retO_def failO_def liftO_def done_effect_def)

lemma safe_ask: "others_step w \<Longrightarrow> safeO I (askO w f)"
  by (auto simp: safeO_def askO_def Let_def others_goes)

lemma safe_read: "others_step w \<Longrightarrow> safeO I (readO w f)"
  by (auto simp: safeO_def readO_def Let_def others_goes)

lemma others_inv:
  assumes "others_step w" "reachable (or_sys o1)"
  shows "reachable (or_sys (others w o1))"
  using goes_reachable [OF others_goes [OF assms(1)] assms(2)] .

text \<open>A fact that survives the steps others take.\<close>

locale stable_fact =
  fixes I :: "sys \<Rightarrow> bool"
  assumes stable: "I s \<Longrightarrow> goes s s' \<Longrightarrow> I s'"
begin

lemma bind:
  assumes "safeO I m" "\<And>v. safeO I (f v)"
  shows "safeO I (bindO m f)"
proof (rule safeO_I)
  fix o1 r o2 assume re: "reachable (or_sys o1)" and inv: "I (or_sys o1)" and eq: "bindO m f o1 = (r, o2)"
  obtain r1 o3 where m: "m o1 = (r1, o3)" by (cases "m o1")
  have g: "goes (or_sys o1) (or_sys o3)" by (rule safeO_D [OF assms(1) re inv m])
  show "goes (or_sys o1) (or_sys o2)"
  proof (cases r1)
    case (Inl e)
    with eq m g show ?thesis by (simp add: bindO_def)
  next
    case (Inr v)
    with eq m have "f v o3 = (r, o2)" by (simp add: bindO_def)
    from safeO_D [OF assms(2) goes_reachable [OF g re] stable [OF inv g] this] g show ?thesis by (rule goes_trans [rotated])
  qed
qed

lemma each: "(\<And>x. x \<in> set xs \<Longrightarrow> safeO I (f x)) \<Longrightarrow> safeO I (eachO f xs)"
  by (induction xs) (auto intro: safe_ret bind)

lemma tx:
  assumes "others_step w"
    and "\<And>env s r d hs. reachable s \<Longrightarrow> I s \<Longrightarrow> WithTx env m (y_db s) = (r, d, hs) \<Longrightarrow> step s (set_db d s)"
  shows "safeO I (txO w m)"
proof (rule safeO_I)
  fix o1 r o2 assume re: "reachable (or_sys o1)" and inv: "I (or_sys o1)" and eq: "txO w m o1 = (r, o2)"
  let ?o = "others w o1"
  obtain r' d hs where t: "WithTx (q_env w (or_n ?o)) m (y_db (or_sys ?o)) = (r', d, hs)"
    by (cases "WithTx (q_env w (or_n ?o)) m (y_db (or_sys ?o))")
  have g: "goes (or_sys o1) (or_sys ?o)" by (rule others_goes [OF assms(1)])
  have "step (or_sys ?o) (set_db d (or_sys ?o))" by (rule assms(2) [OF goes_reachable [OF g re] stable [OF inv g] t])
  with g eq t show "goes (or_sys o1) (or_sys o2)" by (auto simp: txO_def Let_def intro: goes_tx)
qed

lemma cond: "(b \<Longrightarrow> safeO I m) \<Longrightarrow> (\<not> b \<Longrightarrow> safeO I n) \<Longrightarrow> safeO I (if b then m else n)"
  by simp

end

interpretation any: stable_fact "\<lambda>_. True"
  by unfold_locales simp

interpretation cl: stable_fact "\<lambda>s. (rid, c, inp) \<in> set (y_claims s)" for rid c inp
  by unfold_locales (auto simp: goes_def)

lemma safe_weaken: "safeO (\<lambda>_. True) m \<Longrightarrow> safeO I m"
  by (simp add: safeO_def)

section \<open>Reconcile\<close>

text \<open>The stages and the task were read from databases that have been seen.\<close>

definition read_from :: "string \<Rightarrow> TaskEntity \<Rightarrow> StageEntity list \<Rightarrow> sys \<Rightarrow> bool" where
  "read_from rid t stages s \<longleftrightarrow> (\<exists>d0\<in>set (y_seen s). \<exists>u. GetTask d0 rid = Inr u \<and> task_static u = task_static t \<and> stages = Reader_Stages d0 rid)"

interpretation rf: stable_fact "read_from rid t stages" for rid t stages
  using steps_seen by unfold_locales (fastforce simp: read_from_def goes_def)

lemma GetTask_ID: "GetTask d rid = Inr t \<Longrightarrow> t_ID t = rid"
  using first_row_Inr by (fastforce simp: GetTask_def)

lemma claim_input_static:
  assumes "task_static t = task_static u"
  shows "claim_input t (pipeline_snapshot t df) stages s mode c = claim_input u (pipeline_snapshot u df) stages s mode c"
proof -
  have "t_ID t = t_ID u" "t_Pipeline t = t_Pipeline u" using assms by (metis task_static_simps(1), metis task_static_simps(2))
  moreover have "t_Command t = t_Command u" using arg_cong [OF assms, of t_Command] by (simp add: task_static_def)
  ultimately have "stage_input t = stage_input u" "pipeline_snapshot t = pipeline_snapshot u"
    by (simp_all add: fun_eq_iff stage_input_def pipeline_snapshot_def)
  then show ?thesis unfolding claim_input_def by (simp only:)
qed

lemma safe_claim_stage:
  assumes w: "others_step w" and st: "st \<in> set stages" and id: "t_ID t = rid"
  shows "safeO (read_from rid t stages) (claim_stage w t (pipeline_snapshot t df) stages st)"
proof (rule safeO_I)
  fix o1 r o2 assume re: "reachable (or_sys o1)" and inv: "read_from rid t stages (or_sys o1)"
    and eq: "claim_stage w t (pipeline_snapshot t df) stages st o1 = (r, o2)"
  let ?mode = "stage_mode st stages" and ?o = "others w o1"
  let ?s = "or_sys ?o"
  have g: "goes (or_sys o1) ?s" by (rule others_goes [OF w])
  obtain d0 u where seen: "d0 \<in> set (y_seen ?s)" "GetTask d0 rid = Inr u" "task_static u = task_static t" "stages = Reader_Stages d0 rid"
    using rf.stable [OF inv g] unfolding read_from_def by blast
  show "goes (or_sys o1) (or_sys o2)"
  proof (cases "s_ID st \<in> set (or_running o1) \<or> ?mode = []")
    case True
    with eq show ?thesis by (simp add: claim_stage_def)
  next
    case False
    obtain r' d hs where t: "WithTx (q_env w (or_n ?o)) (claim_tx rid st ?mode) (y_db ?s) = (r', d, hs)"
      by (cases "WithTx (q_env w (or_n ?o)) (claim_tx rid st ?mode) (y_db ?s)")
    have lost: "step ?s (set_db d ?s)"
      by (rule claim_lost [OF seen(1) _ _ _ t]) (use st False seen(4) in auto)
    show ?thesis
    proof (cases r')
      case (Inl e)
      with eq False t lost id show ?thesis
        by (auto simp: claim_stage_def txO_def Let_def intro: goes_tx [OF g] split: if_splits)
    next
      case (Inr c)
      show ?thesis
      proof (cases "claim_input t (pipeline_snapshot t df) stages st ?mode c")
        case None
        with eq False t lost id Inr show ?thesis
          by (auto simp: claim_stage_def txO_def Let_def intro: goes_tx [OF g])
      next
        case (Some inp)
        have "step ?s (set_db d (?s\<lparr>y_claims := (rid, c, inp) # y_claims ?s\<rparr>))"
        proof (rule claim [OF seen(1,2) _ _ _ t [unfolded Inr]])
          show "st \<in> set (Reader_Stages d0 rid)" using st seen(4) by simp
          show "stage_mode st (Reader_Stages d0 rid) = ?mode" using seen(4) by simp
          show "?mode \<noteq> []" using False by simp
          show "claim_input u (pipeline_snapshot u df) (Reader_Stages d0 rid) st ?mode c = Some inp"
            using Some claim_input_static [OF seen(3)] seen(4) by simp
        qed
        from goes_trans [OF g goes_step [OF this]]
        have "goes (or_sys o1) (set_db d (?s\<lparr>y_claims := (rid, c, inp) # y_claims ?s\<rparr>))" by (auto simp: set_db_def)
        moreover have "or_sys o2 = set_db d (?s\<lparr>y_claims := (rid, c, inp) # y_claims ?s\<rparr>)"
          using eq False t id Inr Some by (auto simp: claim_stage_def txO_def spawn_run_def Let_def set_db_def split: if_splits)
        ultimately show ?thesis by simp
      qed
    qed
  qed
qed

lemma safe_reconcile_live:
  assumes w: "others_step w" and id: "t_ID t = rid"
  shows "safeO (read_from rid t stages) (reconcile_live w rid t (pipeline_snapshot t df) stages)"
proof -
  have start: "safeO (read_from rid t stages) (txO w (start_tx rid (pipeline_snapshot t df)))"
    by (rule rf.tx [OF w]) (rule step.start)
  have derive: "safeO (read_from rid t stages) (txO w (derive_tx rid))" by (rule rf.tx [OF w]) (rule step.derive)
  have claims: "safeO (read_from rid t stages) (eachO (claim_stage w t (pipeline_snapshot t df) stages) stages)"
    by (rule rf.each) (rule safe_claim_stage [OF w _ id])
  show ?thesis unfolding reconcile_live_def
    by (intro rf.cond rf.bind safe_ret start derive claims)
qed

lemma readO_eq: "readO w f o1 = (r, o2) \<longleftrightarrow> o2 = others w o1 \<and> r = f (y_db (or_sys (others w o1)))"
  by (auto simp: readO_def Let_def)

lemma askO_eq: "askO w f o1 = (r, o2) \<longleftrightarrow> o2 = others w o1 \<and> r = f (or_n (others w o1))"
  by (auto simp: askO_def Let_def)

lemma bindO_eq: "bindO m f o1 = (case m o1 of (Inl e, o2) \<Rightarrow> (Inl e, o2) | (Inr v, o2) \<Rightarrow> f v o2)"
  by (simp add: bindO_def)

lemma reads_from:
  assumes "others_step w" "reachable (or_sys o1)" "Reader_Task (y_db (or_sys o1)) rid = Inr t"
  shows "read_from rid t (Reader_Stages (y_db (or_sys (others w o1))) rid) (or_sys (others w o1))"
proof -
  let ?s = "or_sys (others w o1)"
  have re: "reachable ?s" by (rule others_inv [OF assms(1,2)])
  have "later (y_db (or_sys o1)) (y_db ?s)" using others_goes [OF assms(1)] steps_later by (auto simp: goes_def)
  moreover have "GetTask (y_db (or_sys o1)) rid = Inr t" using assms(3) by (simp add: Reader_Task_def)
  ultimately obtain u where "GetTask (y_db ?s) rid = Inr u" "task_later t u"
    using GetTask_later reachable_shape [OF re] by blast
  then show ?thesis using reachable_seen [OF re] unfolding read_from_def task_later_def by blast
qed

lemma safe_reconcile_read:
  assumes w: "others_step w" and id: "t_ID t = rid"
  shows "safeO (read_from rid t stages) (\<lambda>o1. case askO w (\<lambda>n. q_load w n (t_Workspace t)) o1 of
           (Inl e, o2) \<Rightarrow> txO w (fail_tx (t_ID t) [] 0 e) o2
         | (Inr d0, o2) \<Rightarrow>
             (let d = pipeline_snapshot t d0
              in bindO (eachO (accept_stage w t d) stages) (\<lambda>_. reconcile_live w rid t d stages) o2))"
proof (rule safeO_I)
  fix o1 r o2 assume re: "reachable (or_sys o1)" and inv: "read_from rid t stages (or_sys o1)"
    and eq: "(case askO w (\<lambda>n. q_load w n (t_Workspace t)) o1 of (Inl e, o2) \<Rightarrow> txO w (fail_tx (t_ID t) [] 0 e) o2
         | (Inr d0, o2) \<Rightarrow> (let d = pipeline_snapshot t d0
              in bindO (eachO (accept_stage w t d) stages) (\<lambda>_. reconcile_live w rid t d stages) o2)) = (r, o2)"
  let ?o = "others w o1"
  have g: "goes (or_sys o1) (or_sys ?o)" by (rule others_goes [OF w])
  have re': "reachable (or_sys ?o)" by (rule goes_reachable [OF g re])
  have inv': "read_from rid t stages (or_sys ?o)" by (rule rf.stable [OF inv g])
  have "goes (or_sys ?o) (or_sys o2)"
  proof (cases "q_load w (or_n ?o) (t_Workspace t)")
    case (Inl e)
    have "safeO (read_from rid t stages) (txO w (fail_tx (t_ID t) [] 0 e))" by (rule rf.tx [OF w]) (rule step.fail)
    from safeO_D [OF this re' inv'] eq Inl show ?thesis by (simp add: askO_def Let_def)
  next
    case (Inr d0)
    have "safeO (read_from rid t stages) (accept_stage w t (pipeline_snapshot t d0) s)" for s
      unfolding accept_stage_def by (intro rf.cond safe_ask [OF w] safe_ret)
    then have "safeO (read_from rid t stages) (bindO (eachO (accept_stage w t (pipeline_snapshot t d0)) stages)
        (\<lambda>_. reconcile_live w rid t (pipeline_snapshot t d0) stages))"
      by (intro rf.bind rf.each safe_reconcile_live [OF w id])
    from safeO_D [OF this re' inv'] eq Inr show ?thesis by (simp add: askO_def Let_def)
  qed
  with g show "goes (or_sys o1) (or_sys o2)" by (rule goes_trans)
qed

lemma safe_Reconcile:
  assumes w: "others_step w"
  shows "safeO (\<lambda>_. True) (Reconcile w rid)"
proof (rule safeO_I)
  fix o1 r o2 assume re: "reachable (or_sys o1)" and eq: "Reconcile w rid o1 = (r, o2)"
  let ?o1 = "others w o1"
  let ?o2 = "others w ?o1"
  let ?ss = "Reader_Stages (y_db (or_sys ?o2)) rid"
  have g1: "goes (or_sys o1) (or_sys ?o1)" by (rule others_goes [OF w])
  have re1: "reachable (or_sys ?o1)" by (rule goes_reachable [OF g1 re])
  have g2: "goes (or_sys o1) (or_sys ?o2)" by (rule goes_trans [OF g1 others_goes [OF w]])
  show "goes (or_sys o1) (or_sys o2)"
  proof (cases "q_stop w (or_n o1)")
    case (Some e)
    with eq show ?thesis by (simp add: Reconcile_def bindO_def)
  next
    case None
    show ?thesis
    proof (cases "Reader_Task (y_db (or_sys ?o1)) rid")
      case (Inl e)
      with eq None g1 show ?thesis by (simp add: Reconcile_def bindO_def readO_def Let_def)
    next
      case (Inr t)
      have id: "t_ID t = rid" using Inr GetTask_ID by (simp add: Reader_Task_def)
      show ?thesis
      proof (cases "t_Status t = ''failed'' \<or> t_Status t = ''cancelled''")
        case True
        with eq None Inr g2 show ?thesis by (auto simp: Reconcile_def bindO_def readO_def Let_def)
      next
        case False
        have eq2: "(\<lambda>o1. case askO w (\<lambda>n. q_load w n (t_Workspace t)) o1 of
           (Inl e, o2) \<Rightarrow> txO w (fail_tx (t_ID t) [] 0 e) o2
         | (Inr d0, o2) \<Rightarrow> (let d = pipeline_snapshot t d0
              in bindO (eachO (accept_stage w t d) ?ss) (\<lambda>_. reconcile_live w rid t d ?ss) o2)) ?o2 = (r, o2)"
          using eq None Inr False by (simp add: Reconcile_def bindO_def readO_def Let_def)
        have "goes (or_sys ?o2) (or_sys o2)"
          by (rule safeO_D [OF safe_reconcile_read [OF w id] goes_reachable [OF g2 re] reads_from [OF w re1 Inr] eq2])
        with g2 show ?thesis by (rule goes_trans)
      qed
    qed
  qed
qed

section \<open>Publishing\<close>

lemma safe_prod: "(\<And>a b. safeO I (f a b)) \<Longrightarrow> safeO I (case p of (a, b) \<Rightarrow> f a b)"
  by (cases p) simp

lemma safe_push_all:
  assumes w: "others_step w"
  shows "safeO (\<lambda>_. True) (push_all w t bs rep pushed)"
proof (induction bs arbitrary: rep pushed)
  case Nil
  show ?case by (simp add: safe_ret)
next
  case (Cons b bs)
  show ?case unfolding push_all.simps
    by (intro any.bind safe_ask [OF w] safe_prod any.cond safe_effect Cons.IH)
qed

lemma safe_progress:
  assumes "others_step w" "t_ID t = rid"
  shows "safeO (\<lambda>s. (rid, c, inp) \<in> set (y_claims s)) (txO w (progress_tx (t_ID t) c kind payload))"
  unfolding assms(2) by (rule cl.tx [OF assms(1)]) (rule step.progress)

lemma safe_open_all:
  assumes w: "others_step w"
  shows "safeO (\<lambda>s. (t_ID t, c, inp) \<in> set (y_claims s)) (open_all w t c p mode base body bs links)"
proof (induction bs arbitrary: links)
  case Nil
  show ?case by (simp add: safe_ret)
next
  case (Cons b bs)
  show ?case unfolding open_all.simps
    by (intro cl.bind safe_ask [OF w] safe_effect safe_progress [OF w refl] Cons.IH)
qed

lemma safe_publish:
  assumes w: "others_step w"
  shows "safeO (\<lambda>s. (t_ID t, c, inp) \<in> set (y_claims s)) (publish w t c inp)"
  unfolding publish_def report_def Let_def
  by (intro cl.bind safe_read [OF w] safe_ret cl.cond safe_weaken [OF safe_push_all [OF w]] safe_prod safe_open_all [OF w])

section \<open>A run\<close>

text \<open>What \<open>run\<close> relies on of the \<open>Runner\<close> it is given: it only takes steps of the system, under its claim.\<close>

locale runner_contract =
  fixes runner :: "outer \<Rightarrow> TaskEntity \<Rightarrow> StageEntity \<Rightarrow> Input \<Rightarrow> Result om"
  assumes runner_safe: "others_step w \<Longrightarrow> safeO (\<lambda>s. (t_ID t, c, inp) \<in> set (y_claims s)) (runner w t c inp)"
begin

lemma attempt_safe:
  assumes w: "others_step w"
  shows "safeO (\<lambda>s. (t_ID t, c, inp) \<in> set (y_claims s)) (attempt runner w t c inp)"
proof -
  have commit: "safeO (\<lambda>s. (t_ID t, c, inp) \<in> set (y_claims s)) (txO w (commit_tx (t_ID t) c inp res))" for res
    by (rule cl.tx [OF w]) (rule step.commit)
  show ?thesis unfolding attempt_def Let_def
    by (intro cl.bind cl.cond safe_ask [OF w] safe_ret safe_publish [OF w] runner_safe [OF w] commit)
qed

lemma run_goes:
  assumes w: "others_step w" and re: "reachable (or_sys o1)" and cl: "(t_ID t, c, inp) \<in> set (y_claims (or_sys o1))"
    and plan: "in_Mode inp = ''execute'' \<or> (\<forall>e o2. attempt runner w t c inp o1 = (Inl e, o2) \<longrightarrow> \<not> As_publishError e)"
  shows "goes (or_sys o1) (or_sys (run runner w t c inp o1))"
proof -
  obtain r o2 where a: "attempt runner w t c inp o1 = (r, o2)" by (cases "attempt runner w t c inp o1")
  have g: "goes (or_sys o1) (or_sys o2)" by (rule safeO_D [OF attempt_safe [OF w] re cl a])
  have re2: "reachable (or_sys o2)" by (rule goes_reachable [OF g re])
  have cl2: "(t_ID t, c, inp) \<in> set (y_claims (or_sys o2))" using g cl by (auto simp: goes_def)
  have fail: "goes (or_sys o1) (or_sys (snd (txO w (fail_tx (t_ID t) (s_ID c) (s_Attempt c) e) o2)))" for e
  proof -
    have "safeO (\<lambda>_. True) (txO w (fail_tx (t_ID t) (s_ID c) (s_Attempt c) e))" by (rule any.tx [OF w]) (rule step.fail)
    from safeO_D [OF this re2 _ surjective_pairing] g show ?thesis using goes_trans by blast
  qed
  have block: "goes (or_sys o1) (or_sys (snd (txO w (block_tx (t_ID t) c e) o2)))" if "in_Mode inp = ''execute''" for e
  proof -
    have "safeO (\<lambda>s. (t_ID t, c, inp) \<in> set (y_claims s)) (txO w (block_tx (t_ID t) c e))"
      by (rule cl.tx [OF w]) (rule step.block [OF _ that])
    from safeO_D [OF this re2 cl2 surjective_pairing] g show ?thesis using goes_trans by blast
  qed
  show ?thesis
  proof (cases r)
    case (Inr u)
    with a g show ?thesis by (simp add: run_def)
  next
    case (Inl e)
    with plan a have "in_Mode inp = ''execute'' \<or> \<not> As_publishError e" by blast
    with a Inl g fail [of e] block [of e] show ?thesis by (auto simp: run_def Let_def)
  qed
qed

end

lemma safe_budgetO:
  assumes w: "others_step w"
  shows "safeO (\<lambda>_. True) (budgetO w task)"
proof (rule safeO_I)
  fix o1 r o2 assume re: "reachable (or_sys o1)" and eq: "budgetO w task o1 = (r, o2)"
  let ?o1 = "others w o1"
  let ?o2 = "others w ?o1"
  have g1: "goes (or_sys o1) (or_sys ?o1)" and g12: "goes (or_sys ?o1) (or_sys ?o2)" by (rule others_goes [OF w])+
  have "y_db (or_sys ?o1) \<in> set (y_seen (or_sys ?o2))"
    using reachable_seen [OF goes_reachable [OF g1 re]] g12 steps_seen by (auto simp: goes_def)
  moreover obtain r' d hs where b: "Budget_Check (q_env w (or_n ?o2)) (y_db (or_sys ?o1)) (y_db (or_sys ?o2)) task = (r', d, hs)"
    by (cases "Budget_Check (q_env w (or_n ?o2)) (y_db (or_sys ?o1)) (y_db (or_sys ?o2)) task")
  ultimately have "step (or_sys ?o2) (set_db d (or_sys ?o2))" by (rule step.budget_check)
  from goes_tx [OF goes_trans [OF g1 g12] this] eq b show "goes (or_sys o1) (or_sys o2)" by (auto simp: budgetO_def Let_def)
qed

lemma safe_act:
  assumes w: "others_step w"
  shows "safeO (\<lambda>s. (rid, c, inp) \<in> set (y_claims s)) (act w rid c a)"
proof (cases a)
  case (Emitted kind payload)
  have "safeO (\<lambda>s. (rid, c, inp) \<in> set (y_claims s)) (txO w (progress_tx rid c kind payload))"
    by (rule cl.tx [OF w]) (rule step.progress)
  with Emitted show ?thesis by simp
next
  case (Checked task)
  then show ?thesis by (simp add: safe_weaken [OF safe_budgetO [OF w]])
qed (auto simp: safeO_def others_goes [OF w])

lemma replay_goes:
  assumes w: "others_step w" and re: "reachable (or_sys o1)" and cl: "(rid, c, inp) \<in> set (y_claims (or_sys o1))"
  shows "goes (or_sys o1) (or_sys (snd (replay w rid c tr o1)))"
proof (induction tr rule: rev_induct)
  case Nil
  show ?case by (simp add: replay_def)
next
  case (snoc a tr)
  let ?o = "snd (replay w rid c tr o1)"
  have "(rid, c, inp) \<in> set (y_claims (or_sys ?o))" using snoc cl by (auto simp: goes_def)
  from safeO_D [OF safe_act [OF w] goes_reachable [OF snoc re] this surjective_pairing]
  have "goes (or_sys ?o) (or_sys (snd (act w rid c a ?o)))" .
  moreover have "replay w rid c (tr @ [a]) o1 = act w rid c a ?o" by (simp add: replay_def case_prod_unfold)
  ultimately show ?case using snoc goes_trans by simp
qed

interpretation ar: runner_contract agent_run
proof unfold_locales
  fix w t c inp assume w: "others_step w"
  show "safeO (\<lambda>s. (t_ID t, c, inp) \<in> set (y_claims s)) (agent_run w t c inp)"
  proof (rule safeO_I)
    fix o1 r o2 assume "reachable (or_sys o1)" "(t_ID t, c, inp) \<in> set (y_claims (or_sys o1))" "agent_run w t c inp o1 = (r, o2)"
    with replay_goes [OF w] show "goes (or_sys o1) (or_sys o2)" by (auto simp: agent_run_def Let_def split: prod.splits)
  qed
qed

section \<open>Recovery\<close>

lemma reconcile_all_goes:
  assumes w: "others_step w"
  shows "reachable (or_sys o1) \<Longrightarrow> goes (or_sys o1) (or_sys (snd (reconcile_all w ts o1)))"
proof (induction ts arbitrary: o1)
  case (Cons t ts)
  obtain r o2 where rec: "Reconcile w (t_ID t) o1 = (r, o2)" by (cases "Reconcile w (t_ID t) o1")
  have g: "goes (or_sys o1) (or_sys o2)" by (rule safeO_D [OF safe_Reconcile [OF w] Cons.prems _ rec]) simp
  have rest: "goes (or_sys o1) (or_sys (snd (reconcile_all w ts o2)))"
    by (rule goes_trans [OF g Cons.IH [OF goes_reachable [OF g Cons.prems]]])
  show ?case using Cons.IH [OF Cons.prems] rec rest by (cases r) (auto simp: case_prod_unfold Let_def)
qed simp

lemma Recover_goes:
  assumes w: "others_step w" and re: "reachable (or_sys o1)"
  shows "goes (or_sys o1) (or_sys (snd (Recover w cleanup o1)))"
proof -
  let ?o = "others w o1"
  have g: "goes (or_sys o1) (or_sys ?o)" by (rule others_goes [OF w])
  have "goes (or_sys o1) (or_sys (snd (reconcile_all w (Reader_Tasks (y_db (or_sys ?o)) None None) ?o)))"
    by (rule goes_trans [OF g reconcile_all_goes [OF w goes_reachable [OF g re]]])
  then show ?thesis by (simp add: Recover_def Let_def case_prod_unfold split: option.split sum.split)
qed

end
