(* ===== verification/Publish_Laws.thy ===== *)
theory Publish_Laws
  imports Orchestrator
begin

text \<open>
  What the publisher stage does to the hosting service: which branches it pushes and for which of
  them it opens pull requests, also when it stops in the middle.
\<close>

lemma effects_kept [simp]:
  "or_effects (others w o1) = or_effects o1"
  "or_effects (snd (txO w m o1)) = or_effects o1"
  "or_effects (snd (askO w f o1)) = or_effects o1"
  "or_effects (snd (readO w g o1)) = or_effects o1"
  by (simp_all add: others_def txO_def askO_def readO_def Let_def case_prod_unfold)

lemma effects_keptE:
  "txO w m o1 = (r, o2) \<Longrightarrow> or_effects o2 = or_effects o1"
  "askO w f o1 = (r1, o2) \<Longrightarrow> or_effects o2 = or_effects o1"
  "readO w g o1 = (r2, o2) \<Longrightarrow> or_effects o2 = or_effects o1"
  using effects_kept(2) [of w m o1] effects_kept(3) [of w f o1] effects_kept(4) [of w g o1] by simp_all

lemma bindO_cases:
  assumes "bindO m f o1 = (r, o2)"
  obtains (stop) e where "m o1 = (Inl e, o2)" "r = Inl e" | (go) v o3 where "m o1 = (Inr v, o3)" "f v o3 = (r, o2)"
  using assms by (auto simp: bindO_def split: prod.splits sum.splits)

lemma push_all_effects:
  "push_all w t bs rep pushed o1 = (r, o2) \<Longrightarrow>
     \<exists>new. or_effects o2 = or_effects o1 @ map (\<lambda>(b, sha). Pushed (br_name b) sha) new \<and> set (map fst new) \<subseteq> set bs \<and>
       (\<forall>rep' all. r = Inr (rep', all) \<longrightarrow> all = pushed @ map fst new)"
proof (induction bs arbitrary: rep pushed o1)
  case Nil
  then show ?case by (auto simp: retO_def intro!: exI [of _ "[]"])
next
  case (Cons b bs)
  let ?build = "askO w (\<lambda>n. publishing (''build branch '' @ br_name b @ '': '')
      (q_branch w n (t_Workspace t) (br_source b) (br_patterns b) (Title (t_Command t) (br_role b))))"
  let ?push = "\<lambda>sha. askO w (\<lambda>n. publishing (''push '' @ br_name b @ '': '') (q_push w n (t_Workspace t) sha (br_name b)))"
  from Cons.prems show ?case unfolding push_all.simps
  proof (cases rule: bindO_cases)
    case (stop e)
    then show ?thesis using effects_keptE(2) by (intro exI [of _ "[]"]) auto
  next
    case (go v o3)
    have e3: "or_effects o3 = or_effects o1" using go(1) effects_keptE(2) by blast
    obtain sha changed where v: "v = (sha, changed)" by (cases v)
    show ?thesis
    proof (cases changed)
      case False
      with go v have "push_all w t bs rep pushed o3 = (r, o2)" by simp
      from Cons.IH [OF this] e3 show ?thesis by auto
    next
      case True
      with go v have "bindO (?push sha) (\<lambda>_. bindO (done_effect (Pushed (br_name b) sha)) (\<lambda>_. push_all w t bs (set_branch b rep) (pushed @ [b]))) o3 = (r, o2)"
        by simp
      then show ?thesis
      proof (cases rule: bindO_cases)
        case (stop e)
        have "or_effects o2 = or_effects o1" using effects_keptE(2) [OF stop(1)] e3 by simp
        with stop(2) show ?thesis by (intro exI [of _ "[]"]) simp
      next
        case (go u o4)
        let ?o5 = "o4\<lparr>or_effects := or_effects o4 @ [Pushed (br_name b) sha]\<rparr>"
        have e4: "or_effects o4 = or_effects o1" using go(1) effects_keptE(2) e3 by metis
        have "push_all w t bs (set_branch b rep) (pushed @ [b]) ?o5 = (r, o2)" using go(2) by (simp add: bindO_def done_effect_def)
        from Cons.IH [OF this] obtain new where
          new: "or_effects o2 = or_effects o1 @ Pushed (br_name b) sha # map (\<lambda>(b, sha). Pushed (br_name b) sha) new"
            "set (map fst new) \<subseteq> set bs" "\<forall>rep' all. r = Inr (rep', all) \<longrightarrow> all = (pushed @ [b]) @ map fst new"
          using e4 by auto
        then show ?thesis by (intro exI [of _ "(b, sha) # new"]) auto
      qed
    qed
  qed
qed

lemma open_all_effects:
  "open_all w t c p mode base body bs links o1 = (r, o2) \<Longrightarrow>
     \<exists>k. or_effects o2 = or_effects o1 @ map (\<lambda>b. OpenedPR (br_name b)) (take k bs) \<and> (\<forall>l. r = Inr l \<longrightarrow> length bs \<le> k)"
proof (induction bs arbitrary: links o1)
  case Nil
  then show ?case by (auto simp: retO_def)
next
  case (Cons b bs)
  from Cons.prems show ?case unfolding open_all.simps
  proof (cases rule: bindO_cases)
    case (stop e)
    then show ?thesis using effects_keptE(2) by (intro exI [of _ 0]) auto
  next
    case (go pr o3)
    let ?o4 = "o3\<lparr>or_effects := or_effects o3 @ [OpenedPR (br_name b)]\<rparr>"
    have e4: "or_effects ?o4 = or_effects o1 @ [OpenedPR (br_name b)]" using effects_keptE(2) [OF go(1)] by simp
    from go(2) show ?thesis
      unfolding bindO_def [of "done_effect (OpenedPR (br_name b))"] done_effect_def prod.case sum.case
    proof (cases rule: bindO_cases)
      case (stop e)
      have "or_effects o2 = or_effects o1 @ [OpenedPR (br_name b)]" using effects_keptE(1) [OF stop(1)] e4 by simp
      with stop(2) show ?thesis by (intro exI [of _ 1]) simp
    next
      case (go u o5)
      have "or_effects o5 = or_effects o1 @ [OpenedPR (br_name b)]" using effects_keptE(1) [OF go(1)] e4 by simp
      with Cons.IH [OF go(2)] obtain k where "or_effects o2 = or_effects o1 @ OpenedPR (br_name b) # map (\<lambda>b. OpenedPR (br_name b)) (take k bs)"
        "\<forall>l. r = Inr l \<longrightarrow> length bs \<le> k" by auto
      then show ?thesis by (intro exI [of _ "Suc k"]) auto
    qed
  qed
qed

lemma branches_names: "b \<in> set (branches_of t d mode rep) \<Longrightarrow> HasPrefix (br_name b) (''devsquad/'' @ t_ID t)"
  by (auto simp: branches_of_def Let_def HasPrefix_def map_filter_def split: if_splits)

lemma publish_effects:
  assumes "publish w t c inp o1 = (r, o2)"
  shows "\<exists>new k. or_effects o2 = or_effects o1 @ map (\<lambda>(name, sha). Pushed name sha) new @ map (\<lambda>(name, sha). OpenedPR name) (take k new) \<and>
    (\<forall>(name, sha)\<in>set new. HasPrefix name (''devsquad/'' @ t_ID t)) \<and> (in_Mode inp = ''plan'' \<or> q_web w = None \<longrightarrow> new = []) \<and>
    (\<forall>v. r = Inr v \<longrightarrow> length new \<le> k)" (is "?claim o2 r")
proof -
  have none: "?claim o3 r3" if "or_effects o3 = or_effects o1" for o3 and r3 :: "Result result"
    using that by (intro exI [of _ "[]"]) simp
  from assms show ?thesis unfolding publish_def
  proof (cases rule: bindO_cases)
    case (stop e)
    then show ?thesis using effects_keptE(3) none by blast
  next
    case (go p o3)
    have e3: "or_effects o3 = or_effects o1" by (rule effects_keptE(3) [OF go(1)])
    from go(2) show ?thesis
    proof (cases rule: bindO_cases)
      case (stop e)
      then show ?thesis by (simp add: report_def bindO_def readO_def retO_def Let_def)
    next
      case (go rep o4)
      have e4: "or_effects o4 = or_effects o1" using go(1) e3 by (auto simp: report_def bindO_def readO_def retO_def Let_def)
      let ?pol = "pl_Policy (df_Pipeline (in_Definition inp))"
      let ?mode = "if PR_Mode ?pol = [] then ''single'' else PR_Mode ?pol"
      let ?bs = "branches_of t (in_Definition inp) ?mode rep"
      show ?thesis
      proof (cases "in_Mode inp = ''plan'' \<or> \<not> (q_web w \<noteq> None \<and> Text (p_LocalPath p) = [])")
        case True
        with go(2) have "or_effects o2 = or_effects o1" using e4 by (auto simp: retO_def Let_def split: if_splits)
        then show ?thesis by (rule none)
      next
        case False
        note go_tail = go(2)
        obtain r5 o5 where pu: "push_all w t ?bs (rep\<lparr>rp_WebURL := Text (q_web w)\<rparr>) [] o4 = (r5, o5)"
          by (cases "push_all w t ?bs (rep\<lparr>rp_WebURL := Text (q_web w)\<rparr>) [] o4")
        from push_all_effects [OF pu] obtain new where
          new: "or_effects o5 = or_effects o1 @ map (\<lambda>(b, sha). Pushed (br_name b) sha) new" "set (map fst new) \<subseteq> set ?bs"
            "\<forall>rep' all. r5 = Inr (rep', all) \<longrightarrow> all = map fst new" using e4 by auto
        let ?new = "map (\<lambda>(b, sha). (br_name b, sha)) new"
        have names: "\<forall>(name, sha)\<in>set ?new. HasPrefix name (''devsquad/'' @ t_ID t)"
        proof -
          have "HasPrefix (br_name b) (''devsquad/'' @ t_ID t)" if "(b, sha) \<in> set new" for b sha
            using branches_names [of b t] new(2) that by force
          then show ?thesis by auto
        qed
        have pushed: "map (\<lambda>(b, sha). Pushed (br_name b) sha) new = map (\<lambda>(name, sha). Pushed name sha) ?new" by (simp add: case_prod_unfold comp_def)
        obtain web where live: "in_Mode inp \<noteq> ''plan''" "q_web w = Some web" using False by auto
        show ?thesis
        proof (cases r5)
          case (Inl e)
          with go_tail pu False have "r = Inl e" "o2 = o5" by (auto simp: bindO_def Let_def)
          with new pushed names live show ?thesis by (intro exI [of _ ?new] exI [of _ 0]) simp
        next
          case (Inr v)
          obtain rep' all where v: "v = (rep', all)" by (cases v)
          have all: "all = map fst new" using new(3) Inr v by blast
          show ?thesis
          proof (cases "all = []")
            case True
            with go_tail pu False Inr v have "o2 = o5" by (auto simp: bindO_def retO_def Let_def)
            with new all True show ?thesis by (intro none) simp
          next
            case ne: False
            let ?base = "if PR_BaseBranch ?pol = [] then p_DefaultBranch p else PR_BaseBranch ?pol"
            obtain r6 o6 where op: "open_all w t c p ?mode ?base (Body rep') all [] o5 = (r6, o6)"
              by (cases "open_all w t c p ?mode ?base (Body rep') all [] o5")
            with go_tail pu False Inr v ne have o2: "o2 = o6" and r: "\<forall>v. r = Inr v \<longrightarrow> (\<exists>l. r6 = Inr l)"
              by (auto simp: bindO_def retO_def Let_def split: sum.splits)
            from open_all_effects [OF op] obtain k where
              k: "or_effects o6 = or_effects o5 @ map (\<lambda>b. OpenedPR (br_name b)) (take k all)" "\<forall>l. r6 = Inr l \<longrightarrow> length all \<le> k" by blast
            have "map (\<lambda>b. OpenedPR (br_name b)) (take k all) = map (\<lambda>(name, sha). OpenedPR name) (take k ?new)"
              by (simp add: all take_map comp_def case_prod_unfold)
            with new pushed names live k o2 r all show ?thesis by (intro exI [of _ ?new] exI [of _ k]) auto
          qed
        qed
      qed
    qed
  qed
qed

text \<open>
  C23. Publishing touches nothing but the task's own branches: every branch it pushes is named
  \<open>devsquad/\<close> and the task's identifier, a pull request is opened only for a branch it has
  pushed, in the same order, for all of them when it succeeds, and nothing is pushed or opened
  while planning or without a hosting service.
\<close>

theorem publishes_own_branches:
  assumes "publish w t c inp o1 = (r, o2)"
  shows "\<exists>new k. or_effects o2 = or_effects o1 @ map (\<lambda>(name, sha). Pushed name sha) new @ map (\<lambda>(name, sha). OpenedPR name) (take k new) \<and>
    (\<forall>(name, sha)\<in>set new. HasPrefix name (''devsquad/'' @ t_ID t)) \<and> (in_Mode inp = ''plan'' \<or> q_web w = None \<longrightarrow> new = []) \<and>
    (\<forall>v. r = Inr v \<longrightarrow> length new \<le> k)"
  by (rule publish_effects [OF assms])

text \<open>A project on a hosting service and a task without stages.\<close>

definition hosted :: orch where
  "hosted = \<lparr>or_sys = start_sys\<lparr>y_db := empty_db\<lparr>db_projects := [\<lparr>p_ID = ''p'', p_Name = ''n'', p_GithubOwner = ''o'', p_GithubRepo = ''r'',
       p_DefaultBranch = ''main'', p_InstallationID = None, p_ContextPath = [], p_LocalPath = None, p_TokenBudget = 0, pr_CreatedAt = 0\<rparr>]\<rparr>\<rparr>,
     or_n = 0, or_running = [], or_cancelled = [], or_spawned = [], or_hooks = [], or_effects = []\<rparr>"

definition host :: outer where
  "host = \<lparr>q_env = (\<lambda>_. \<lparr>e_now = 0, e_clock = (\<lambda>n. 0), e_uuid = (\<lambda>n. replicate n (CHR ''i'')), e_begin = None, e_commit = None\<rparr>),
     q_other = (\<lambda>_ s. s), q_stop = (\<lambda>_. None), q_load = (\<lambda>_ _. Inl ErrNotExist), q_accept = (\<lambda>_ _ _ _. Inr ()), q_reset = (\<lambda>_ _ _. Inr ()),
     q_branch = (\<lambda>_ _ _ _ _. Inr (''abc'', True)), q_push = (\<lambda>_ _ _ _. Inr ()), q_open = (\<lambda>_ _. Inr \<lparr>op_URL = ''u'', op_Number = 1, op_Created = True\<rparr>),
     q_web = Some ''https://github.com'', q_spawn = (\<lambda>_. True), q_agent = quick, q_registry = fake_registry, q_tree = (\<lambda>_. box_tree)\<rparr>"

definition hosted_task :: TaskEntity where
  "hosted_task = \<lparr>t_Pipeline = None, t_Workspace = ''/ws'', t_Version = 0, t_EventSeq = 0, t_TokenBudget = 0, t_ID = ''t'', t_ProjectID = ''p'',
     t_Command = ''do'', t_Status = ''running'', t_CreatedBy = ''me'', t_CreatedAt = 0, t_UpdatedAt = 0, t_DiscordThreadID = None\<rparr>"

definition hosted_claim :: StageEntity where
  "hosted_claim = StageEntity.truncate (new_stage ''s'' ''t'' ''k'' ''publisher'' [])"

lemma hosted_effects: "or_effects (snd (publish host hosted_task c (quick_input ''execute'') hosted)) = [Pushed ''devsquad/t'' ''abc'', OpenedPR ''devsquad/t'']"
  by (simp add: publish_def bindO_def readO_def others_def host_def hosted_def Reader_Project_def GetProject_def first_row_def decode_def empty_db_def report_def
      Reader_Stages_def ListStages_def Reader_Approvals_def ListApprovals_def retO_def quick_input_def branches_of_def askO_def publishing_def done_effect_def
      default_Pipeline_def zero_Pipeline_def zero_Policy_def hosted_task_def Let_def txO_def case_prod_unfold set_branch_def ProjectEntity.truncate_def split: sum.split)

theorem publishes_own_branches_witness:
  "let o2 = snd (publish host hosted_task hosted_claim (quick_input ''execute'') hosted)
   in or_effects o2 = [Pushed ''devsquad/t'' ''abc'', OpenedPR ''devsquad/t'']"
  using publishes_own_branches [of host hosted_task hosted_claim "quick_input ''execute''" hosted, OF surjective_pairing] hosted_effects
  by (simp add: Let_def)

end
