(* ===== verification/Service_Laws.thy ===== *)
theory Service_Laws
  imports System_Laws
begin

text \<open>
  What the application services answer, on the databases the system can reach: a page of events is
  the stretch of the ledger it asks for, a budget check that reports the budget exceeded leaves
  the task unable to run, a task creation removes its directory only when no task was stored, and
  a created project is read back as it was given.
\<close>

section \<open>Pages of the ledger\<close>

lemma filter_upto: "0 \<le> (a::int) \<Longrightarrow> filter (\<lambda>i. a < i) [1..n] = [a + 1..n]"
proof (induction "nat n" arbitrary: n)
  case 0
  then show ?case by simp
next
  case (Suc k)
  then have n: "0 \<le> n - 1" "k = nat (n - 1)" by auto
  have "[1..n] = [1..n - 1] @ [n]" using n(1) upto_rec2 [of 1 n] by simp
  moreover have "filter (\<lambda>i. a < i) [1..n - 1] = [a + 1..n - 1]" by (rule Suc.hyps(1) [OF n(2) Suc.prems])
  ultimately show ?case using upto_rec2 [of "a + 1" n] Suc.prems by auto
qed

lemma take_upto: "take k [a + 1..n] = [a + 1..min (a + int k) n]"
proof (induction k arbitrary: a)
  case (Suc k)
  show ?case
  proof (cases "a + 1 \<le> n")
    case True
    then have "take (Suc k) [a + 1..n] = (a + 1) # [a + 1 + 1..min (a + 1 + int k) n]"
      unfolding upto_rec1 [OF True] using Suc [of "a + 1"] by simp
    also have "\<dots> = [a + 1..min (a + 1 + int k) n]" using True by (subst (2) upto_rec1) simp_all
    finally show ?thesis by (simp add: ac_simps)
  qed simp
qed simp

lemma ListEvents_page:
  assumes log: "event_log d" and t: "t \<in> set (db_tasks d)" and after: "0 \<le> after" and limit: "0 \<le> limit"
  obtains es where "ListEvents d (t_ID t) after limit = Inr es" "map ev_Seq es = [after + 1..min (after + limit) (t_EventSeq t)]"
    "set es \<subseteq> {e \<in> set (db_events d). ev_TaskID e = t_ID t}"
proof -
  let ?E = "filter (\<lambda>e. ev_TaskID e = t_ID t) (db_events d)"
  let ?F = "filter (\<lambda>e. ev_TaskID e = t_ID t \<and> after < ev_Seq e) (db_events d)"
  have "map ev_Seq ?E = [1..t_EventSeq t]" using log t by (auto simp: event_log_def ledger_def)
  then have "filter (\<lambda>i. after < i) (map ev_Seq ?E) = [after + 1..t_EventSeq t]" by (simp add: filter_upto [OF after])
  then have F: "map ev_Seq ?F = [after + 1..t_EventSeq t]" by (simp add: filter_map comp_def conj_commute)
  then have "sorted (map ev_Seq ?F)" by simp
  then have "sort_key ev_Seq ?F = ?F" by (rule sort_key_id_if_sorted)
  then have "ListEvents d (t_ID t) after limit = Inr (take (nat limit) ?F)" using limit by (simp add: ListEvents_def)
  moreover have "map ev_Seq (take (nat limit) ?F) = [after + 1..min (after + limit) (t_EventSeq t)]"
    using F limit by (simp add: take_map [symmetric] take_upto)
  moreover have "set (take (nat limit) ?F) \<subseteq> {e \<in> set (db_events d). ev_TaskID e = t_ID t}"
    by (auto dest: in_set_takeD)
  ultimately show thesis by (rule that)
qed

lemma FetchEvents_page:
  assumes log: "event_log d" and t: "t \<in> set (db_tasks d)" and after: "0 \<le> after"
  shows "\<exists>page. FetchEvents d (t_ID t) after limit = Inr page \<and>
    map ev_Seq (ep_Items page) = [after + 1..min (after + max 1 (min limit 1000)) (t_EventSeq t)] \<and>
    set (ep_Items page) \<subseteq> {e \<in> set (db_events d). ev_TaskID e = t_ID t} \<and>
    ep_NextAfterSeq page = (if after + max 1 (min limit 1000) \<le> t_EventSeq t then Some (after + max 1 (min limit 1000)) else None)"
proof -
  let ?k = "max 1 (min limit 1000)"
  obtain es where es: "ListEvents d (t_ID t) after ?k = Inr es" "map ev_Seq es = [after + 1..min (after + ?k) (t_EventSeq t)]"
      "set es \<subseteq> {e \<in> set (db_events d). ev_TaskID e = t_ID t}"
    by (rule ListEvents_page [OF log t after, of ?k]) auto
  have "distinct (map t_ID (db_tasks d))" using log by (simp add: event_log_def)
  then have task: "Reader_Task d (t_ID t) = Inr t" using GetTask_key t by (simp add: Reader_Task_def)
  have len: "int (length es) = max 0 (min ?k (t_EventSeq t - after))"
    using arg_cong [OF es(2), of length] by (auto simp: min_def max_def)
  have "ev_Seq (last es) = after + ?k" if full: "int (length es) = ?k"
  proof -
    from full have ne: "es \<noteq> []" by auto
    have "after + ?k \<le> t_EventSeq t" using full len by linarith
    then have "map ev_Seq es = [after + 1..after + ?k]" using es(2) by simp
    then have "last (map ev_Seq es) = last [after + 1..after + ?k]" by simp
    also have "\<dots> = after + ?k" by (simp add: upto_rec2 [of "after + 1" "after + ?k"])
    finally show ?thesis using ne by (simp add: last_map)
  qed
  moreover have "int (length es) = ?k \<longleftrightarrow> after + ?k \<le> t_EventSeq t" using len by linarith
  ultimately show ?thesis
    using after es task by (simp add: FetchEvents_def Let_def)
qed

section \<open>The budget guard\<close>

lemma Check_tx_True:
  assumes dist: "distinct (map t_ID (db_tasks (tx_db tx)))" and ok: "Check_tx rid tx = Inr (True, tx')"
  shows "\<exists>t\<in>set (db_tasks (tx_db tx')). t_ID t = rid \<and> t_Status t \<notin> {''running'', ''waiting_approval''} \<and>
    t_TokenBudget t \<le> TaskTokensUsed (tx_db tx') rid"
proof -
  from ok obtain t where t: "GetTask (tx_db tx) rid = Inr t" and over: "t_TokenBudget t \<le> TaskTokensUsed (tx_db tx) rid"
    and rest: "(if t_Status t \<noteq> ''running'' \<and> t_Status t \<noteq> ''waiting_approval'' then retT True
       else bindT (SetStatus t ''paused'') (\<lambda>t.
            bindT (Emit rid [] [] ''run.paused''
              (JObj [(''reason'', JStr ''budget''), (''tokens_used'', JInt (TaskTokensUsed (tx_db tx) rid)),
                (''token_budget'', JInt (t_TokenBudget t))])) (\<lambda>_. retT True))) tx = Inr (True, tx')"
    by (auto simp: Check_tx_def bindT_Inr LockTask_Inr readT_Inr split: if_splits)
  have t': "t \<in> set (db_tasks (tx_db tx))" "t_ID t = rid" using t GetTask_key [OF dist] by auto
  show ?thesis
  proof (cases "t_Status t \<noteq> ''running'' \<and> t_Status t \<noteq> ''waiting_approval''")
    case True
    with rest t' over show ?thesis by auto
  next
    case False
    let ?P = "\<lambda>r. t_ID r = t_ID t \<and> t_Version r = t_Version t"
    let ?f = "status_write ''paused'' (e_now (tx_env tx))"
    from False rest obtain u tx1 payload v where set1: "SetStatus t ''paused'' tx = Inr (u, tx1)"
      and emit: "Emit rid [] [] ''run.paused'' payload tx1 = Inr (v, tx')"
      by (auto simp: bindT_Inr)
    have tasks: "db_tasks (tx_db tx1) = update_where ?P ?f (db_tasks (tx_db tx))" and us: "db_usages (tx_db tx1) = db_usages (tx_db tx)"
      using set1 by (auto simp: SetStatus_Inr Let_def)
    have dist1: "distinct (map t_ID (db_tasks (tx_db tx1)))" using dist by (simp add: tasks map_update_where)
    from emit obtain ev where d': "tx_db tx' = emit_db (tx_db tx1) ev" and ev: "ev_TaskID ev = rid" "ev_Type ev = ''run.paused''"
      unfolding Emit_Inr [OF dist1] Let_def by auto
    have used: "TaskTokensUsed (tx_db tx') rid = TaskTokensUsed (tx_db tx) rid"
      by (simp add: TaskTokensUsed_def d' emit_db_def ev us)
    have "?f t \<in> set (db_tasks (tx_db tx1))" using t' by (force simp: tasks set_update_where)
    then have "(?f t)\<lparr>t_EventSeq := t_EventSeq (?f t) + 1\<rparr> \<in> set (db_tasks (tx_db tx'))"
      using t'(2) ev by (force simp: d' emit_db_def set_update_where)
    then show ?thesis
      using used over t'(2) by (intro bexI [of _ "(?f t)\<lparr>t_EventSeq := t_EventSeq (?f t) + 1\<rparr>"]) auto
  qed
qed

lemma Budget_exceeded:
  assumes dist: "distinct (map t_ID (db_tasks d))" and ok: "Budget_Check env d0 d rid = (Inl ErrBudgetExceeded, d', hs)"
    and env: "e_begin env = None"
  shows "\<exists>t\<in>set (db_tasks d'). t_ID t = rid \<and> t_Status t \<notin> {''running'', ''waiting_approval''} \<and>
    t_TokenBudget t \<le> TaskTokensUsed d' rid"
proof -
  have fails: "Check_tx rid tx \<noteq> Inl ErrBudgetExceeded" for tx
    by (auto simp: Check_tx_def LockTask_def readT_def liftT_def SetStatus_def UpdateTaskStatus_def Emit_def NextSequence_def
        CreateEvent_def constraint_def bindT_def Let_def whenT_def decode_def GetTask_def first_row_def
        split: sum.splits list.splits if_splits err.splits)
  have "Reader_Task d0 rid \<noteq> Inl ErrBudgetExceeded"
    by (auto simp: Reader_Task_def decode_def GetTask_def first_row_def split: list.splits)
  then obtain tx' where "Check_tx rid (begin_tx env d) = Inr (True, tx')" "d' = tx_db tx'"
    using ok env fails [of "begin_tx env d"]
    by (auto simp: Budget_Check_def WithTx_def split: sum.splits if_splits prod.splits option.splits)
  with Check_tx_True [of "begin_tx env d"] dist show ?thesis by simp
qed

section \<open>Creation\<close>

text \<open>The directory of a task is removed only when no task was stored, and never after a success.\<close>

lemma created_removed:
  "cr_removed (TaskService_Create x env d0 d rid r user) \<noteq> None \<Longrightarrow>
     cr_db (TaskService_Create x env d0 d rid r user) = d"
proof -
  let ?goal = "\<lambda>c. cr_removed c \<noteq> None \<longrightarrow> cr_db c = d"
  have "?goal (case WithTx env (CreateTask_tx rid r user dir pl budget) d of
      (Inr _, db', hs) \<Rightarrow> \<lparr>cr_result = FetchTask db' rid, cr_db = db', cr_hooks = hs,
        cr_removed = (if MarkCommitted \<in> set hs then None else Some dir)\<rparr>
    | (Inl e, db', hs) \<Rightarrow> \<lparr>cr_result = Inl e, cr_db = db', cr_hooks = hs,
        cr_removed = (if As_CommitError e then None else Some dir)\<rparr>)" for dir pl budget
  proof -
    obtain res d' hs where tx: "WithTx env (CreateTask_tx rid r user dir pl budget) d = (res, d', hs)" by (metis prod_cases3)
    then show ?thesis
    proof (cases rule: WithTx_cases)
      case (rolled_back e)
      with tx show ?thesis by simp
    next
      case (committed v tx')
      then have "MarkCommitted \<in> set (tx_after tx')" by (auto simp: CreateTask_tx_def bindT_Inr)
      moreover have "As_CommitError (ErrCommit e)" for e by (simp add: As_CommitError_def)
      ultimately show ?thesis using committed tx by auto
    qed
  qed
  then have "?goal (TaskService_Create x env d0 d rid r user)"
    unfolding TaskService_Create_def Let_def by (auto split: sum.split option.split)
  then show "cr_removed (TaskService_Create x env d0 d rid r user) \<noteq> None \<Longrightarrow>
     cr_db (TaskService_Create x env d0 d rid r user) = d" by blast
qed

lemma CreateProject_Inr:
  assumes "CreateProject rid nm ow re br i l tx = Inr (u, tx')"
  shows "Reader_Project (tx_db tx') rid = Inr \<lparr>p_ID = rid, p_Name = nm, p_GithubOwner = ow, p_GithubRepo = re, p_DefaultBranch = br,
       p_InstallationID = i, p_ContextPath = ''.devsquad'', p_LocalPath = l, p_TokenBudget = 2000000\<rparr>"
    "rid' \<noteq> rid \<Longrightarrow> Reader_Project (tx_db tx') rid' = Reader_Project (tx_db tx) rid'"
proof -
  from assms have new: "filter (\<lambda>p. p_ID p = rid) (db_projects (tx_db tx)) = []"
    by (auto simp: CreateProject_def tx_Inr filter_empty_conv)
  from assms obtain row where "db_projects (tx_db tx') = db_projects (tx_db tx) @ [row]" "p_ID row = rid"
    "ProjectEntity.truncate row = \<lparr>p_ID = rid, p_Name = nm, p_GithubOwner = ow, p_GithubRepo = re, p_DefaultBranch = br,
       p_InstallationID = i, p_ContextPath = ''.devsquad'', p_LocalPath = l, p_TokenBudget = 2000000\<rparr>"
    by (auto simp: CreateProject_def tx_Inr ProjectEntity.truncate_def)
  with new show "Reader_Project (tx_db tx') rid = Inr \<lparr>p_ID = rid, p_Name = nm, p_GithubOwner = ow, p_GithubRepo = re, p_DefaultBranch = br,
       p_InstallationID = i, p_ContextPath = ''.devsquad'', p_LocalPath = l, p_TokenBudget = 2000000\<rparr>"
    "rid' \<noteq> rid \<Longrightarrow> Reader_Project (tx_db tx') rid' = Reader_Project (tx_db tx) rid'"
    by (simp_all add: Reader_Project_def decode_def GetProject_def first_row_def)
qed

lemma ProjectService_Create_Inr:
  assumes "ProjectService_Create env d rid r = (Inr p, d', hs)"
  shows "FetchProject d' rid = Inr p" "rid' \<noteq> rid \<Longrightarrow> FetchProject d' rid' = FetchProject d rid'"
    "p = \<lparr>p_ID = rid, p_Name = TrimSpace (cp_Name r), p_GithubOwner = cp_GithubOwner r, p_GithubRepo = cp_GithubRepo r,
       p_DefaultBranch = (if TrimSpace (cp_DefaultBranch r) = [] then ''main'' else TrimSpace (cp_DefaultBranch r)),
       p_InstallationID = cp_InstallationID r, p_ContextPath = ''.devsquad'', p_LocalPath = cp_LocalPath r, p_TokenBudget = 2000000\<rparr>"
proof -
  let ?branch = "if TrimSpace (cp_DefaultBranch r) = [] then ''main'' else TrimSpace (cp_DefaultBranch r)"
  let ?m = "CreateProject rid (TrimSpace (cp_Name r)) (cp_GithubOwner r) (cp_GithubRepo r) ?branch (cp_InstallationID r) (cp_LocalPath r)"
  from assms obtain u where tx: "WithTx env ?m d = (Inr u, d', hs)" and get: "Reader_Project d' rid = Inr p"
    by (auto simp: ProjectService_Create_def Let_def split: if_splits prod.splits sum.splits)
  from tx obtain tx' where ok: "?m (begin_tx env d) = Inr (u, tx')" and d': "d' = tx_db tx'"
    by (cases rule: WithTx_cases) auto
  show "FetchProject d' rid = Inr p" using get by (simp add: FetchProject_def)
  show "rid' \<noteq> rid \<Longrightarrow> FetchProject d' rid' = FetchProject d rid'"
    using CreateProject_Inr(2) [OF ok] by (simp add: FetchProject_def d')
  show "p = \<lparr>p_ID = rid, p_Name = TrimSpace (cp_Name r), p_GithubOwner = cp_GithubOwner r, p_GithubRepo = cp_GithubRepo r,
       p_DefaultBranch = ?branch, p_InstallationID = cp_InstallationID r, p_ContextPath = ''.devsquad'', p_LocalPath = cp_LocalPath r,
       p_TokenBudget = 2000000\<rparr>"
    using CreateProject_Inr(1) [OF ok] get d' by simp
qed

end
