(* ===== verification/Scenario.thy ===== *)
theory Scenario
  imports System_Laws
begin

text \<open>
  A concrete run of the system, the instance on which the properties of reachable states are
  evaluated: a project is registered, a task with a two-stage pipeline is created (\<open>b\<close> depends on
  \<open>a\<close>, and \<open>a\<close> asks for an approval of its plan), the orchestrator starts it, and both stages run
  to the end. Every state is the result of
  the model's operations on the state before it.
\<close>

text \<open>The UUIDs drawn in one transaction share a tag; all times are 0.\<close>

definition demo_env :: "string \<Rightarrow> env" where
  "demo_env tag = \<lparr>e_now = 0, e_clock = (\<lambda>n. 0), e_uuid = (\<lambda>n. tag @ replicate n (CHR ''i'')), e_begin = None, e_commit = None\<rparr>"

definition demo_stages :: "StageSpec list" where
  "demo_stages =
     [\<lparr>sp_ID = ''a'', sp_Agent = ''publisher'', sp_DependsOn = None, sp_Approvals = Some [''plan''], sp_Model = [], sp_Tools = None\<rparr>,
      \<lparr>sp_ID = ''b'', sp_Agent = ''publisher'', sp_DependsOn = Some [''a''], sp_Approvals = Some [],
       sp_Model = [], sp_Tools = None\<rparr>]"

definition demo_tree :: node where
  "demo_tree = Dir [(''.devsquad'', Dir [(''pipeline.yaml'', Reg ''version: 1'')])]"

text \<open>The YAML decoder of the run: it knows one document.\<close>

definition demo_unmarshal :: "string \<Rightarrow> Pipeline \<Rightarrow> Pipeline result" where
  "demo_unmarshal text p =
     (if text = ''version: 1'' then Inr (p\<lparr>pl_Version := 1, pl_Stages := demo_stages\<rparr>) else Inl (Errorf ''yaml''))"

definition demo_services :: services where
  "demo_services = \<lparr>x_uuid_ok = (\<lambda>s. s \<noteq> []), x_Prepare = (\<lambda>rid src. Inr (''/ws/'' @ rid)),
     x_Clone = (\<lambda>rid ow re br. Inl (Errorf ''clone'')), x_SCM = False,
     x_LoadDefinition = LoadDefinition demo_unmarshal (\<lambda>t. Inl (Errorf ''yaml'')) (\<lambda>p. True) (Inr demo_tree),
     x_SaveDefinition = (\<lambda>dir d. Inr ()), x_providers = []\<rparr>"

lemma demo_loader: "real_loader demo_services"
  unfolding real_loader_def by (simp add: demo_services_def) blast

definition demo_definition :: Definition where
  "demo_definition = \<lparr>df_Pipeline = default_Pipeline\<lparr>pl_Version := 1, pl_Stages := map default_stage demo_stages\<rparr>,
     df_Agents = [(''publisher'', publisher_spec)], df_ProjectSpec = [], df_Workspace = ''/ws/t''\<rparr>"

definition demo_project :: CreateProjectRequest where
  "demo_project = \<lparr>cp_Name = ''shop'', cp_GithubOwner = ''o'', cp_GithubRepo = ''r'', cp_DefaultBranch = [],
     cp_InstallationID = None, cp_LocalPath = Some ''/src''\<rparr>"

definition demo_decision :: "string \<Rightarrow> DecisionRequest" where
  "demo_decision d = \<lparr>rq_StageKey = [], rq_Kind = [], rq_RetryNo = 0, rq_ApprovalID = [], rq_Decision = d,
     rq_Feedback = Some ''why'', rq_EditedContent = None\<rparr>"

definition demo_result :: Result where
  "demo_result = zero_Result\<lparr>rs_Content := ''x''\<rparr>"

section \<open>Reaching a database\<close>

definition at :: "db \<Rightarrow> (string \<times> StageEntity \<times> Input) list \<Rightarrow> bool" where
  "at d cs \<longleftrightarrow> (\<exists>s. reachable s \<and> y_db s = d \<and> y_claims s = cs \<and> d \<in> set (y_seen s))"

lemma at_step:
  assumes "reachable s" "step s (set_db d' (s\<lparr>y_claims := cs\<rparr>))"
  shows "at d' cs"
proof -
  have "reachable (set_db d' (s\<lparr>y_claims := cs\<rparr>))"
    using assms unfolding reachable_def by (rule rtranclp.rtrancl_into_rtrancl)
  then show ?thesis
    unfolding at_def by (intro exI [of _ "set_db d' (s\<lparr>y_claims := cs\<rparr>)"]) (simp add: set_db_def)
qed

lemma at_same:
  assumes "at d cs" "\<And>s. y_db s = d \<Longrightarrow> y_claims s = cs \<Longrightarrow> d \<in> set (y_seen s) \<Longrightarrow> step s (set_db d' s)"
  shows "at d' cs"
proof -
  from assms(1) obtain s where "reachable s" "y_db s = d" "y_claims s = cs" "d \<in> set (y_seen s)"
    unfolding at_def by blast
  with at_step [of s d' cs] assms(2) [of s] show ?thesis by auto
qed

lemma at_empty: "at empty_db []"
  unfolding at_def by (rule exI [of _ start_sys]) (simp add: reachable_def start_sys_def)

lemma at_claim:
  assumes "at d cs" "GetTask d rid = Inr t" "st \<in> set (Reader_Stages d rid)"
    "stage_mode st (Reader_Stages d rid) = mode" "mode \<noteq> []" "WithTx env (claim_tx rid st mode) d = (Inr c, d', hs)"
    "claim_input t (pipeline_snapshot t df) (Reader_Stages d rid) st mode c = Some inp"
  shows "at d' ((rid, c, inp) # cs)"
proof -
  from assms(1) obtain s where s: "reachable s" "y_db s = d" "y_claims s = cs" "d \<in> set (y_seen s)"
    unfolding at_def by blast
  with step.claim [of d s rid t st mode env c d' hs df inp] assms(2-) show ?thesis
    by (intro at_step [OF s(1)]) simp
qed

lemma at_reachable: "at d cs \<Longrightarrow> \<exists>s. reachable s \<and> y_db s = d \<and> y_claims s = cs"
  unfolding at_def by blast

section \<open>Evaluating the model\<close>

lemmas string_eval = TrimSpace_def ToLower_def DecodeRune_def EncodeRune_def lower_rune_def IsSpace_def HasPrefix_def
  Cut.simps char_of_def Let_def IsAbs_def Clean_def Join_path_def SafeRelative_def bit_0

lemmas tx_eval = WithTx_def begin_tx_def bindT_def retT_def failT_def liftT_def readT_def whenT_def modT_def
  constraint_def NewString_def TimeNow_def AfterCommit_def first_row_def update_where_def Let_def

lemmas query_eval = LockTask_def decode_def GetTask_def UpdateTaskStatus_def SetStatus_def task_statuses_def
  stage_statuses_def status_write_def Emit_def NextSequence_def CreateEvent_def CreateUsage_def ClaimStage_def
  claim_write_def Reader_Stages_def ListStages_def UpdateStage_def UpdateStageRow_def stage_match_def stage_write_def
  CreateApproval_def CreateDeliverable_def StageEntity.truncate_def Ready_def

lemma demo_paths:
  "Join_path [''.devsquad'', ''pipeline.yaml''] = ''.devsquad/pipeline.yaml''"
  "Join_path [''.devsquad'', ''spec.md''] = ''.devsquad/spec.md''" "SafeRelative ''.devsquad''"
  "read_plain demo_tree ''.devsquad/pipeline.yaml'' = Inr ''version: 1''"
  "read_plain demo_tree ''.devsquad/spec.md'' = Inl ErrNotExist"
  by (simp_all add: string_eval read_plain_def NoSymlinks_def demo_tree_def ReadFile_def)

lemma demo_levels: "Levels (df_Pipeline demo_definition) = Inr [[''a''], [''b'']]"
  by (simp add: Levels_def demo_definition_def levels_loop.simps next_level_def demo_stages_def default_stage_def Let_def)

lemma demo_parse: "ParsePipeline demo_unmarshal ''version: 1'' = Inr (df_Pipeline demo_definition)"
proof -
  have ids: "is_identifier ''a''" "is_identifier ''b''" "is_identifier ''publisher''"
    by (simp_all add: is_identifier_def is_lower_def is_ident_char_def)
  have "check_stages [] demo_stages = Inr (map default_stage demo_stages)"
    by (simp add: demo_stages_def ids)
  moreover have "eachR (\<lambda>s. check_deps (stage_ids (map default_stage demo_stages)) (sp_ID s) [] (elems (sp_DependsOn s)))
      (map default_stage demo_stages) = Inr ()"
    by (simp add: demo_stages_def default_stage_def)
  moreover have "pl_Policy default_Pipeline = zero_Policy\<lparr>MaxRetries := 3, MaxIterations := 40\<rparr>" "demo_stages \<noteq> []"
    by (simp_all add: default_Pipeline_def demo_stages_def)
  ultimately show ?thesis
    unfolding ParsePipeline_def demo_unmarshal_def Let_def
    using demo_levels by (simp add: Levels_def zero_Policy_def demo_definition_def)
qed

lemma demo_load: "x_LoadDefinition demo_services ''/ws/t'' ''.devsquad'' = Inr demo_definition"
proof -
  have "load_agents (\<lambda>t. Inl (Errorf ''yaml'')) demo_tree ''.devsquad'' [] (pl_Stages (df_Pipeline demo_definition))
    = Inr (df_Agents demo_definition)"
    by (simp add: demo_definition_def demo_stages_def)
  moreover have "checkWriteConflicts (\<lambda>p. True) demo_definition = Inr ()"
    by (simp add: checkWriteConflicts_def demo_definition_def demo_stages_def agent_of_def publisher_spec_def
        zero_AgentSpec_def)
  ultimately show ?thesis
    by (simp add: demo_services_def LoadDefinition_def demo_paths demo_parse) (simp add: demo_definition_def)
qed

section \<open>The run\<close>

definition demo_task :: "string \<Rightarrow> int \<Rightarrow> int \<Rightarrow> TaskEntity" where
  "demo_task st ver sq = (new_task ''t'' ''p'' ''do'' ''me'' (df_Pipeline demo_definition) ''/ws/t'' 2000000 0)
     \<lparr>t_Status := st, t_Version := ver, t_EventSeq := sq\<rparr>"

definition demo_stage :: "string \<Rightarrow> string \<Rightarrow> string list \<Rightarrow> string \<Rightarrow> int \<Rightarrow> int \<Rightarrow> string option \<Rightarrow> Stage" where
  "demo_stage sid key deps st att ver plan = (new_stage sid ''t'' key ''publisher'' deps)
     \<lparr>s_Status := st, s_Attempt := att, s_Version := ver, s_Plan := plan,
       sr_StartedAt := (if att = 0 then None else Some 0)\<rparr>"

definition row_a :: "string \<Rightarrow> int \<Rightarrow> int \<Rightarrow> string option \<Rightarrow> Stage" where
  "row_a = demo_stage ''B'' ''a'' []"

definition row_b :: "string \<Rightarrow> int \<Rightarrow> int \<Rightarrow> string option \<Rightarrow> Stage" where
  "row_b = demo_stage ''Bi'' ''b'' [''a'']"

lemmas demo_defs = demo_task_def demo_stage_def row_a_def row_b_def new_task_def new_stage_def demo_env_def

text \<open>The project and the task.\<close>

definition d1 :: db where
  "d1 = fst (snd (ProjectService_Create (demo_env ''A'') empty_db ''p'' demo_project))"

definition demo_row :: Project where
  "demo_row = \<lparr>p_ID = ''p'', p_Name = ''shop'', p_GithubOwner = ''o'', p_GithubRepo = ''r'', p_DefaultBranch = ''main'',
     p_InstallationID = None, p_ContextPath = ''.devsquad'', p_LocalPath = Some ''/src'',
     p_TokenBudget = 2000000, pr_CreatedAt = 0\<rparr>"

lemma d1_eq: "d1 = empty_db\<lparr>db_projects := [demo_row]\<rparr>"
proof -
  have "TrimSpace ''o'' = ''o''" "TrimSpace ''r'' = ''r''" "TrimSpace ''shop'' = ''shop''" by (simp_all add: string_eval)
  then show ?thesis
    by (simp add: d1_def ProjectService_Create_def demo_project_def tx_eval demo_env_def CreateProject_def empty_db_def
        demo_row_def)
qed

lemma d1_ok: "fst (ProjectService_Create (demo_env ''A'') empty_db ''p'' demo_project) = Inr (ProjectEntity.truncate demo_row)"
proof -
  have "TrimSpace ''o'' = ''o''" "TrimSpace ''r'' = ''r''" "TrimSpace ''shop'' = ''shop''" by (simp_all add: string_eval)
  then show ?thesis
    by (simp add: ProjectService_Create_def demo_project_def tx_eval demo_env_def CreateProject_def empty_db_def
        demo_row_def Reader_Project_def GetProject_def decode_def ProjectEntity.truncate_def)
qed

lemma d1 [simp]: "db_projects d1 = [demo_row]" "db_tasks d1 = []" "db_stages d1 = []" "db_approvals d1 = []"
  "db_deliverables d1 = []" "db_events d1 = []"
  by (simp_all add: d1_eq empty_db_def)

definition d2 :: db where
  "d2 = cr_db (TaskService_Create demo_services (demo_env ''B'') d1 d1 ''t'' \<lparr>ct_ProjectID = ''p'', ct_Command = ''do''\<rparr> ''me'')"

lemma d2_tx:
  "WithTx (demo_env ''B'') (CreateTask_tx ''t'' \<lparr>ct_ProjectID = ''p'', ct_Command = ''do''\<rparr> ''me'' ''/ws/t''
     (df_Pipeline demo_definition) 2000000) d1
   = (Inr (), d1\<lparr>db_tasks := [demo_task ''queued'' 0 0], db_stages := [row_a ''pending'' 0 0 None, row_b ''pending'' 0 0 None]\<rparr>,
      [MarkCommitted, WakeTask ''t''])"
proof -
  have "pl_Stages (df_Pipeline demo_definition) = map default_stage demo_stages" "TrimSpace ''do'' = ''do''"
    by (simp_all add: demo_definition_def string_eval)
  then show ?thesis
    by (simp add: tx_eval CreateTask_tx_def CreateTask_def CreateStage_def demo_row_def demo_stages_def default_stage_def
        demo_defs)
qed

lemma demo_checks:
  "prepare demo_services ''t'' (ProjectEntity.truncate demo_row) = Inr ''/ws/t''"
  "p_ContextPath (ProjectEntity.truncate demo_row) = ''.devsquad''" "p_TokenBudget (ProjectEntity.truncate demo_row) = 2000000"
  "Reader_Project d1 ''p'' = Inr (ProjectEntity.truncate demo_row)"
  "eachR (check_stage_tools demo_services demo_definition) (pl_Stages (df_Pipeline demo_definition)) = Inr ()"
  "TokenBudget (pl_Policy (df_Pipeline demo_definition)) = None" "TrimSpace ''do'' = ''do''"
  by (simp_all add: prepare_def demo_services_def demo_row_def ProjectEntity.truncate_def Reader_Project_def GetProject_def tx_eval
      decode_def check_stage_tools_def demo_definition_def demo_stages_def default_stage_def Model_def agent_of_def publisher_spec_def
      zero_AgentSpec_def Registry_Validate_def default_Pipeline_def zero_Pipeline_def zero_Policy_def string_eval)

lemma d2_eq:
  "d2 = d1\<lparr>db_tasks := [demo_task ''queued'' 0 0], db_stages := [row_a ''pending'' 0 0 None, row_b ''pending'' 0 0 None]\<rparr>"
  using demo_load d2_tx demo_checks by (simp add: d2_def TaskService_Create_def Let_def demo_services_def)

lemma d2 [simp]: "db_tasks d2 = [demo_task ''queued'' 0 0]" "db_stages d2 = [row_a ''pending'' 0 0 None, row_b ''pending'' 0 0 None]"
  "db_approvals d2 = []" "db_deliverables d2 = []" "db_events d2 = []"
  by (simp_all add: d2_eq)

text \<open>The ids and numbers of the events recorded so far; none of them is a \<open>pr.opened\<close>.\<close>

definition log_is :: "db \<Rightarrow> string set \<Rightarrow> int set \<Rightarrow> bool" where
  "log_is d ids seqs \<longleftrightarrow> ev_EventID ` set (db_events d) = ids \<and>
     (\<lambda>e. (ev_TaskID e, ev_Seq e)) ` set (db_events d) = {''t''} \<times> seqs \<and>
     (\<forall>e\<in>set (db_events d). ev_Type e \<noteq> ''pr.opened'')"

text \<open>The orchestrator starts the task and runs stage \<open>a\<close> up to the approval of its plan.\<close>

definition d3 :: db where
  "d3 = fst (snd (WithTx (demo_env ''C'') (start_tx ''t'' demo_definition) d2))"

lemma d3 [simp]: "db_tasks d3 = [demo_task ''running'' 1 1]" "db_stages d3 = [row_a ''pending'' 0 0 None, row_b ''pending'' 0 0 None]"
  "db_approvals d3 = []" "db_deliverables d3 = []"
  by (simp_all add: d3_def start_tx_def tx_eval query_eval demo_defs demo_levels)

lemma d3_log: "log_is d3 {''C''} {1}"
  by (simp add: log_is_def d3_def start_tx_def tx_eval query_eval demo_defs demo_levels)

definition entity :: "Stage \<Rightarrow> StageEntity" where
  "entity r = StageEntity.truncate r"

definition claimed :: "string \<Rightarrow> db \<Rightarrow> Stage \<Rightarrow> string \<Rightarrow> StageEntity result \<times> db \<times> hook list" where
  "claimed tag d r mode = WithTx (demo_env tag) (claim_tx ''t'' (entity r) mode) d"

definition run_input :: "db \<Rightarrow> Stage \<Rightarrow> Stage \<Rightarrow> string \<Rightarrow> Input" where
  "run_input d r c mode = stage_input (hd (db_tasks d)) demo_definition (Reader_Stages d ''t'') (entity r) (entity c) mode
     (default_stage (demo_stages ! (if s_StageKey r = ''a'' then 0 else 1)))"

definition committed :: "string \<Rightarrow> db \<Rightarrow> Stage \<Rightarrow> Input \<Rightarrow> unit result \<times> db \<times> hook list" where
  "committed tag d c inp = WithTx (demo_env tag) (commit_tx ''t'' (entity c) inp demo_result) d"

definition decided :: "string \<Rightarrow> db \<Rightarrow> string \<Rightarrow> DecidedResponse result \<times> db \<times> hook list" where
  "decided tag d decision = UpdateApproval (demo_env tag) d d ''E'' (demo_decision decision) ''me''"

lemmas step_eval = claimed_def committed_def decided_def entity_def claim_tx_def commit_tx_def commit_stage_def commit_gate_def
  commit_kind_def commit_retry_def commit_announce_def commit_approval_def commit_deliverable_def deriveTx_def Derive_def
  in_review_def runnable_def run_input_def stage_input_def demo_stages_def default_stage_def demo_result_def zero_Result_def new_deliverable_def

lemma Truncate_x: "Truncate ''x'' 400 = ''x''"
  by (simp add: Truncate_def DecodeRune_def)

text \<open>A claim of the run is a claim \<open>Reconcile\<close> makes.\<close>

lemma claimed_at:
  assumes "at d cs" "db_tasks d = [demo_task st ver sq]" "entity r \<in> set (Reader_Stages d ''t'')"
    "stage_mode (entity r) (Reader_Stages d ''t'') = mode" "mode \<noteq> []"
    "s_StageKey r \<in> {''a'', ''b''}" "claimed tag d r mode = (Inr (entity c), d', hs)"
  shows "at d' ((''t'', entity c, run_input d r c mode) # cs)"
proof (rule at_claim [OF assms(1) _ assms(3-5)])
  show "GetTask d ''t'' = Inr (demo_task st ver sq)"
    by (simp add: GetTask_def assms(2) first_row_def demo_defs)
  show "WithTx (demo_env tag) (claim_tx ''t'' (entity r) mode) d = (Inr (entity c), d', hs)"
    using assms(7) by (simp add: claimed_def)
  have "pipeline_snapshot (demo_task st ver sq) demo_definition = demo_definition"
    by (simp add: pipeline_snapshot_def UnmarshalPipeline_def demo_defs)
  moreover have "find (\<lambda>v. sp_ID v = s_StageKey (entity r)) (pl_Stages (df_Pipeline demo_definition))
      = Some (default_stage (demo_stages ! (if s_StageKey r = ''a'' then 0 else 1)))"
    using assms(6) by (auto simp: entity_def demo_definition_def demo_stages_def)
  moreover have "sp_ID (default_stage (demo_stages ! (if s_StageKey r = ''a'' then 0 else 1))) \<noteq> []"
    by (simp add: demo_stages_def)
  ultimately show "claim_input (demo_task st ver sq) (pipeline_snapshot (demo_task st ver sq) demo_definition)
      (Reader_Stages d ''t'') (entity r) mode (entity c) = Some (run_input d r c mode)"
    by (simp add: claim_input_def run_input_def assms(2))
qed

definition d4 :: db where
  "d4 = fst (snd (claimed ''D'' d3 (row_a ''pending'' 0 0 None) ''plan''))"

lemma d4 [simp]: "db_tasks d4 = [demo_task ''running'' 1 2]" "db_stages d4 = [row_a ''planning'' 1 1 None, row_b ''pending'' 0 0 None]"
  "db_approvals d4 = []" "db_deliverables d4 = []"
  "fst (claimed ''D'' d3 (row_a ''pending'' 0 0 None) ''plan'') = Inr (entity (row_a ''planning'' 1 1 None))"
  using d3_log by (simp_all add: log_is_def d4_def step_eval tx_eval query_eval demo_defs)

lemma d4_log: "log_is d4 {''C'', ''D''} {1, 2}"
  using d3_log by (simp_all add: log_is_def d4_def step_eval tx_eval query_eval demo_defs insert_commute)

text \<open>A branch of the run: the model reports a usage of three million tokens.\<close>

definition du :: db where
  "du = fst (snd (WithTx (demo_env ''U'') (progress_tx ''t'' (entity (row_a ''planning'' 1 1 None)) ''usage''
     (JObj [(''model'', JStr ''m''), (''input_tokens'', JInt 3000000)])) d4))"

lemma no_usages: "db_usages d2 = []" "db_usages d3 = []" "db_usages d4 = []"
proof -
  show d2: "db_usages d2 = []" by (simp add: d2_eq d1_eq empty_db_def)
  show d3: "db_usages d3 = []" using d2 by (simp add: d3_def start_tx_def tx_eval query_eval demo_defs demo_levels)
  show "db_usages d4 = []" using d3 d3_log by (simp add: log_is_def d4_def step_eval tx_eval query_eval demo_defs)
qed

lemma du: "db_tasks du = [demo_task ''running'' 1 3]" "TaskTokensUsed du ''t'' = 3000000"
  using d4_log no_usages
  by (simp_all add: log_is_def du_def progress_tx_def TaskTokensUsed_def usage_of_def mk_event_def jget_int_def jget_def step_eval tx_eval query_eval demo_defs)

lemma du_log: "log_is du {''C'', ''D'', ''U''} {1, 2, 3}"
  using d4_log by (simp add: log_is_def du_def progress_tx_def step_eval tx_eval query_eval demo_defs insert_commute)

lemma du_exceeded: "fst (Budget_Check (demo_env ''V'') du du ''t'') = Inl ErrBudgetExceeded"
  using du_log by (simp add: Budget_Check_def Check_tx_def du Reader_Task_def log_is_def tx_eval query_eval demo_defs)

definition d5 :: db where
  "d5 = fst (snd (committed ''E'' d4 (row_a ''planning'' 1 1 None) (run_input d3 (row_a ''pending'' 0 0 None) (row_a ''planning'' 1 1 None) ''plan'')))"

definition demo_approval :: ApprovalEntity where
  "demo_approval = new_approval ''E'' ''t'' ''B'' ''plan'' 0 (approval_title ''a'' ''plan'' 0) ''x'' 0"

lemma d5 [simp]: "db_tasks d5 = [demo_task ''waiting_approval'' 2 3]"
  "db_stages d5 = [row_a ''plan_review'' 1 2 (Some ''x''), row_b ''pending'' 0 0 None]"
  "db_approvals d5 = [demo_approval]" "db_deliverables d5 = []"
  using d4_log by (simp_all add: log_is_def d5_def demo_approval_def step_eval tx_eval query_eval demo_defs)

lemma d5_log: "log_is d5 {''C'', ''D'', ''Ei''} {1, 2, 3}"
  using d4_log by (simp_all add: log_is_def d5_def step_eval tx_eval query_eval demo_defs insert_commute)

lemma d5_ok: "committed ''E'' d4 (row_a ''planning'' 1 1 None)
    (run_input d3 (row_a ''pending'' 0 0 None) (row_a ''planning'' 1 1 None) ''plan'') = (Inr (), d5, hs5)"
  if "hs5 = snd (snd (committed ''E'' d4 (row_a ''planning'' 1 1 None)
    (run_input d3 (row_a ''pending'' 0 0 None) (row_a ''planning'' 1 1 None) ''plan'')))"
proof -
  have "fst (committed ''E'' d4 (row_a ''planning'' 1 1 None)
      (run_input d3 (row_a ''pending'' 0 0 None) (row_a ''planning'' 1 1 None) ''plan'')) = Inr ()"
    using d4_log by (simp add: log_is_def demo_approval_def step_eval tx_eval query_eval demo_defs)
  with that show ?thesis by (simp add: d5_def prod_eq_iff)
qed

definition d6 :: db where
  "d6 = fst (snd (decided ''F'' d5 ''approve''))"

lemmas decide_eval = UpdateApproval_def UpdateApproval_tx_def demo_decision_def ValidateDecision_def Reader_Approval_def
  GetApproval_def DecideApproval_def decision_status_def decision_write_def UnmarshalPipeline_def Decide_def
  decide_events_def decide_derive_def demo_approval_def new_approval_def

lemma ToLower_approve: "ToLower ''approve'' = ''approve''"
  by (simp add: string_eval)

lemma d6 [simp]: "db_tasks d6 = [demo_task ''running'' 3 4]"
  "db_stages d6 = [(row_a ''executing'' 1 3 (Some ''x''))\<lparr>s_LastFeedback := Some ''why''\<rparr>, row_b ''pending'' 0 0 None]"
  "db_approvals d6 = [decision_write ''approved'' (Some ''why'') None ''me'' 0 demo_approval]" "db_deliverables d6 = []"
  using d5_log by (simp_all add: log_is_def d6_def ToLower_approve decide_eval step_eval tx_eval query_eval demo_defs)

lemma d6_log: "log_is d6 {''C'', ''D'', ''Ei'', ''F''} {1, 2, 3, 4}"
  using d5_log by (simp_all add: log_is_def d6_def ToLower_approve decide_eval step_eval tx_eval query_eval demo_defs insert_commute)

lemma d6_ok: "\<exists>v hs. decided ''F'' d5 ''approve'' = (Inr v, d6, hs)"
proof -
  have "\<exists>v. fst (decided ''F'' d5 ''approve'') = Inr v"
    using d5_log by (simp add: log_is_def ToLower_approve decide_eval step_eval tx_eval query_eval demo_defs)
  then show ?thesis by (auto simp: d6_def prod_eq_iff)
qed

text \<open>Stage \<open>a\<close> runs again, now to execute its plan, and is approved without a gate.\<close>

definition a6 :: Stage where
  "a6 = (row_a ''executing'' 1 3 (Some ''x''))\<lparr>s_LastFeedback := Some ''why''\<rparr>"

definition a7 :: Stage where
  "a7 = (row_a ''executing'' 2 4 (Some ''x''))\<lparr>s_LastFeedback := Some ''why''\<rparr>"

definition a8 :: Stage where
  "a8 = (row_a ''approved'' 2 5 (Some ''x''))\<lparr>s_LastFeedback := Some ''why'', s_DeliverableSummary := Some ''x'', sr_CompletedAt := Some 0\<rparr>"

definition d7 :: db where
  "d7 = fst (snd (claimed ''G'' d6 a6 ''execute''))"

lemma d7 [simp]: "db_tasks d7 = [demo_task ''running'' 3 4]" "db_stages d7 = [a7, row_b ''pending'' 0 0 None]"
  "db_approvals d7 = db_approvals d6" "db_deliverables d7 = []" "db_events d7 = db_events d6"
  "fst (claimed ''G'' d6 a6 ''execute'') = Inr (entity a7)"
  by (simp_all add: d7_def a6_def a7_def step_eval tx_eval query_eval demo_defs)

definition d8 :: db where
  "d8 = fst (snd (committed ''H'' d7 a7 (run_input d6 a6 a7 ''execute'')))"

lemma d8 [simp]: "db_tasks d8 = [demo_task ''running'' 3 6]" "db_stages d8 = [a8, row_b ''pending'' 0 0 None]"
  "db_approvals d8 = db_approvals d6" "map d_ID (db_deliverables d8) = [''H'']"
  using d6_log
  by (simp_all add: log_is_def d8_def a6_def a7_def a8_def Truncate_x step_eval tx_eval query_eval demo_defs)

lemma d8_log: "log_is d8 {''C'', ''D'', ''Ei'', ''F'', ''Hi'', ''Hii''} {1, 2, 3, 4, 5, 6}"
  using d6_log
  by (simp_all add: log_is_def d8_def a6_def a7_def Truncate_x step_eval tx_eval query_eval demo_defs insert_commute numeral_2_eq_2)

text \<open>Stage \<open>b\<close> has no gate: its plan is executed at once, and its deliverable completes the task.\<close>

definition d9 :: db where
  "d9 = fst (snd (claimed ''I'' d8 (row_b ''pending'' 0 0 None) ''plan''))"

lemma d9 [simp]: "db_tasks d9 = [demo_task ''running'' 3 7]" "db_stages d9 = [a8, row_b ''planning'' 1 1 None]"
  "db_approvals d9 = db_approvals d6" "map d_ID (db_deliverables d9) = [''H'']"
  "fst (claimed ''I'' d8 (row_b ''pending'' 0 0 None) ''plan'') = Inr (entity (row_b ''planning'' 1 1 None))"
  using d8_log by (simp_all add: log_is_def d9_def a8_def step_eval tx_eval query_eval demo_defs)

lemma d9_log: "log_is d9 {''C'', ''D'', ''Ei'', ''F'', ''Hi'', ''Hii'', ''I''} {1, 2, 3, 4, 5, 6, 7}"
  using d8_log by (simp_all add: log_is_def d9_def a8_def step_eval tx_eval query_eval demo_defs insert_commute)

definition b10 :: Stage where
  "b10 = row_b ''executing'' 1 2 (Some ''x'')"

definition b11 :: Stage where
  "b11 = row_b ''executing'' 2 3 (Some ''x'')"

definition b12 :: Stage where
  "b12 = (row_b ''approved'' 2 4 (Some ''x''))\<lparr>s_DeliverableSummary := Some ''x'', sr_CompletedAt := Some 0\<rparr>"

definition d10 :: db where
  "d10 = fst (snd (committed ''J'' d9 (row_b ''planning'' 1 1 None)
     (run_input d8 (row_b ''pending'' 0 0 None) (row_b ''planning'' 1 1 None) ''plan'')))"

lemma d10 [simp]: "db_tasks d10 = [demo_task ''running'' 3 7]" "db_stages d10 = [a8, b10]"
  "db_approvals d10 = db_approvals d6" "db_deliverables d10 = db_deliverables d9" "db_events d10 = db_events d9"
  by (simp_all add: d10_def a8_def b10_def step_eval tx_eval query_eval demo_defs)

definition d11 :: db where
  "d11 = fst (snd (claimed ''K'' d10 b10 ''execute''))"

lemma d11 [simp]: "db_tasks d11 = [demo_task ''running'' 3 7]" "db_stages d11 = [a8, b11]"
  "db_approvals d11 = db_approvals d6" "db_deliverables d11 = db_deliverables d9" "db_events d11 = db_events d9"
  "fst (claimed ''K'' d10 b10 ''execute'') = Inr (entity b11)"
  by (simp_all add: d11_def a8_def b10_def b11_def step_eval tx_eval query_eval demo_defs)

definition d12 :: db where
  "d12 = fst (snd (committed ''L'' d11 b11 (run_input d10 b10 b11 ''execute'')))"

lemma no_pr: "log_is d ids seqs \<Longrightarrow> filter (\<lambda>e. ev_TaskID e = ''t'' \<and> ev_Type e = ''pr.opened'') (db_events d) = []"
  by (auto simp: log_is_def filter_empty_conv)

lemma d9_deliverables: "d_ID ` set (db_deliverables d9) = {''H''}"
  unfolding set_map [symmetric] d9(4) by simp

lemma d12 [simp]: "db_tasks d12 = [demo_task ''completed'' 4 10]" "db_stages d12 = [a8, b12]" "db_approvals d12 = db_approvals d6"
  using d9_log no_pr [OF d9_log]
  by (simp_all add: log_is_def d12_def a8_def b10_def b11_def b12_def d9_deliverables Truncate_x Completion_def
      PullRequestURLs_def step_eval tx_eval query_eval demo_defs)

section \<open>The states of the run are reachable\<close>

lemma claim_result: "fst (claimed tag d r mode) = Inr c \<Longrightarrow> d' = fst (snd (claimed tag d r mode)) \<Longrightarrow>
    claimed tag d r mode = (Inr c, d', snd (snd (claimed tag d r mode)))"
  by (metis prod.collapse)

lemma committed_at:
  assumes "at d ((''t'', entity c, inp) # cs)"
  shows "at (fst (snd (committed tag d c inp))) ((''t'', entity c, inp) # cs)"
  by (rule at_same [OF assms], rule step.commit) (auto simp: committed_def intro!: prod_eqI)

lemma at_d2: "at d2 []"
proof -
  have "at d1 []"
    by (rule at_same [OF at_empty], rule step.create_project) (auto simp: d1_def intro!: prod_eqI)
  then show ?thesis
  proof (rule at_same)
    fix s :: sys assume "y_db s = d1" "d1 \<in> set (y_seen s)"
    with step.create_task [OF demo_loader, of d1 s "demo_env ''B''" "''t''"
        "\<lparr>ct_ProjectID = ''p'', ct_Command = ''do''\<rparr>" "''me''"]
    show "step s (set_db d2 s)" by (simp add: d2_def)
  qed
qed

lemma at_d3: "at d3 []"
  by (rule at_same [OF at_d2], rule step.start) (auto simp: d3_def intro!: prod_eqI)

lemmas row_eval = entity_def Reader_Stages_def ListStages_def stage_mode_def Ready_def StageEntity.truncate_def demo_defs

abbreviation claim_a :: "string \<times> StageEntity \<times> Input" where
  "claim_a \<equiv> (''t'', entity (row_a ''planning'' 1 1 None),
     run_input d3 (row_a ''pending'' 0 0 None) (row_a ''planning'' 1 1 None) ''plan'')"

lemma at_d4: "at d4 [claim_a]"
  by (rule claimed_at [OF at_d3 d3(1) _ _ _ _ claim_result [OF d4(5) d4_def]]) (simp_all add: row_eval)

lemma at_du: "\<exists>s. reachable s \<and> y_db s = du"
proof -
  from at_d4 have "at du [claim_a]"
  proof (rule at_same)
    fix s :: sys assume s: "y_db s = d4" "y_claims s = [claim_a]"
    then have c: "(''t'', entity (row_a ''planning'' 1 1 None), snd (snd claim_a)) \<in> set (y_claims s)" by simp
    show "step s (set_db du s)"
      by (rule step.progress [OF c, where env = "demo_env ''U''" and kind = "''usage''"
          and payload = "JObj [(''model'', JStr ''m''), (''input_tokens'', JInt 3000000)]"])
        (simp add: s(1) du_def prod_eq_iff)
  qed
  then show ?thesis unfolding at_def by blast
qed

lemma at_d5: "at d5 [claim_a]"
  unfolding d5_def using committed_at [OF at_d4] by simp

lemma at_d6: "at d6 [claim_a]"
  by (rule at_same [OF at_d5], rule step.update_approval) (auto simp: d6_def decided_def intro!: prod_eqI)

lemma at_d8: "at d8 [(''t'', entity a7, run_input d6 a6 a7 ''execute''), claim_a]"
proof -
  have "at d7 [(''t'', entity a7, run_input d6 a6 a7 ''execute''), claim_a]"
    by (rule claimed_at [OF at_d6 d6(1) _ _ _ _ claim_result [OF d7(6) d7_def]]) (simp_all add: row_eval a6_def)
  then show ?thesis unfolding d8_def by (rule committed_at)
qed

lemma at_d12: "\<exists>cs. at d12 cs"
proof -
  let ?b = "row_b ''planning'' 1 1 None"
  have "at d9 ((''t'', entity ?b, run_input d8 (row_b ''pending'' 0 0 None) ?b ''plan'') #
      [(''t'', entity a7, run_input d6 a6 a7 ''execute''), claim_a])"
    by (rule claimed_at [OF at_d8 d8(1) _ _ _ _ claim_result [OF d9(5) d9_def]]) (simp_all add: row_eval a8_def)
  then have "at d10 ((''t'', entity ?b, run_input d8 (row_b ''pending'' 0 0 None) ?b ''plan'') #
      [(''t'', entity a7, run_input d6 a6 a7 ''execute''), claim_a])"
    unfolding d10_def by (rule committed_at)
  then have "at d11 ((''t'', entity b11, run_input d10 b10 b11 ''execute'') #
      (''t'', entity ?b, run_input d8 (row_b ''pending'' 0 0 None) ?b ''plan'') #
      [(''t'', entity a7, run_input d6 a6 a7 ''execute''), claim_a])"
    by (rule claimed_at [OF _ d10(1) _ _ _ _ claim_result [OF d11(6) d11_def]]) (simp_all add: row_eval a8_def b10_def)
  then show ?thesis unfolding d12_def using committed_at by blast
qed

end
