(* ===== verification/Ws_Hub.thy ===== *)
theory Ws_Hub
  imports Service_Laws Scenario
begin

text \<open>
  The WebSocket hub (\<open>internal/ws/hub.go\<close>): the loop of one connection, which takes commands of the
  client and events of its bus subscription, in the order \<open>select\<close> picks them. The store may be read
  at any later time during a replay, and any frame may fail to be sent. Shown: the replay ends and
  sends exactly the events asked for; which live events are forwarded.
\<close>

section \<open>The connection\<close>

record message =
  mg_Op :: string
  mg_TaskID :: "string option"
  mg_FromSeq :: int

datatype frame = FEvent Event | FReply string string | FSubscribed string nat

record hub_world =
  h_db :: "nat \<Rightarrow> db"
  h_fails :: "nat \<Rightarrow> err option"
  h_sends :: "frame list \<Rightarrow> bool"
  h_uuid :: "string \<Rightarrow> bool"

text \<open>\<open>cn_e\<close> says whether the variable \<open>e\<close>, which the iterations share, holds an error.\<close>

record conn =
  cn_tasks :: "string list"
  cn_summary :: bool
  cn_sent :: "frame list"
  cn_reads :: nat
  cn_e :: bool

definition opened_conn :: conn where
  "opened_conn = \<lparr>cn_tasks = [], cn_summary = False, cn_sent = [], cn_reads = 0, cn_e = False\<rparr>"

definition send :: "hub_world \<Rightarrow> frame \<Rightarrow> conn \<Rightarrow> bool \<times> conn" where
  "send h f c = (if h_sends h (cn_sent c @ [f]) then (True, c\<lparr>cn_sent := cn_sent c @ [f]\<rparr>) else (False, c))"

section \<open>Replay\<close>

fun send_batch :: "hub_world \<Rightarrow> int \<Rightarrow> Event list \<Rightarrow> int \<Rightarrow> nat \<Rightarrow> conn \<Rightarrow> bool \<times> int \<times> nat \<times> conn" where
  "send_batch h target [] after n c = (True, after, n, c)"
| "send_batch h target (ev # evs) after n c =
     (if target < ev_Seq ev then (True, after, n, c)
      else case send h (FEvent ev) c of
          (False, c) \<Rightarrow> (False, after, n, c)
        | (True, c) \<Rightarrow> send_batch h target evs (ev_Seq ev) (n + 1) c)"

definition replay_failed :: "hub_world \<Rightarrow> nat \<Rightarrow> conn \<Rightarrow> bool \<times> nat \<times> conn" where
  "replay_failed h n c = (False, n, snd (send h (FReply ''error'' ''REPLAY_FAILED'') c))"

definition read_batch :: "hub_world \<Rightarrow> string \<Rightarrow> int \<Rightarrow> conn \<Rightarrow> Event list result" where
  "read_batch h rid after c = (case h_fails h (cn_reads c) of Some e \<Rightarrow> Inl e | None \<Rightarrow> ListEvents (h_db h (cn_reads c)) rid after 500)"

partial_function (option) replay_events :: "hub_world \<Rightarrow> string \<Rightarrow> int \<Rightarrow> int \<Rightarrow> nat \<Rightarrow> conn \<Rightarrow> (bool \<times> nat \<times> conn) option" where
  "replay_events h rid target after n c =
     (if \<not> after < target then Some (True, n, c)
      else case read_batch h rid after c of
          Inl e \<Rightarrow> Some (replay_failed h n (c\<lparr>cn_reads := cn_reads c + 1\<rparr>))
        | Inr batch \<Rightarrow>
            if batch = [] then Some (True, n, c\<lparr>cn_reads := cn_reads c + 1\<rparr>)
            else case send_batch h target batch after n (c\<lparr>cn_reads := cn_reads c + 1\<rparr>) of (ok, after', n', c') \<Rightarrow>
                if ok then replay_events h rid target after' n' c' else Some (False, n', c'))"

declare replay_events.simps [code]

section \<open>Commands and events\<close>

text \<open>A reply whose outcome is assigned to \<open>e\<close>; an error ends the loop at the end of the iteration.\<close>

definition reply :: "hub_world \<Rightarrow> frame \<Rightarrow> conn \<Rightarrow> bool \<times> conn" where
  "reply h f c = (let (ok, c') = send h f c in (ok, c'\<lparr>cn_e := \<not> ok\<rparr>))"

definition subscribe_task :: "hub_world \<Rightarrow> string \<Rightarrow> int \<Rightarrow> conn \<Rightarrow> (bool \<times> conn) option" where
  "subscribe_task h rid from c =
     (let c1 = c\<lparr>cn_reads := cn_reads c + 1\<rparr>
      in case (case h_fails h (cn_reads c) of Some e \<Rightarrow> Inl e | None \<Rightarrow> Reader_Task (h_db h (cn_reads c)) rid) of
           Inl e \<Rightarrow> Some (reply h (FReply ''error'' ''TASK_NOT_FOUND'') c1)
         | Inr t \<Rightarrow>
            (case replay_events h rid (t_EventSeq t) from 0 (c1\<lparr>cn_tasks := rid # cn_tasks c1\<rparr>) of
               None \<Rightarrow> None
             | Some (ok, n, c2) \<Rightarrow> Some (if ok then reply h (FSubscribed rid n) c2 else (False, c2))))"

definition command :: "hub_world \<Rightarrow> message \<Rightarrow> conn \<Rightarrow> (bool \<times> conn) option" where
  "command h m c =
     (case mg_TaskID m of
        Some rid \<Rightarrow>
          if \<not> h_uuid h rid then Some (send h (FReply ''error'' ''BAD_REQUEST'') (c\<lparr>cn_e := True\<rparr>))
          else (let c = c\<lparr>cn_e := False\<rparr> in
            if mg_Op m = ''ping'' then Some (reply h (FReply ''pong'' []) c)
            else if mg_Op m = ''unsubscribe'' then Some (True, c\<lparr>cn_tasks := removeAll rid (cn_tasks c)\<rparr>)
            else if mg_Op m = ''subscribe'' then
              (if mg_FromSeq m < 0 then Some (reply h (FReply ''error'' ''BAD_REQUEST'') c) else subscribe_task h rid (mg_FromSeq m) c)
            else Some (reply h (FReply ''error'' ''UNKNOWN_OP'') c))
      | None \<Rightarrow>
          if mg_Op m = ''ping'' then Some (reply h (FReply ''pong'' []) c)
          else if mg_Op m = ''unsubscribe'' then Some (\<not> cn_e c, c\<lparr>cn_summary := False\<rparr>)
          else if mg_Op m = ''subscribe'' then
            (if mg_FromSeq m < 0 then Some (reply h (FReply ''error'' ''BAD_REQUEST'') c)
             else Some (reply h (FSubscribed [] 0) (c\<lparr>cn_summary := True\<rparr>)))
          else Some (reply h (FReply ''error'' ''UNKNOWN_OP'') c))"

definition wanted :: "conn \<Rightarrow> Event \<Rightarrow> bool" where
  "wanted c ev \<longleftrightarrow> ev_TaskID ev \<in> set (cn_tasks c) \<or>
     cn_summary c \<and> (HasPrefix (ev_Type ev) ''run.'' \<or> HasPrefix (ev_Type ev) ''stage.'' \<or> HasPrefix (ev_Type ev) ''approval.'')"

definition forward :: "hub_world \<Rightarrow> Event \<Rightarrow> conn \<Rightarrow> bool \<times> conn" where
  "forward h ev c = (if wanted c ev then send h (FEvent ev) c else (True, c))"

datatype input = Command message | Live Event

text \<open>The loop: it returns the connection's last state, with whether it is still open.\<close>

fun serve :: "hub_world \<Rightarrow> input list \<Rightarrow> conn \<Rightarrow> (bool \<times> conn) option" where
  "serve h [] c = Some (True, c)"
| "serve h (Command m # is) c = (case command h m c of None \<Rightarrow> None | Some (ok, c) \<Rightarrow> if ok then serve h is c else Some (False, c))"
| "serve h (Live ev # is) c = (case forward h ev c of (ok, c) \<Rightarrow> if ok then serve h is c else Some (False, c))"

section \<open>Laws of the replay\<close>

lemma numbered_drop:
  assumes "map ev_Seq es = [1..int (length es)]" "0 \<le> a"
  shows "filter (\<lambda>e. a < ev_Seq e) es = drop (nat a) es"
proof -
  have nth: "ev_Seq (es ! i) = int i + 1" if "i < length es" for i
    using arg_cong [OF assms(1), of "\<lambda>xs. xs ! i"] that by simp
  have "filter (\<lambda>e. a < ev_Seq e) (take (nat a) es) = []"
    using assms(2) by (auto simp: filter_empty_conv in_set_conv_nth nth)
  moreover have "filter (\<lambda>e. a < ev_Seq e) (drop (nat a) es) = drop (nat a) es"
    using assms(2) by (auto simp: filter_id_conv in_set_conv_nth nth)
  ultimately show ?thesis by (metis append_take_drop_id append_Nil filter_append)
qed

lemma send_ok: "(\<And>fs. h_sends h fs) \<Longrightarrow> send h f c = (True, c\<lparr>cn_sent := cn_sent c @ [f]\<rparr>)"
  by (simp add: send_def)

lemma send_batch_ok:
  assumes "\<And>fs. h_sends h fs"
  shows "send_batch h target evs after n c =
    (let out = takeWhile (\<lambda>e. ev_Seq e \<le> target) evs
     in (True, if out = [] then after else ev_Seq (last out), n + length out, c\<lparr>cn_sent := cn_sent c @ map FEvent out\<rparr>))"
proof (induction evs arbitrary: after n c)
  case (Cons e evs)
  then show ?case by (simp add: send_ok [OF assms] Let_def)
qed simp

definition task_events :: "db \<Rightarrow> string \<Rightarrow> Event list" where
  "task_events d rid = filter (\<lambda>e. ev_TaskID e = rid) (db_events d)"

lemma task_events_numbered:
  assumes "reachable s" "t \<in> set (db_tasks (y_db s))"
  shows "map ev_Seq (task_events (y_db s) (t_ID t)) = [1..t_EventSeq t]" "t_EventSeq t = int (length (task_events (y_db s) (t_ID t)))"
proof -
  have log: "event_log (y_db s)" using sys_invD(1) [OF reachable_inv [OF assms(1)]] by (simp add: db_inv_def)
  then show seqs: "map ev_Seq (task_events (y_db s) (t_ID t)) = [1..t_EventSeq t]"
    using assms(2) by (auto simp: event_log_def ledger_def task_events_def)
  have "0 \<le> t_EventSeq t" using log assms(2) by (auto simp: event_log_def)
  with arg_cong [OF seqs, of length] show "t_EventSeq t = int (length (task_events (y_db s) (t_ID t)))" by simp
qed

text \<open>A later read of the ledger extends the earlier one.\<close>

lemma batch_read:
  assumes "reachable s" "t \<in> set (db_tasks (y_db s))" "step\<^sup>*\<^sup>* s s'" "0 \<le> a"
  shows "\<exists>ys. ListEvents (y_db s') (t_ID t) a 500 = Inr (take 500 (drop (nat a) (task_events (y_db s) (t_ID t) @ ys))) \<and>
    map ev_Seq (task_events (y_db s) (t_ID t) @ ys) = [1..int (length (task_events (y_db s) (t_ID t) @ ys))]"
proof -
  let ?L = "task_events (y_db s) (t_ID t)" and ?M = "task_events (y_db s') (t_ID t)"
  have re: "reachable s'" by (rule reachable_steps [OF assms(1,3)])
  obtain u where u: "u \<in> set (db_tasks (y_db s'))" "t_ID u = t_ID t" using history [OF assms(3)] assms(2) by blast
  obtain zs where "db_events (y_db s') = db_events (y_db s) @ zs" using history [OF assms(3)] by (auto simp: prefix_def)
  then have M: "?M = ?L @ filter (\<lambda>e. ev_TaskID e = t_ID t) zs" by (simp add: task_events_def)
  have num: "map ev_Seq ?M = [1..int (length ?M)]" using task_events_numbered [OF re u(1)] u(2) by simp
  have F: "filter (\<lambda>e. ev_TaskID e = t_ID t \<and> a < ev_Seq e) (db_events (y_db s')) = drop (nat a) ?M"
    using numbered_drop [OF num assms(4)] by (simp add: task_events_def conj_commute)
  have "sorted (map ev_Seq ?M)" unfolding num by simp
  then have "sorted (map ev_Seq (drop (nat a) ?M))" unfolding drop_map [symmetric] by (rule sorted_wrt_drop)
  then have "ListEvents (y_db s') (t_ID t) a 500 = Inr (take 500 (drop (nat a) ?M))"
    by (simp add: ListEvents_def F sort_key_id_if_sorted)
  with M num show ?thesis by metis
qed

lemma numbered_takeWhile:
  assumes "map ev_Seq (L @ ys) = [1..int (length (L @ ys))]" "a \<le> length L"
  shows "takeWhile (\<lambda>e. ev_Seq e \<le> int (length L)) (take k (drop a (L @ ys))) = take k (drop a L)"
proof -
  have nth: "ev_Seq ((L @ ys) ! i) = int i + 1" if "i < length (L @ ys)" for i
    using arg_cong [OF assms(1), of "\<lambda>xs. xs ! i"] that by (simp only: nth_map length_upto nth_upto)
  have "\<forall>e\<in>set L. ev_Seq e \<le> int (length L)"
  proof
    fix e assume "e \<in> set L"
    then obtain i where "i < length L" "e = (L @ ys) ! i" by (auto simp: in_set_conv_nth nth_append)
    with nth [of i] show "ev_Seq e \<le> int (length L)" by simp
  qed
  then have L: "\<forall>e\<in>set (take k (drop a L)). ev_Seq e \<le> int (length L)" by (meson in_set_dropD in_set_takeD)
  have "\<not> ev_Seq (hd ys) \<le> int (length L)" if "ys \<noteq> []"
    using nth [of "length L"] that by (simp add: nth_append hd_conv_nth)
  then have "takeWhile (\<lambda>e. ev_Seq e \<le> int (length L)) (take m ys) = []" for m by (cases ys; cases m) auto
  then show ?thesis using L assms(2) by (simp add: takeWhile_append2)
qed

lemma replay_exact:
  assumes re: "reachable s" and t: "t \<in> set (db_tasks (y_db s))" and later: "\<And>k. k0 \<le> k \<Longrightarrow> step\<^sup>*\<^sup>* s (ss k) \<and> h_db h k = y_db (ss k)"
    and ok: "\<And>k. h_fails h k = None" "\<And>fs. h_sends h fs" and L: "L = task_events (y_db s) (t_ID t)"
  shows "a \<le> length L \<Longrightarrow> k0 \<le> cn_reads c \<Longrightarrow> \<exists>k. replay_events h (t_ID t) (t_EventSeq t) (int a) n c =
    Some (True, n + (length L - a), c\<lparr>cn_reads := k, cn_sent := cn_sent c @ map FEvent (drop a L)\<rparr>)"
proof (induction "length L - a" arbitrary: a n c rule: less_induct)
  case less
  have T: "t_EventSeq t = int (length L)" using task_events_numbered(2) [OF re t] L by simp
  show ?case
  proof (cases "a = length L")
    case True
    then show ?thesis by (subst replay_events.simps) (simp add: T, rule exI [of _ "cn_reads c"], simp)
  next
    case False
    then have a: "a < length L" using less.prems by simp
    let ?c = "c\<lparr>cn_reads := cn_reads c + 1\<rparr>"
    obtain ys where ys: "ListEvents (y_db (ss (cn_reads c))) (t_ID t) (int a) 500 = Inr (take 500 (drop a (L @ ys)))"
      "map ev_Seq (L @ ys) = [1..int (length (L @ ys))]"
      using batch_read [OF re t conjunct1 [OF later [OF less.prems(2)]], of "int a"] by (auto simp: L)
    let ?batch = "take 500 (drop a (L @ ys))" and ?out = "take 500 (drop a L)"
    have batch: "read_batch h (t_ID t) (int a) c = Inr ?batch" using ys(1) later [OF less.prems(2)] ok(1) by (simp add: read_batch_def)
    have tw: "takeWhile (\<lambda>e. ev_Seq e \<le> t_EventSeq t) ?batch = ?out" unfolding T by (rule numbered_takeWhile [OF ys(2)]) (use a in simp)
    have ne: "?batch \<noteq> []" "?out \<noteq> []" using a by auto
    let ?b = "a + min 500 (length L - a)"
    have b: "?b \<le> length L" "length L - ?b < length L - a" using a by auto
    have last: "ev_Seq (last ?out) = int ?b"
    proof -
      have "last ?out = (L @ ys) ! (?b - 1)" using a by (simp add: last_conv_nth nth_append min_def add.commute)
      moreover have "map ev_Seq (L @ ys) ! (?b - 1) = int ?b" using a by (subst ys(2)) (simp add: min_def)
      ultimately show ?thesis using a by (simp add: nth_append split: if_splits)
    qed
    have sb: "send_batch h (t_EventSeq t) ?batch (int a) n ?c = (True, int ?b, n + min 500 (length L - a), ?c\<lparr>cn_sent := cn_sent c @ map FEvent ?out\<rparr>)"
      using send_batch_ok [OF ok(2), where target = "t_EventSeq t" and evs = ?batch] tw ne(2) last by (simp add: Let_def min.commute)
    have step: "replay_events h (t_ID t) (t_EventSeq t) (int a) n c =
        replay_events h (t_ID t) (t_EventSeq t) (int ?b) (n + min 500 (length L - a)) (?c\<lparr>cn_sent := cn_sent c @ map FEvent ?out\<rparr>)"
      by (subst replay_events.simps) (simp only: T batch sb [unfolded T] ne sum.case prod.case if_True if_False simp_thms of_nat_less_iff a)
    obtain k where "replay_events h (t_ID t) (t_EventSeq t) (int ?b) (n + min 500 (length L - a)) (?c\<lparr>cn_sent := cn_sent c @ map FEvent ?out\<rparr>) =
        Some (True, n + min 500 (length L - a) + (length L - ?b), c\<lparr>cn_reads := k, cn_sent := (cn_sent c @ map FEvent ?out) @ map FEvent (drop ?b L)\<rparr>)"
      using less.hyps [OF b(2,1), of "?c\<lparr>cn_sent := cn_sent c @ map FEvent ?out\<rparr>" "n + min 500 (length L - a)"] less.prems(2) by auto
    moreover have "?out @ drop ?b L = drop a L" using a by (metis append_take_drop_id drop_drop min.cobounded2 take_all_iff min_def add.commute length_drop nat_le_linear drop_all append_Nil2)
    ultimately show ?thesis using a step by (intro exI [of _ k]) (simp flip: map_append)
  qed
qed

section \<open>Properties\<close>

text \<open>
  C24. Subscribing to a task replays, for any sequence number to start from, exactly the events the
  ledger held after that number when the task was read: all of them, once each and in order,
  however the ledger grows meanwhile; then it is acknowledged with their number. In particular
  the replay always ends.
\<close>

theorem subscribe_replays_exactly:
  assumes "\<And>k. reachable (ss k) \<and> step\<^sup>*\<^sup>* (ss k) (ss (Suc k)) \<and> h_db h k = y_db (ss k) \<and> h_fails h k = None" "\<And>fs. h_sends h fs"
    and "mg_Op m = ''subscribe''" "mg_TaskID m = Some rid" "h_uuid h rid" "mg_FromSeq m = int a"
    and "t \<in> set (db_tasks (h_db h (cn_reads c)))" "t_ID t = rid"
  shows "\<exists>c'. command h m c = Some (True, c') \<and> rid \<in> set (cn_tasks c') \<and>
    (let L = task_events (h_db h (cn_reads c)) rid
     in cn_sent c' = cn_sent c @ map FEvent (drop a L) @ [FSubscribed rid (length L - a)])"
proof -
  let ?s = "ss (cn_reads c)" and ?L = "task_events (h_db h (cn_reads c)) rid"
  have db: "h_db h (cn_reads c) = y_db ?s" and re: "reachable ?s" using assms(1) by auto
  have t: "t \<in> set (db_tasks (y_db ?s))" using assms(7) db by simp
  have steps: "step\<^sup>*\<^sup>* ?s (ss (cn_reads c + n))" for n
    by (induction n) (use assms(1) in \<open>auto intro: rtranclp_trans\<close>)
  have later: "step\<^sup>*\<^sup>* ?s (ss k) \<and> h_db h k = y_db (ss k)" if "cn_reads c \<le> k" for k
    using steps [of "k - cn_reads c"] assms(1) that by simp
  have T: "t_EventSeq t = int (length ?L)" using task_events_numbered(2) [OF re t] assms(8) db by simp
  have task: "Reader_Task (h_db h (cn_reads c)) rid = Inr t"
    using GetTask_of [OF reachable_shape [OF re] t] assms(8) db by (simp add: Reader_Task_def)
  let ?c = "c\<lparr>cn_e := False, cn_reads := cn_reads c + 1, cn_tasks := rid # cn_tasks c\<rparr>"
  have "\<exists>k. replay_events h rid (t_EventSeq t) (int a) 0 ?c =
      Some (True, length ?L - a, ?c\<lparr>cn_reads := k, cn_sent := cn_sent c @ map FEvent (drop a ?L)\<rparr>)"
  proof (cases "a \<le> length ?L")
    case True
    have "cn_reads c \<le> cn_reads ?c" by simp
    from replay_exact [OF re t later _ assms(2) _ _ this, of ?L a 0] True db assms(1,8) show ?thesis by auto
  next
    case False
    then show ?thesis by (subst replay_events.simps) (simp add: T, rule exI [of _ "cn_reads c + 1"], simp)
  qed
  then obtain k where "replay_events h rid (t_EventSeq t) (int a) 0 ?c =
      Some (True, length ?L - a, ?c\<lparr>cn_reads := k, cn_sent := cn_sent c @ map FEvent (drop a ?L)\<rparr>)" by blast
  then show ?thesis
    using assms(1,3-6) task by (simp add: command_def subscribe_task_def reply_def send_ok [OF assms(2)] Let_def)
qed

definition still :: "db \<Rightarrow> hub_world" where
  "still d = \<lparr>h_db = (\<lambda>_. d), h_fails = (\<lambda>_. None), h_sends = (\<lambda>_. True), h_uuid = (\<lambda>u. u \<noteq> ''bad'')\<rparr>"

theorem subscribe_replays_exactly_witness:
  "\<exists>c'. command (still d4) \<lparr>mg_Op = ''subscribe'', mg_TaskID = Some ''t'', mg_FromSeq = 1\<rparr> opened_conn = Some (True, c') \<and>
     cn_sent c' = map FEvent (drop 1 (task_events d4 ''t'')) @ [FSubscribed ''t'' (length (task_events d4 ''t'') - 1)]"
proof -
  obtain s where s: "reachable s" "y_db s = d4" using at_d4 unfolding at_def by blast
  have all: "reachable s \<and> step\<^sup>*\<^sup>* s s \<and> h_db (still d4) k = y_db s \<and> h_fails (still d4) k = None" for k
    using s by (simp add: still_def)
  have sends: "h_sends (still d4) fs" for fs by (simp add: still_def)
  let ?m = "\<lparr>mg_Op = ''subscribe'', mg_TaskID = Some ''t'', mg_FromSeq = 1\<rparr>"
  have t: "demo_task ''running'' 1 2 \<in> set (db_tasks (h_db (still d4) (cn_reads opened_conn)))" by (simp add: still_def d4)
  have "t_ID (demo_task ''running'' 1 2) = ''t''" by (simp add: demo_defs)
  from subscribe_replays_exactly [where ss = "\<lambda>_. s" and m = ?m and a = 1, OF all sends _ _ _ _ t this]
  show ?thesis by (auto simp: still_def opened_conn_def Let_def)
qed

text \<open>
  A bad request poisons the connection: after a command with a malformed task identifier has been
  answered, the next command \<open>unsubscribe\<close> without a task ends the connection, although the same
  command is harmless on a fresh connection.
\<close>

theorem bad_request_poisons:
  assumes "\<And>fs. h_sends h fs" "\<not> h_uuid h bad"
  shows "serve h [Command \<lparr>mg_Op = op, mg_TaskID = Some bad, mg_FromSeq = 0\<rparr>, Command \<lparr>mg_Op = ''unsubscribe'', mg_TaskID = None, mg_FromSeq = 0\<rparr>] opened_conn
      = Some (False, opened_conn\<lparr>cn_sent := [FReply ''error'' ''BAD_REQUEST''], cn_e := True\<rparr>) \<and>
    serve h [Command \<lparr>mg_Op = ''unsubscribe'', mg_TaskID = None, mg_FromSeq = 0\<rparr>] opened_conn = Some (True, opened_conn)"
  using assms(2) by (simp add: command_def opened_conn_def send_ok [OF assms(1)])

theorem bad_request_poisons_witness:
  "fst (the (serve (still empty_db) [Command \<lparr>mg_Op = ''ping'', mg_TaskID = Some ''bad'', mg_FromSeq = 0\<rparr>,
      Command \<lparr>mg_Op = ''unsubscribe'', mg_TaskID = None, mg_FromSeq = 0\<rparr>] opened_conn)) = False"
  using bad_request_poisons [of "still empty_db" "''bad''" "''ping''"] by (simp add: still_def)

end
