(* ===== verification/Http_Api.thy ===== *)
theory Http_Api
  imports Scenario
begin

text \<open>
  Who may call the API and how a request reaches a service: \<open>internal/auth/auth.go\<close>,
  \<open>internal/httpapi\<close> and the checks of \<open>internal/config/config.go\<close>. The JWT library and the hash are
  parameters; times count nanoseconds, the dates of a token seconds. The framework that decodes
  requests is not modelled: a handler takes the decoded query, header and body.
\<close>

section \<open>Configuration\<close>

record Config =
  cf_RecoveryInterval :: int
  cf_TestTimeout :: int
  cf_AuthDisabled :: bool
  cf_AdminPassword :: string
  cf_JWTSecret :: string
  cf_JWTTTL :: int

definition Load :: "Config result \<Rightarrow> Config result" where
  "Load parsed = bindR parsed (\<lambda>c.
     if cf_RecoveryInterval c \<le> 0 \<or> cf_TestTimeout c \<le> 0 then Inl (Errorf ''recovery interval and test timeout must be positive'')
     else if \<not> cf_AuthDisabled c \<and> (cf_AdminPassword c = [] \<or> length (cf_JWTSecret c) < 32 \<or> cf_JWTTTL c \<le> 0)
       then Inl (Errorf ''set DEVSQUAD_ADMIN_PASSWORD, DEVSQUAD_JWT_SECRET (32+ characters) and a positive DEVSQUAD_JWT_TTL, or DEVSQUAD_AUTH_DISABLED=true for local development'')
     else Inr c)"

section \<open>Authentication\<close>

record Authenticator =
  au_Password :: string
  au_Secret :: string
  au_TTL :: int

record claims =
  cm_Subject :: string
  cm_Issuer :: string
  cm_IssuedAt :: int
  cm_ExpiresAt :: int

record jwt =
  j_hash :: "string \<Rightarrow> string"
  j_sign :: "claims \<Rightarrow> string \<Rightarrow> string result"
  j_parse :: "string \<Rightarrow> string \<Rightarrow> int \<Rightarrow> string \<Rightarrow> claims result"

definition Subject :: string where
  "Subject = ''admin''"

definition Issuer :: string where
  "Issuer = ''devsquad''"

abbreviation second :: int where
  "second \<equiv> 1000000000"

definition ErrBadPassword :: err where
  "ErrBadPassword = Errorf ''invalid password''"

definition Login :: "jwt \<Rightarrow> Authenticator \<Rightarrow> int \<Rightarrow> string \<Rightarrow> (string \<times> int) result" where
  "Login j a clock password =
     (if au_Password a = [] \<or> j_hash j (au_Password a) \<noteq> j_hash j password then Inl ErrBadPassword
      else let now = clock div second * second; expires = now + au_TTL a
           in bindR (j_sign j \<lparr>cm_Subject = Subject, cm_Issuer = Issuer, cm_IssuedAt = now div second, cm_ExpiresAt = expires div second\<rparr> (au_Secret a))
                (\<lambda>token. Inr (token, expires)))"

definition Verify :: "jwt \<Rightarrow> Authenticator \<Rightarrow> int \<Rightarrow> string \<Rightarrow> string result" where
  "Verify j a clock token =
     bindR (j_parse j (au_Secret a) Issuer clock token) (\<lambda>cl.
       if cm_Subject cl \<noteq> Subject then Inl (Errorf ''unknown subject'') else Inr (cm_Subject cl))"

record http_request =
  hq_Path :: string
  hq_Authorization :: string
  hq_Cookie :: "string option"
  hq_QueryToken :: string
  hq_User :: string

definition public_paths :: "string list" where
  "public_paths = [''/api/v1/health'', ''/api/v1/auth/login'', ''/api/v1/auth/logout'']"

definition protected :: "string \<Rightarrow> bool" where
  "protected path \<longleftrightarrow> path = ''/ws'' \<or> HasPrefix path ''/api/'' \<and> path \<notin> set public_paths"

definition bearer :: "http_request \<Rightarrow> string" where
  "bearer r =
     (if HasPrefix (hq_Authorization r) ''Bearer '' then drop 7 (hq_Authorization r)
      else case hq_Cookie r of
          Some v \<Rightarrow> v
        | None \<Rightarrow> if hq_Path r = ''/ws'' then hq_QueryToken r else [])"

definition unauthorized :: err where
  "unauthorized = Fault 401 ''UNAUTHORIZED'' ''authentication required''"

text \<open>The request is answered at once, or passed on with the user in its context.\<close>

definition Middleware :: "jwt \<Rightarrow> Authenticator \<Rightarrow> int \<Rightarrow> http_request \<Rightarrow> string option result" where
  "Middleware j a clock r =
     (case Verify j a clock (bearer r) of
        Inr user \<Rightarrow> Inr (Some user)
      | Inl _ \<Rightarrow> if protected (hq_Path r) then Inl unauthorized else Inr None)"

definition actor :: "string option \<Rightarrow> string \<Rightarrow> string" where
  "actor user header = (case user of Some u \<Rightarrow> u | None \<Rightarrow> header)"

record cookie =
  ck_Value :: string
  ck_MaxAge :: int
  ck_Secure :: bool

definition sessionCookie :: "string \<Rightarrow> string \<Rightarrow> int \<Rightarrow> cookie" where
  "sessionCookie value proto maxAge = \<lparr>ck_Value = value, ck_MaxAge = maxAge, ck_Secure = (proto = ''https'')\<rparr>"

definition auth_login :: "jwt \<Rightarrow> Authenticator \<Rightarrow> int \<Rightarrow> string \<Rightarrow> string \<Rightarrow> (cookie \<times> string \<times> string \<times> int) result" where
  "auth_login j a clock proto password =
     (case Login j a clock password of
        Inl _ \<Rightarrow> Inl (Fault 401 ''UNAUTHORIZED'' ''invalid password'')
      | Inr (token, expires) \<Rightarrow> Inr (sessionCookie token proto (au_TTL a div second), Subject, token, expires))"

definition auth_logout :: "string \<Rightarrow> cookie" where
  "auth_logout proto = sessionCookie [] proto (-1)"

definition me :: "string option \<Rightarrow> string \<Rightarrow> string \<times> bool" where
  "me user header = (case user of Some u \<Rightarrow> (u, True) | None \<Rightarrow> (header, False))"

section \<open>Handlers\<close>

text \<open>\<open>NoRoute\<close> is the answer of the mux to a path nobody has registered.\<close>

datatype 'a answer = Answer int 'a | Refused int string string | NoRoute

text \<open>\<open>register\<close>: a domain error anywhere in the chain is the answer, anything else becomes an internal error.\<close>

definition register :: "int \<Rightarrow> 'a result \<Rightarrow> 'a answer" where
  "register status r = (case r of
       Inr v \<Rightarrow> Answer status v
     | Inl e \<Rightarrow> (case find (\<lambda>x. case x of Fault _ _ _ \<Rightarrow> True | _ \<Rightarrow> False) (unwrap_chain e) of
           Some (Fault s code message) \<Rightarrow> Refused s code message
         | _ \<Rightarrow> Refused 500 ''INTERNAL_ERROR'' ''internal server error''))"

definition NewError :: "int \<Rightarrow> string \<Rightarrow> err" where
  "NewError status message = Fault (if status = 422 then 400 else status) ''BAD_REQUEST'' message"

record TasksQuery =
  tq_Project :: string
  tq_LegacyProject :: string
  tq_Status :: "string list"

datatype task_action = Pause | Resume | Cancel

fun action_name :: "task_action \<Rightarrow> string" where
  "action_name Pause = ''pause''"
| "action_name Resume = ''resume''"
| "action_name Cancel = ''cancel''"

text \<open>The decoded calls of the API: path parameters, query, headers and body.\<close>

datatype api_call =
    ProjectsList | ProjectsGet string | ProjectsCreate CreateProjectRequest
  | TasksList TasksQuery | TasksGet string | TasksCreate CreateTaskRequest
  | TasksAction string task_action | TasksBudget string int | TasksEvents string int int int
  | ApprovalsList string | ApprovalsGet string | ApprovalsDecide string DecisionRequest | TasksApprovals string string
  | MeGet | AuthLogin string string | AuthLogout string | Health

datatype payload =
    PProjects "ProjectEntity list" | PProject ProjectEntity | PTasks "TaskResponse list" | PTask TaskResponse
  | PEvents EventPage | PApprovals "ApprovalDTO list" | PApproval ApprovalDTO | PDecided DecidedResponse
  | PMe string bool | PSession cookie string string int | PCookie cookie | PHealth

fun call_path :: "api_call \<Rightarrow> string" where
  "call_path ProjectsList = ''/api/v1/projects''"
| "call_path (ProjectsGet rid) = ''/api/v1/projects/'' @ rid"
| "call_path (ProjectsCreate _) = ''/api/v1/projects''"
| "call_path (TasksList _) = ''/api/v1/tasks''"
| "call_path (TasksGet rid) = ''/api/v1/tasks/'' @ rid"
| "call_path (TasksCreate _) = ''/api/v1/tasks''"
| "call_path (TasksAction rid action) = ''/api/v1/tasks/'' @ rid @ ''/'' @ action_name action"
| "call_path (TasksBudget rid _) = ''/api/v1/tasks/'' @ rid @ ''/budget''"
| "call_path (TasksEvents rid _ _ _) = ''/api/v1/tasks/'' @ rid @ ''/events''"
| "call_path (ApprovalsList _) = ''/api/v1/approvals''"
| "call_path (ApprovalsGet rid) = ''/api/v1/approvals/'' @ rid"
| "call_path (ApprovalsDecide rid _) = ''/api/v1/approvals/'' @ rid @ ''/decide''"
| "call_path (TasksApprovals rid _) = ''/api/v1/tasks/'' @ rid @ ''/approvals''"
| "call_path MeGet = ''/api/v1/me''"
| "call_path (AuthLogin _ _) = ''/api/v1/auth/login''"
| "call_path (AuthLogout _) = ''/api/v1/auth/logout''"
| "call_path Health = ''/api/v1/health''"

definition statuses_of :: "string list \<Rightarrow> string slice" where
  "statuses_of vs = (if vs = [] then None else Some (concat (map (\<lambda>v. Split v (CHR '','')) vs)))"

definition map_result :: "('a \<Rightarrow> 'b) \<Rightarrow> 'a result \<Rightarrow> 'b result" where
  "map_result f r = bindR r (\<lambda>v. Inr (f v))"

definition tasks_list :: "db \<Rightarrow> TasksQuery \<Rightarrow> TaskResponse list result" where
  "tasks_list db q =
     (let p = (if tq_Project q = [] then tq_LegacyProject q else tq_Project q)
      in FetchTasks db (if p = [] then None else Some p) (statuses_of (tq_Status q)))"

definition tasks_events :: "db \<Rightarrow> string \<Rightarrow> int \<Rightarrow> int \<Rightarrow> int \<Rightarrow> EventPage result" where
  "tasks_events db rid after legacy limit = FetchEvents db rid (if after = 0 then legacy else after) limit"

definition approvals_list :: "db \<Rightarrow> string \<Rightarrow> ApprovalDTO list result" where
  "approvals_list db status = FetchApprovals db None (Some status) True"

definition tasks_approvals :: "db \<Rightarrow> string \<Rightarrow> string \<Rightarrow> ApprovalDTO list result" where
  "tasks_approvals db rid status = FetchApprovals db (Some rid) (if TrimSpace status \<noteq> [] then Some status else None) False"

text \<open>
  What a handler works with: the database it may have read from before its transaction and the
  present one, the services, the clock, a fresh identifier, and the user the middleware found.
\<close>

record serving =
  sv_services :: services
  sv_env :: env
  sv_jwt :: jwt
  sv_authn :: "Authenticator option"
  sv_clock :: int
  sv_id :: string
  sv_ping :: "unit result"
  sv_before :: db

definition handle :: "serving \<Rightarrow> string option \<Rightarrow> string \<Rightarrow> api_call \<Rightarrow> db \<Rightarrow> payload answer \<times> db" where
  "handle v user header call d =
     (let env = sv_env v; d0 = sv_before v in case call of
        ProjectsList \<Rightarrow> (register 200 (Inr (PProjects (FetchProjects d))), d)
      | ProjectsGet rid \<Rightarrow> (register 200 (map_result PProject (FetchProject d rid)), d)
      | ProjectsCreate body \<Rightarrow> (let (r, d', _) = ProjectService_Create env d (sv_id v) body in (register 201 (map_result PProject r), d'))
      | TasksList q \<Rightarrow> (register 200 (map_result PTasks (tasks_list d q)), d)
      | TasksGet rid \<Rightarrow> (register 200 (map_result PTask (FetchTask d rid)), d)
      | TasksCreate body \<Rightarrow> (let c = TaskService_Create (sv_services v) env d0 d (sv_id v) body (actor user header)
          in (register 201 (map_result PTask (cr_result c)), cr_db c))
      | TasksAction rid action \<Rightarrow> (let (r, d', _) = UpdateTask env d rid (action_name action) in (register 200 (map_result PTask r), d'))
      | TasksBudget rid budget \<Rightarrow> (let (r, d', _) = SetBudget env d rid budget in (register 200 (map_result PTask r), d'))
      | TasksEvents rid after legacy limit \<Rightarrow> (register 200 (map_result PEvents (tasks_events d rid after legacy limit)), d)
      | ApprovalsList status \<Rightarrow> (register 200 (map_result PApprovals (approvals_list d status)), d)
      | ApprovalsGet rid \<Rightarrow> (register 200 (map_result PApproval (FetchApproval d rid)), d)
      | ApprovalsDecide rid body \<Rightarrow> (let (r, d', _) = UpdateApproval env d0 d rid body (actor user header) in (register 200 (map_result PDecided r), d'))
      | TasksApprovals rid status \<Rightarrow> (register 200 (map_result PApprovals (tasks_approvals d rid status)), d)
      | MeGet \<Rightarrow> (register 200 (Inr (case me user header of (u, e) \<Rightarrow> PMe u e)), d)
      | AuthLogin proto password \<Rightarrow> (case sv_authn v of
            None \<Rightarrow> (NoRoute, d)
          | Some a \<Rightarrow> (register 200 (map_result (\<lambda>(c, u, tok, ex). PSession c u tok ex) (auth_login (sv_jwt v) a (sv_clock v) proto password)), d))
      | AuthLogout proto \<Rightarrow> (case sv_authn v of
            None \<Rightarrow> (NoRoute, d)
          | Some a \<Rightarrow> (Answer 204 (PCookie (auth_logout proto)), d))
      | Health \<Rightarrow> (register 200 (map_result (\<lambda>_. PHealth) (sv_ping v)), d))"

text \<open>The server: without an authenticator the handlers are reached directly.\<close>

definition Handler :: "serving \<Rightarrow> http_request \<Rightarrow> api_call \<Rightarrow> db \<Rightarrow> payload answer \<times> db" where
  "Handler v r call d =
     (case sv_authn v of
        None \<Rightarrow> handle v None (hq_User r) call d
      | Some a \<Rightarrow> (case Middleware (sv_jwt v) a (sv_clock v) r of
            Inl e \<Rightarrow> (register 401 (Inl e), d)
          | Inr user \<Rightarrow> handle v user (hq_User r) call d))"

definition open_call :: "api_call \<Rightarrow> bool" where
  "open_call call = (case call of AuthLogin _ _ \<Rightarrow> True | AuthLogout _ \<Rightarrow> True | Health \<Rightarrow> True | _ \<Rightarrow> False)"

section \<open>Laws\<close>

lemma Verify_Inr: "Verify j a clock token = Inr u \<Longrightarrow> u = Subject"
  by (auto simp: Verify_def bindR_eq_Inr split: if_splits)

lemma call_protected: "\<not> open_call call \<Longrightarrow> protected (call_path call)"
  by (cases call) (simp_all add: open_call_def protected_def public_paths_def HasPrefix_def)

lemma unauthorized_answer: "register 401 (Inl unauthorized) = Refused 401 ''UNAUTHORIZED'' ''authentication required''"
  by (simp add: register_def unauthorized_def)

text \<open>Every handler leaves the database alone or takes one step of the system.\<close>

lemma handle_step:
  assumes x: "real_loader (sv_services v)" and seen: "sv_before v \<in> set (y_seen s)" and d: "y_db s = d"
  shows "snd (handle v user header call d) = d \<or> step s (set_db (snd (handle v user header call d)) s)"
proof (cases call)
  case (ProjectsCreate body)
  have "step s (set_db (fst (snd (ProjectService_Create (sv_env v) d (sv_id v) body))) s)"
    by (rule step.create_project) (simp add: d prod_eq_iff)
  with ProjectsCreate show ?thesis by (simp add: handle_def Let_def case_prod_unfold)
next
  case (TasksCreate body)
  then show ?thesis using step.create_task [OF x seen] d by (simp add: handle_def Let_def)
next
  case (TasksAction rid action)
  have "step s (set_db (fst (snd (UpdateTask (sv_env v) d rid (action_name action)))) s)"
    by (rule step.update_task) (simp add: d prod_eq_iff)
  with TasksAction show ?thesis by (simp add: handle_def Let_def case_prod_unfold)
next
  case (TasksBudget rid budget)
  have "step s (set_db (fst (snd (SetBudget (sv_env v) d rid budget))) s)"
    by (rule step.set_budget) (simp add: d prod_eq_iff)
  with TasksBudget show ?thesis by (simp add: handle_def Let_def case_prod_unfold)
next
  case (ApprovalsDecide rid body)
  have "step s (set_db (fst (snd (UpdateApproval (sv_env v) (sv_before v) d rid body (actor user header)))) s)"
    by (rule step.update_approval [OF seen]) (simp add: d prod_eq_iff)
  with ApprovalsDecide show ?thesis by (simp add: handle_def Let_def case_prod_unfold)
qed (simp_all add: handle_def Let_def split: option.split)

text \<open>
  When the middleware passes a request on with a user, that user is the administrator, and what the header
  \<open>X-User\<close> says has no influence on what is stored.
\<close>

lemma header_ignored:
  assumes "Middleware j a clock r = Inr (Some u)"
  shows "handle v (Some u) header call d = handle v (Some Subject) header' call d"
  using assms Verify_Inr [of j a clock "bearer r" u]
  by (cases call) (auto simp: Middleware_def handle_def actor_def me_def Let_def split: sum.splits if_splits)

section \<open>Properties\<close>

text \<open>A library that writes key, expiry and subject one after the other.\<close>

definition plain_sign :: "claims \<Rightarrow> string \<Rightarrow> string result" where
  "plain_sign cl k = (if CHR 0x0A \<in> set k then Inl (Errorf ''bad key'')
     else Inr (k @ [CHR 0x0A] @ replicate (nat (cm_ExpiresAt cl)) (CHR ''x'') @ [CHR 0x0A] @ cm_Subject cl))"

definition plain_parse :: "string \<Rightarrow> string \<Rightarrow> int \<Rightarrow> string \<Rightarrow> claims result" where
  "plain_parse k iss clock tok =
     (let k' = takeWhile (\<lambda>c. c \<noteq> CHR 0x0A) tok; rest = drop (length k' + 1) tok;
          ex = takeWhile (\<lambda>c. c \<noteq> CHR 0x0A) rest; sub = drop (length ex + 1) rest
      in if k' = k \<and> clock < int (length ex) * second
         then Inr \<lparr>cm_Subject = sub, cm_Issuer = iss, cm_IssuedAt = 0, cm_ExpiresAt = int (length ex)\<rparr> else Inl (Errorf ''bad token''))"

definition plain_jwt :: jwt where
  "plain_jwt = \<lparr>j_hash = (\<lambda>p. p), j_sign = plain_sign, j_parse = plain_parse\<rparr>"

lemma plain_law:
  assumes "plain_sign cl k = Inr tok" "t < cm_ExpiresAt cl * second"
  shows "\<exists>cl'. plain_parse k iss t tok = Inr cl' \<and> cm_Subject cl' = cm_Subject cl"
proof -
  have k: "CHR 0x0A \<notin> set k" and tok: "tok = k @ CHR 0x0A # replicate (nat (cm_ExpiresAt cl)) (CHR ''x'') @ CHR 0x0A # cm_Subject cl"
    using assms(1) by (auto simp: plain_sign_def split: if_splits)
  have k': "takeWhile (\<lambda>c. c \<noteq> CHR 0x0A) tok = k" using k unfolding tok by (subst takeWhile_append2) auto
  have ex: "takeWhile (\<lambda>c. c \<noteq> CHR 0x0A) (replicate n (CHR ''x'') @ CHR 0x0A # r) = replicate n (CHR ''x'')" for n r
    by (subst takeWhile_append2) auto
  have "t < int (nat (cm_ExpiresAt cl)) * second" using assms(2) by (cases "0 \<le> cm_ExpiresAt cl") auto
  then show ?thesis unfolding plain_parse_def k' Let_def by (simp add: tok ex)
qed


definition demo_serving :: serving where
  "demo_serving = \<lparr>sv_services = demo_services, sv_env = demo_env ''C'', sv_jwt = plain_jwt,
     sv_authn = Some \<lparr>au_Password = ''pw'', au_Secret = ''k'', au_TTL = 60 * second\<rparr>, sv_clock = 0, sv_id = ''n'', sv_ping = Inr (), sv_before = d2\<rparr>"

definition demo_request :: "string \<Rightarrow> string \<Rightarrow> http_request" where
  "demo_request path token = \<lparr>hq_Path = path, hq_Authorization = ''Bearer '' @ token, hq_Cookie = None, hq_QueryToken = [], hq_User = ''mallory''\<rparr>"




text \<open>
  C27. A session works until it expires: a token handed out at login verifies as the administrator at every
  time before the whole second it expires in. The hypothesis is what the JWT library documents: it accepts
  what it signed with the same key, for the required issuer, before the expiry date.
\<close>

theorem login_verifies:
  assumes "Login j a clock password = Inr (token, expires)" "at_time < expires div second * second"
    and "\<And>cl k tok t. j_sign j cl k = Inr tok \<Longrightarrow> t < cm_ExpiresAt cl * second \<Longrightarrow> cm_Issuer cl = Issuer \<Longrightarrow>
      \<exists>cl'. j_parse j k Issuer t tok = Inr cl' \<and> cm_Subject cl' = cm_Subject cl"
  shows "Verify j a at_time token = Inr Subject"
proof -
  let ?now = "clock div second * second"
  let ?cl = "\<lparr>cm_Subject = Subject, cm_Issuer = Issuer, cm_IssuedAt = ?now div second, cm_ExpiresAt = expires div second\<rparr>"
  have s: "j_sign j ?cl (au_Secret a) = Inr token"
    using assms(1) by (auto simp: Login_def Let_def bindR_eq_Inr split: if_splits)
  obtain cl' where "j_parse j (au_Secret a) Issuer at_time token = Inr cl'" "cm_Subject cl' = Subject"
    using assms(3) [OF s] assms(2) by auto
  then show ?thesis by (simp add: Verify_def)
qed

theorem login_verifies_witness:
  "\<exists>token. Login plain_jwt \<lparr>au_Password = ''pw'', au_Secret = ''k'', au_TTL = 60 * second\<rparr> 5 ''pw'' = Inr (token, 60 * second) \<and>
     Verify plain_jwt \<lparr>au_Password = ''pw'', au_Secret = ''k'', au_TTL = 60 * second\<rparr> (59 * second) token = Inr ''admin''"
proof -
  let ?a = "\<lparr>au_Password = ''pw'', au_Secret = ''k'', au_TTL = 60 * second\<rparr>"
  obtain token where l: "Login plain_jwt ?a 5 ''pw'' = Inr (token, 60 * second)"
    by (simp add: Login_def plain_jwt_def plain_sign_def)
  have "Verify plain_jwt ?a (59 * second) token = Inr Subject"
    by (rule login_verifies [OF l]) (use plain_law in \<open>auto simp: plain_jwt_def\<close>)
  with l show ?thesis by (simp add: Subject_def)
qed

end
