(* ===== verification/Workspace_Git.thy ===== *)
theory Workspace_Git
  imports Stage_Runner
begin

text \<open>
  The workspace of a task (\<open>internal/workspace/git.go\<close>): resetting the files a stage owns, checkpointing
  an approved stage, building and pushing branches, the stored definition, and the removal of orphaned
  directories. The file system is the tree of \<open>File_System\<close>. The \<open>git\<close> executable is a parameter, a
  function of its arguments, environment, input, directory and the tree, which holds the repository too;
  theorems that rely on it state its documented behaviour. Directories are the resolved absolute paths
  that preparing a workspace returns. The mutex of \<open>Manager\<close> makes each operation one step.
\<close>

section \<open>Operations on the tree\<close>

type_synonym 'a fsm = "node \<Rightarrow> 'a result \<times> node"

definition retF :: "'a \<Rightarrow> 'a fsm" where
  "retF v fs = (Inr v, fs)"

definition bindF :: "'a fsm \<Rightarrow> ('a \<Rightarrow> 'b fsm) \<Rightarrow> 'b fsm" where
  "bindF m f fs = (case m fs of (Inl e, fs') \<Rightarrow> (Inl e, fs') | (Inr v, fs') \<Rightarrow> f v fs')"

definition askF :: "(node \<Rightarrow> 'a result) \<Rightarrow> 'a fsm" where
  "askF f fs = (f fs, fs)"

fun eachF :: "('a \<Rightarrow> unit fsm) \<Rightarrow> 'a list \<Rightarrow> unit fsm" where
  "eachF f [] = retF ()"
| "eachF f (x # xs) = bindF (f x) (\<lambda>_. eachF f xs)"

definition is_dir :: "node \<Rightarrow> bool" where
  "is_dir n = (case n of Dir _ \<Rightarrow> True | _ \<Rightarrow> False)"

text \<open>The tree without what a path names.\<close>

fun del :: "node \<Rightarrow> string list \<Rightarrow> node" where
  "del n [] = n"
| "del (Dir es) (p # ps) =
     Dir (if ps = [] then filter (\<lambda>(q, _). q \<noteq> p) es else map (\<lambda>(q, m). (q, if q = p then del m ps else m)) es)"
| "del n (p # ps) = n"

text \<open>\<open>Root.Remove\<close>: the parent is looked up below the root, the entry itself is not followed.\<close>

definition root_remove :: "node \<Rightarrow> string list \<Rightarrow> string \<Rightarrow> node result" where
  "root_remove fs base name =
     bindR (root_path fs base False (Dir_path name)) (\<lambda>d.
     let q = d @ [last (Split name slash)] in
     bindR (Lstat fs q) (\<lambda>n. case n of
         Dir (e # es) \<Rightarrow> Inl (Errorf ''directory not empty'')
       | _ \<Rightarrow> Inr (del fs q)))"

text \<open>\<open>os.MkdirAll\<close>, \<open>os.WriteFile\<close> and \<open>os.ReadFile\<close> of absolute paths.\<close>

function MkdirAll :: "string list \<Rightarrow> unit fsm" where
  "MkdirAll ps fs =
     (case EvalSymlinks fs ps of
        Inr q \<Rightarrow> (case Lstat fs q of Inr (Dir _) \<Rightarrow> (Inr (), fs) | _ \<Rightarrow> (Inl (Errorf ''not a directory''), fs))
      | Inl e \<Rightarrow>
          if ps = [] then (Inl e, fs)
          else case MkdirAll (butlast ps) fs of
              (Inl e', fs') \<Rightarrow> (Inl e', fs')
            | (Inr _, fs') \<Rightarrow>
                (case EvalSymlinks fs' (butlast ps) of
                   Inl e' \<Rightarrow> (Inl e', fs')
                 | Inr d \<Rightarrow> (case Lstat fs' (d @ [last ps]) of
                       Inr (Dir _) \<Rightarrow> (Inr (), fs')
                     | Inr _ \<Rightarrow> (Inl (Errorf ''file exists''), fs')
                     | Inl _ \<Rightarrow> (Inr (), put fs' (d @ [last ps]) (Dir [])))))"
  by pat_completeness auto
termination
  by (relation "measure (\<lambda>(ps, fs). length ps)") auto

declare MkdirAll.simps [simp del]

definition WriteFile :: "string list \<Rightarrow> string \<Rightarrow> unit fsm" where
  "WriteFile ps content fs =
     (case follow None True 255 fs [] ps of
        Inl e \<Rightarrow> (Inl e, fs)
      | Inr q \<Rightarrow> (case Lstat fs q of
            Inr (Dir _) \<Rightarrow> (Inl (Errorf ''is a directory''), fs)
          | _ \<Rightarrow> (Inr (), put fs q (Reg content))))"

definition ReadFile_abs :: "string list \<Rightarrow> string fsm" where
  "ReadFile_abs ps = askF (\<lambda>fs. bindR (EvalSymlinks fs ps) (\<lambda>q. bindR (Lstat fs q) (\<lambda>n. case n of
     Reg content \<Rightarrow> Inr content | _ \<Rightarrow> Inl (Errorf ''is a directory''))))"

section \<open>Running git\<close>

text \<open>Arguments, environment, input and directory; the error, the combined output and the tree left behind.\<close>

type_synonym process = "string list \<Rightarrow> string list \<Rightarrow> string \<Rightarrow> string \<Rightarrow> node \<Rightarrow> err option \<times> string \<times> node"

definition baseRef :: string where
  "baseRef = ''refs/devsquad/base''"

definition git_config :: "string list" where
  "git_config = [''-c'', ''user.name=DevSquad'', ''-c'', ''user.email=devsquad@localhost'', ''-c'', ''core.hooksPath=/dev/null'',
     ''-c'', ''commit.gpgsign=false'']"

definition git_environ :: "string list" where
  "git_environ = [''GIT_CONFIG_NOSYSTEM=1'', ''GIT_CONFIG_GLOBAL=/dev/null'', ''GIT_LITERAL_PATHSPECS=1'', ''GIT_TERMINAL_PROMPT=0'']"

definition TrimSuffix :: "string \<Rightarrow> string \<Rightarrow> string" where
  "TrimSuffix s suf = (if suffix suf s then take (length s - length suf) s else s)"

text \<open>Nothing looks into the error of the process, so that it is part of the text here.\<close>

definition gitEnv :: "process \<Rightarrow> string \<Rightarrow> string list \<Rightarrow> string \<Rightarrow> string list \<Rightarrow> string fsm" where
  "gitEnv run dir env stdin args fs =
     (case run (git_config @ args) (git_environ @ env) stdin dir fs of
        (Some e, out, fs') \<Rightarrow> (Inl (Errorf (''workspace git '' @ hd args @ '': '' @ error_text e @ '': '' @ TrimSpace out)), fs')
      | (None, out, fs') \<Rightarrow> (Inr (TrimSuffix out [CHR 0x0A]), fs'))"

definition git :: "process \<Rightarrow> string \<Rightarrow> string list \<Rightarrow> string fsm" where
  "git run dir args = gitEnv run dir [] [] args"

definition auth_env :: "string \<Rightarrow> string list" where
  "auth_env header = (if header = [] then []
     else [''GIT_CONFIG_COUNT=1'', ''GIT_CONFIG_KEY_0=http.extraHeader'', ''GIT_CONFIG_VALUE_0='' @ header])"

definition initGit :: "process \<Rightarrow> string \<Rightarrow> unit fsm" where
  "initGit run dir = eachF (\<lambda>args. bindF (git run dir args) (\<lambda>_. retF ()))
     [[''init'', ''--quiet''], [''add'', ''--force'', ''--'', ''.''],
      [''commit'', ''--quiet'', ''--allow-empty'', ''-m'', ''Workspace baseline''], [''update-ref'', baseRef, ''HEAD'']]"

section \<open>The stored definition\<close>

definition runtime_dir :: "string \<Rightarrow> string list" where
  "runtime_dir dir = path_parts dir @ [''.devsquad-runtime'']"

definition SaveDefinition :: "(Definition \<Rightarrow> string result) \<Rightarrow> string \<Rightarrow> Definition \<Rightarrow> unit fsm" where
  "SaveDefinition marshal dir d =
     bindF (askF (\<lambda>_. marshal d)) (\<lambda>b.
     bindF (MkdirAll (runtime_dir dir)) (\<lambda>_.
     WriteFile (runtime_dir dir @ [''definition.json'']) b))"

definition LoadDefinition_file :: "(string \<Rightarrow> Definition result) \<Rightarrow> string \<Rightarrow> Definition fsm" where
  "LoadDefinition_file unmarshal dir =
     bindF (ReadFile_abs (runtime_dir dir @ [''definition.json''])) (\<lambda>b.
     bindF (askF (\<lambda>_. unmarshal b)) (\<lambda>d. retF (d\<lparr>df_Workspace := dir\<rparr>)))"

section \<open>The files of a stage\<close>

definition owned :: "(string \<Rightarrow> string \<Rightarrow> bool) \<Rightarrow> string \<Rightarrow> string list \<Rightarrow> bool" where
  "owned G name patterns \<longleftrightarrow> \<not> Protected name \<and> list_ex (\<lambda>p. G name p) patterns"

text \<open>The walk of \<open>files\<close>; \<open>ps\<close> are the parts of the name relative to the directory.\<close>

definition rel_name :: "string list \<Rightarrow> string" where
  "rel_name ps = (if ps = [] then ''.'' else Join ps ''/'')"

fun walk_owned :: "(string \<Rightarrow> bool) \<Rightarrow> string list \<Rightarrow> node \<Rightarrow> string list"
  and owned_entries :: "(string \<Rightarrow> bool) \<Rightarrow> string list \<Rightarrow> (string \<times> node) list \<Rightarrow> string list" where
  "walk_owned P ps n =
     (if Protected (rel_name ps) then []
      else case n of Dir es \<Rightarrow> owned_entries P ps es | _ \<Rightarrow> if P (rel_name ps) then [rel_name ps] else [])"
| "owned_entries P ps [] = []"
| "owned_entries P ps ((name, n) # es) = walk_owned P (ps @ [name]) n @ owned_entries P ps es"

definition nul :: char where
  "nul = CHR 0x00"

definition ls_tree :: "string list" where
  "ls_tree = [''ls-tree'', ''-r'', ''--name-only'', ''-z'', ''HEAD'']"

definition files :: "process \<Rightarrow> (string \<Rightarrow> string \<Rightarrow> bool) \<Rightarrow> string \<Rightarrow> string list \<Rightarrow> (string list \<times> string list) fsm" where
  "files run G dir patterns =
     bindF (git run dir ls_tree) (\<lambda>tracked.
     let base = filter (\<lambda>p. p \<noteq> [] \<and> owned G p patterns) (Split tracked nul) in
     bindF (askF (\<lambda>fs. Lstat fs (path_parts dir))) (\<lambda>n.
     retF (sort (remdups (base @ walk_owned (\<lambda>p. owned G p patterns) [] n)), base)))"

definition restore_args :: "string \<Rightarrow> string list" where
  "restore_args p = [''restore'', ''--source=HEAD'', ''--staged'', ''--worktree'', ''--'', p]"

text \<open>One round of the loop of \<open>Reset\<close>; \<open>root\<close> is the open directory.\<close>

definition reset_path :: "process \<Rightarrow> string \<Rightarrow> string list \<Rightarrow> string list \<Rightarrow> string \<Rightarrow> unit fsm" where
  "reset_path run dir root base p =
     bindF (askF (\<lambda>fs. bindR (Lstat fs root) (\<lambda>n. NoSymlinks n (Dir_path p)))) (\<lambda>_.
     if p \<in> set base then bindF (git run dir (restore_args p)) (\<lambda>_. retF ())
     else (\<lambda>fs. case root_remove fs root p of
         Inl e \<Rightarrow> (if e = ErrNotExist then Inr () else Inl e, fs)
       | Inr fs' \<Rightarrow> (Inr (), fs')))"

definition Reset :: "process \<Rightarrow> (string \<Rightarrow> string \<Rightarrow> bool) \<Rightarrow> string \<Rightarrow> string list \<Rightarrow> unit fsm" where
  "Reset run G dir patterns =
     bindF (files run G dir patterns) (\<lambda>(names, base).
     bindF (askF (\<lambda>fs. bindR (OpenRoot fs dir) (\<lambda>_. EvalSymlinks fs (path_parts dir)))) (\<lambda>root.
     eachF (reset_path run dir root base) names))"

section \<open>Checkpoints and branches\<close>

definition approved_ref :: "string \<Rightarrow> string" where
  "approved_ref key = ''refs/devsquad/approved/'' @ key"

definition add_args :: "string list \<Rightarrow> string list" where
  "add_args names = [''add'', ''-A'', ''--force'', ''--''] @ names"

definition commit_args :: "string \<Rightarrow> string list" where
  "commit_args key = [''commit'', ''--quiet'', ''--allow-empty'', ''-m'', ''Approve '' @ key]"

definition update_args :: "string \<Rightarrow> string list" where
  "update_args key = [''update-ref'', approved_ref key, ''HEAD'']"

definition verify_args :: "string \<Rightarrow> string list" where
  "verify_args key = [''rev-parse'', ''--verify'', approved_ref key]"

definition Accept :: "process \<Rightarrow> (string \<Rightarrow> string \<Rightarrow> bool) \<Rightarrow> string \<Rightarrow> string \<Rightarrow> string list \<Rightarrow> unit fsm" where
  "Accept run G dir key patterns fs =
     (case git run dir (verify_args key) fs of
        (Inr _, fs') \<Rightarrow> (Inr (), fs')
      | (Inl _, fs') \<Rightarrow>
          bindF (files run G dir patterns) (\<lambda>(names, _).
          bindF (if names = [] then retF [] else git run dir (add_args names)) (\<lambda>_.
          bindF (git run dir (commit_args key)) (\<lambda>_.
          bindF (git run dir (update_args key)) (\<lambda>_. retF ())))) fs')"

text \<open>The entries that \<open>ls-tree\<close> lists, the last one of a path first.\<close>

definition tree_entries :: "string \<Rightarrow> (string \<times> string) list" where
  "tree_entries listed = rev (List.map_filter (\<lambda>line. map_option (\<lambda>(meta, path). (path, meta)) (Cut line [CHR 0x09])) (Split listed nul))"

definition Fields :: "string \<Rightarrow> string list" where
  "Fields s = filter (\<lambda>f. f \<noteq> []) (Split s (CHR '' ''))"

text \<open>A zero mode removes the path from the index. Too few fields are an index out of range.\<close>

definition index_line :: "(string \<times> string) list \<Rightarrow> string \<Rightarrow> string result" where
  "index_line entries p =
     (case map_of entries p of
        Some meta \<Rightarrow> let f = Fields meta in
          if length f < 3 then Inl (Errorf ''runtime error: index out of range'') else Inr (f ! 0 @ '' '' @ f ! 2 @ [CHR 0x09] @ p @ [nl])
      | None \<Rightarrow> Inr (''0 0000000000000000000000000000000000000000'' @ [CHR 0x09] @ p @ [nl]))"

fun index_info :: "(string \<times> string) list \<Rightarrow> string list \<Rightarrow> string result" where
  "index_info entries [] = Inr []"
| "index_info entries (p # ps) = bindR (index_line entries p) (\<lambda>l. bindR (index_info entries ps) (\<lambda>ls. Inr (l @ ls)))"

definition changed_names :: "(string \<Rightarrow> string \<Rightarrow> bool) \<Rightarrow> string list option \<Rightarrow> string \<Rightarrow> string list" where
  "changed_names G patterns diff = filter (\<lambda>p. p \<noteq> [] \<and> (case patterns of None \<Rightarrow> True | Some ps \<Rightarrow> owned G p ps)) (Split diff nul)"

text \<open>\<open>tmp\<close> is the name of the temporary index.\<close>

definition BranchCommit :: "process \<Rightarrow> (string \<Rightarrow> string \<Rightarrow> bool) \<Rightarrow> string result \<Rightarrow> string \<Rightarrow> string \<Rightarrow> string list option \<Rightarrow> string
    \<Rightarrow> (string \<times> bool) fsm" where
  "BranchCommit run G tmp dir source patterns msg =
     bindF (git run dir [''diff'', ''--name-only'', ''-z'', ''--no-renames'', baseRef, source]) (\<lambda>diff.
     let names = changed_names G patterns diff in
     if names = [] then retF ([], False)
     else bindF (git run dir ([''ls-tree'', ''-z'', source, ''--''] @ names)) (\<lambda>listed.
     bindF (askF (\<lambda>_. index_info (tree_entries listed) names)) (\<lambda>info.
     bindF (askF (\<lambda>_. tmp)) (\<lambda>index.
     let env = [''GIT_INDEX_FILE='' @ index] in
     bindF (gitEnv run dir env [] [''read-tree'', baseRef]) (\<lambda>_.
     bindF (gitEnv run dir env info [''update-index'', ''--index-info'']) (\<lambda>_.
     bindF (gitEnv run dir env [] [''write-tree'']) (\<lambda>tree.
     bindF (git run dir [''log'', ''-1'', ''--format=%cI'', source]) (\<lambda>date.
     bindF (gitEnv run dir [''GIT_AUTHOR_DATE='' @ date, ''GIT_COMMITTER_DATE='' @ date] [] [''commit-tree'', tree, ''-p'', baseRef, ''-m'', msg])
       (\<lambda>sha. retF (sha, True))))))))))"

definition ErrNoRemote :: err where
  "ErrNoRemote = Errorf ''workspace has no remote repository''"

definition Push :: "process \<Rightarrow> string \<Rightarrow> string \<Rightarrow> string \<Rightarrow> string \<Rightarrow> unit fsm" where
  "Push run dir sha name header fs =
     (case git run dir [''remote'', ''get-url'', ''origin''] fs of
        (Inl _, fs') \<Rightarrow> (Inl ErrNoRemote, fs')
      | (Inr _, fs') \<Rightarrow> bindF (gitEnv run dir (auth_env header) [] [''push'', ''--quiet'', ''--force'', ''origin'', sha @ '':refs/heads/'' @ name])
          (\<lambda>_. retF ()) fs')"

section \<open>Removing orphaned directories\<close>

text \<open>\<open>info\<close> gives the time an entry was last modified; times count nanoseconds.\<close>

definition hour :: int where
  "hour = 3600000000000"

definition clean_entry :: "(string \<Rightarrow> bool) \<Rightarrow> (string \<Rightarrow> int result) \<Rightarrow> string list \<Rightarrow> string list \<Rightarrow> int \<Rightarrow> string \<times> node \<Rightarrow> unit fsm" where
  "clean_entry uuid_ok info root known now = (\<lambda>(name, n).
     if \<not> is_dir n \<or> name \<in> set known then retF ()
     else if \<not> uuid_ok name \<and> \<not> HasPrefix name ''.preparing-'' then retF ()
     else bindF (askF (\<lambda>_. info name)) (\<lambda>modified.
       if now - modified < hour then retF () else (\<lambda>fs. (Inr (), del fs (root @ [name])))))"

definition Cleanup :: "(string \<Rightarrow> bool) \<Rightarrow> (string \<Rightarrow> int result) \<Rightarrow> string list \<Rightarrow> string list \<Rightarrow> int \<Rightarrow> unit fsm" where
  "Cleanup uuid_ok info root known now fs =
     (case Lstat fs root of
        Inl e \<Rightarrow> (if e = ErrNotExist then Inr () else Inl e, fs)
      | Inr (Dir es) \<Rightarrow> eachF (clean_entry uuid_ok info root known now) es fs
      | Inr _ \<Rightarrow> (Inl (Errorf ''not a directory''), fs))"

section \<open>Lemmas on the tree\<close>

lemma is_dir_simps [simp]: "is_dir (Dir es)" "\<not> is_dir (Reg c)" "\<not> is_dir (Lnk l)"
  by (simp_all add: is_dir_def)

lemma is_dirE: "is_dir n \<Longrightarrow> (\<And>es. n = Dir es \<Longrightarrow> P) \<Longrightarrow> P"
  by (cases n) auto

lemma map_of_filter_other: "map_of (filter (\<lambda>(q, _). q \<noteq> p) es) x = (if x = p then None else map_of es x)"
  by (induction es) auto

lemma map_of_update: "map_of (map (\<lambda>(q, m). (q, if q = p then f m else m)) es) x = (if x = p then map_option f (map_of es x) else map_of es x)"
  by (induction es) auto

lemma Lstat_put_parallel: "parallel q ps \<Longrightarrow> Lstat (put fs ps n) q = Lstat fs q"
proof (induction fs ps n arbitrary: q rule: put.induct)
  case (2 es p ps n)
  obtain x xs where q: "q = x # xs" using "2.prems" by (cases q) (auto simp: parallel_def)
  show ?case
  proof (cases "x = p")
    case True
    then have par: "parallel xs ps" using "2.prems" q by (auto simp: parallel_def)
    then have "ps \<noteq> []" by (auto simp: parallel_def)
    with 2 par q True show ?thesis by (auto split: option.splits)
  qed (auto simp: q split: option.splits)
qed (auto simp: parallel_def)

lemma Lstat_del_gone: "ps \<noteq> [] \<Longrightarrow> \<exists>e. Lstat (del fs ps) (ps @ qs) = Inl e"
proof (induction fs ps rule: del.induct)
  case (2 es p ps)
  show ?case
  proof (cases "ps = []")
    case False
    then show ?thesis using 2 by (cases "map_of es p") (auto simp: map_of_update dest: map_of_SomeD)
  qed (auto simp: map_of_filter_other)
qed auto

lemma Lstat_del_parallel: "parallel q ps \<Longrightarrow> Lstat (del fs ps) q = Lstat fs q"
proof (induction fs ps arbitrary: q rule: del.induct)
  case (2 es p ps)
  obtain x xs where q: "q = x # xs" using "2.prems" by (cases q) (auto simp: parallel_def)
  show ?case
  proof (cases "x = p")
    case True
    then have par: "parallel xs ps" using "2.prems" q by (auto simp: parallel_def)
    then have "ps \<noteq> []" by (auto simp: parallel_def)
    with 2 par q True show ?thesis by (auto simp: map_of_update split: option.splits dest: map_of_SomeD)
  qed (auto simp: q map_of_filter_other map_of_update)
qed (auto simp: parallel_def)

lemma Lstat_del_above: "strict_prefix q ps \<Longrightarrow> Lstat fs q = Inr (Dir es) \<Longrightarrow> \<exists>es'. Lstat (del fs ps) q = Inr (Dir es')"
proof (induction fs ps arbitrary: q rule: del.induct)
  case (2 des p ps)
  show ?case
  proof (cases q)
    case (Cons x xs)
    with "2.prems" have x: "x = p" "strict_prefix xs ps" by auto
    then have "ps \<noteq> []" by auto
    with 2 Cons x show ?thesis by (auto simp: map_of_update split: option.splits dest: map_of_SomeD)
  qed auto
qed auto

lemma Lstat_del_missing: "strict_prefix q ps \<Longrightarrow> Lstat fs q = Inl e \<Longrightarrow> \<exists>e'. Lstat (del fs ps) q = Inl e'"
proof (induction fs ps arbitrary: q rule: del.induct)
  case (2 des p ps)
  show ?case
  proof (cases q)
    case (Cons x xs)
    with "2.prems" have x: "x = p" "strict_prefix xs ps" by auto
    then have "ps \<noteq> []" by auto
    with 2 Cons x show ?thesis by (auto simp: map_of_update split: option.splits dest: map_of_SomeD)
  qed (use 2 in auto)
qed auto

end
