(* ===== verification/Reset_Laws.thy ===== *)
theory Reset_Laws
  imports Workspace_Git
begin

text \<open>
  What \<open>Manager.Reset\<close> does to a workspace: the files a stage owns are as in the last checkpoint,
  everything else is left alone. Shown from the documented behaviour of \<open>git ls-tree\<close> and
  \<open>git restore\<close>.
\<close>

section \<open>The walk\<close>

fun named :: "node \<Rightarrow> bool" and named_entries :: "(string \<times> node) list \<Rightarrow> bool" where
  "named (Dir es) = named_entries es"
| "named n = True"
| "named_entries [] = True"
| "named_entries ((p, n) # es) \<longleftrightarrow> ordinary p \<and> p \<notin> fst ` set es \<and> named n \<and> named_entries es"

lemma named_distinct: "named_entries es \<Longrightarrow> distinct (map fst es)"
  by (induction es) force+

lemma named_entriesD: "named_entries es \<Longrightarrow> (p, n) \<in> set es \<Longrightarrow> ordinary p \<and> named n"
  by (induction es) auto

lemma named_Lstat: "named n \<Longrightarrow> Lstat n ps = Inr m \<Longrightarrow> named m"
  by (induction n ps rule: Lstat.induct) (auto split: option.splits dest: named_entriesD map_of_SomeD)

lemma rel_name_snoc: "ps \<noteq> [] \<Longrightarrow> rel_name (ps @ qs) = (if qs = [] then rel_name ps else rel_name ps @ slash # Join qs ''/'')"
proof (induction ps)
  case (Cons p ps)
  then show ?case by (cases ps; cases qs) (auto simp: rel_name_def)
qed simp

lemma not_Protected_dot: "\<not> Protected ''.''"
  by code_simp

lemma Protected_above: "\<not> Protected (rel_name (ps @ qs)) \<Longrightarrow> \<not> Protected (rel_name ps)"
  using rel_name_snoc [of ps qs] Protected_join [of "rel_name ps" "Join qs ''/''"] not_Protected_dot
  by (cases "ps = []"; cases "qs = []") (auto simp: rel_name_def [of "[]"])

lemma owned_entries_in: "(p, n) \<in> set es \<Longrightarrow> x \<in> set (walk_owned P (ps @ [p]) n) \<Longrightarrow> x \<in> set (owned_entries P ps es)"
  by (induction es) auto

lemma walk_complete:
  "Lstat n qs = Inr m \<Longrightarrow> \<not> is_dir m \<Longrightarrow> P (rel_name (ps @ qs)) \<Longrightarrow> \<not> Protected (rel_name (ps @ qs)) \<Longrightarrow>
     rel_name (ps @ qs) \<in> set (walk_owned P ps n)"
proof (induction n qs arbitrary: ps rule: Lstat.induct)
  case (1 n)
  then show ?case by (cases n) auto
next
  case (2 es p qs)
  then obtain k where k: "map_of es p = Some k" "Lstat k qs = Inr m" by (auto split: option.splits)
  have "rel_name ((ps @ [p]) @ qs) \<in> set (walk_owned P (ps @ [p]) k)" using 2 k by (intro "2.IH") auto
  moreover have "\<not> Protected (rel_name ps)" using "2.prems"(4) Protected_above by blast
  ultimately show ?case using owned_entries_in [OF map_of_SomeD [OF k(1)]] by auto
qed auto

lemma named_ordinary: "named n \<Longrightarrow> Lstat n qs = Inr m \<Longrightarrow> list_all ordinary qs"
  by (induction n qs rule: Lstat.induct) (auto split: option.splits dest: named_entriesD map_of_SomeD)

lemma walk_sound:
  shows "named n \<Longrightarrow> x \<in> set (walk_owned P ps n) \<Longrightarrow>
      \<exists>qs m. x = rel_name (ps @ qs) \<and> Lstat n qs = Inr m \<and> \<not> is_dir m \<and> P x \<and> \<not> Protected x"
    and "named_entries es \<Longrightarrow> x \<in> set (owned_entries P ps es) \<Longrightarrow>
      \<exists>p qs n m. x = rel_name (ps @ p # qs) \<and> (p, n) \<in> set es \<and> Lstat n qs = Inr m \<and> \<not> is_dir m \<and> P x \<and> \<not> Protected x"
proof (induction P ps n and P ps es rule: walk_owned_owned_entries.induct)
  case (1 P ps n)
  show ?case
  proof (cases n)
    case (Dir es)
    with 1 obtain p qs k m where "x = rel_name (ps @ p # qs)" "(p, k) \<in> set es" "Lstat k qs = Inr m" "\<not> is_dir m" "P x" "\<not> Protected x"
      by (fastforce split: if_splits)
    moreover from this(2) have "map_of es p = Some k" using "1.prems"(1) Dir named_distinct by (intro map_of_is_SomeI) auto
    ultimately show ?thesis using Dir by (intro exI [of _ "p # qs"] exI [of _ m]) simp
  qed (use 1 in \<open>auto intro!: exI [of _ "[]"] split: if_splits\<close>)
next
  case (3 P ps name n es)
  from "3.prems"(2) consider "x \<in> set (walk_owned P (ps @ [name]) n)" | "x \<in> set (owned_entries P ps es)" by auto
  then show ?case
  proof cases
    case 1
    from "3.IH"(1) [OF _ 1] "3.prems"(1) show ?thesis by fastforce
  next
    case 2
    from "3.IH"(2) [OF _ 2] "3.prems"(1) show ?thesis by fastforce
  qed
qed auto

section \<open>What git is documented to do\<close>

text \<open>
  The repository lives in \<open>.git\<close> below the workspace \<open>dir\<close>; \<open>head\<close> gives the files of its last commit, which
  have ordinary names without NUL and do not lie below each other. \<open>ls-tree -z\<close> lists them, each followed by NUL,
  and changes nothing; \<open>restore\<close> of a path brings back the file of the last commit there and touches nothing but
  that path, the directories above it, and the repository.
\<close>

definition git_laws :: "process \<Rightarrow> string \<Rightarrow> (node \<Rightarrow> string \<Rightarrow> node option) \<Rightarrow> bool" where
  "git_laws run dir head \<longleftrightarrow>
     (\<forall>fs fs'. Lstat fs' (path_parts dir @ [''.git'']) = Lstat fs (path_parts dir @ [''.git'']) \<longrightarrow> head fs' = head fs) \<and>
     (\<forall>fs p n. head fs p = Some n \<longrightarrow> \<not> is_dir n \<and> nul \<notin> set p \<and> list_all ordinary (Split p slash)) \<and>
     (\<forall>fs p q. head fs p \<noteq> None \<longrightarrow> head fs q \<noteq> None \<longrightarrow> prefix (Split p slash) (Split q slash) \<longrightarrow> p = q) \<and>
     (\<forall>fs fs' out. run (git_config @ ls_tree) git_environ [] dir fs = (None, out, fs') \<longrightarrow>
        fs' = fs \<and> (\<exists>ns. out = concat (map (\<lambda>n. n @ [nul]) ns) \<and> set ns = {p. head fs p \<noteq> None})) \<and>
     (\<forall>fs fs' out p n. run (git_config @ restore_args p) git_environ [] dir fs = (None, out, fs') \<longrightarrow> head fs p = Some n \<longrightarrow>
        head fs' = head fs \<and> Lstat fs' (path_parts dir @ Split p slash) = Inr n \<and>
        (\<forall>q. parallel q (path_parts dir @ Split p slash) \<longrightarrow> \<not> prefix (path_parts dir @ [''.git'']) q \<longrightarrow> Lstat fs' q = Lstat fs q))"

lemma git_lawsD:
  assumes "git_laws run dir head"
  shows "Lstat fs' (path_parts dir @ [''.git'']) = Lstat fs (path_parts dir @ [''.git'']) \<Longrightarrow> head fs' = head fs"
    and "head fs p = Some n \<Longrightarrow> \<not> is_dir n \<and> nul \<notin> set p \<and> list_all ordinary (Split p slash)"
    and "head fs p \<noteq> None \<Longrightarrow> head fs q \<noteq> None \<Longrightarrow> prefix (Split p slash) (Split q slash) \<Longrightarrow> p = q"
    and "run (git_config @ ls_tree) git_environ [] dir fs = (None, out, fs') \<Longrightarrow>
        fs' = fs \<and> (\<exists>ns. out = concat (map (\<lambda>n. n @ [nul]) ns) \<and> set ns = {p. head fs p \<noteq> None})"
    and "run (git_config @ restore_args p) git_environ [] dir fs = (None, out, fs') \<Longrightarrow> head fs p = Some n \<Longrightarrow>
        head fs' = head fs \<and> Lstat fs' (path_parts dir @ Split p slash) = Inr n \<and>
        (\<forall>q. parallel q (path_parts dir @ Split p slash) \<longrightarrow> \<not> prefix (path_parts dir @ [''.git'']) q \<longrightarrow> Lstat fs' q = Lstat fs q)"
  using assms unfolding git_laws_def by (blast, blast, blast, blast, blast)

lemma Split_listed: "list_all (\<lambda>n. nul \<notin> set n) ns \<Longrightarrow> Split (concat (map (\<lambda>n. n @ [nul]) ns)) nul = ns @ [[]]"
  by (induction ns) (simp_all add: Split_append_sep Split_id)

lemma TrimSuffix_listed: "TrimSuffix (concat (map (\<lambda>n. n @ [nul]) ns)) [CHR 0x0A] = concat (map (\<lambda>n. n @ [nul]) ns)"
proof (cases ns rule: rev_cases)
  case (snoc ns' n)
  then show ?thesis by (auto simp: TrimSuffix_def suffix_def nul_def)
qed (simp add: TrimSuffix_def)

lemma bindF_eq: "bindF m f fs = (r, fs') \<longleftrightarrow> (\<exists>e. m fs = (Inl e, fs') \<and> r = Inl e) \<or> (\<exists>v fs1. m fs = (Inr v, fs1) \<and> f v fs1 = (r, fs'))"
  by (auto simp: bindF_def split: prod.splits sum.splits)

lemma git_Inr: "git run dir args fs = (Inr v, fs') \<Longrightarrow> \<exists>out. run (git_config @ args) git_environ [] dir fs = (None, out, fs') \<and> v = TrimSuffix out [CHR 0x0A]"
  by (auto simp: git_def gitEnv_def split: prod.splits option.splits)

lemma files_same: "git_laws run dir head \<Longrightarrow> files run G dir patterns fs = (Inr v, fs') \<Longrightarrow> fs' = fs"
  using git_Inr git_lawsD(4) by (fastforce simp: files_def bindF_eq askF_def retF_def Let_def)

text \<open>The names \<open>Reset\<close> goes through.\<close>

lemma files_Inr:
  assumes laws: "git_laws run dir head" and ok: "files run G dir patterns fs = (Inr (names, base), fs')"
    and nm: "named fs" and d: "Lstat fs (path_parts dir) = Inr (Dir des)"
  shows "fs' = fs" and "sorted names" "distinct names"
    and "p \<in> set base \<longleftrightarrow> owned G p patterns \<and> head fs p \<noteq> None"
    and "p \<in> set names \<Longrightarrow> owned G p patterns \<and> list_all ordinary (Split p slash)"
    and "owned G p patterns \<Longrightarrow> head fs p \<noteq> None \<Longrightarrow> p \<in> set names"
    and "owned G (rel_name qs) patterns \<Longrightarrow> Lstat fs (path_parts dir @ qs) = Inr n \<Longrightarrow> \<not> is_dir n \<Longrightarrow> rel_name qs \<in> set names"
    and "p \<in> set names \<Longrightarrow> head fs p = None \<Longrightarrow> \<exists>m. Lstat fs (path_parts dir @ Split p slash) = Inr m \<and> \<not> is_dir m"
proof -
  let ?P = "\<lambda>p. owned G p patterns"
  obtain tracked fs1 n0 where g: "git run dir ls_tree fs = (Inr tracked, fs1)" and "fs' = fs1" "Lstat fs1 (path_parts dir) = Inr n0"
    and "base = filter (\<lambda>p. p \<noteq> [] \<and> ?P p) (Split tracked nul)" "names = sort (remdups (base @ walk_owned ?P [] n0))"
    using ok by (auto simp: files_def bindF_eq askF_def retF_def Let_def simp del: walk_owned.simps)
  note rest = this(2-)
  obtain ns where ns: "tracked = concat (map (\<lambda>n. n @ [nul]) ns)" "set ns = {p. head fs p \<noteq> None}" and fs1: "fs1 = fs"
    using git_Inr [OF g] git_lawsD(4) [OF laws] TrimSuffix_listed by metis
  have "list_all (\<lambda>n. nul \<notin> set n) ns" using ns(2) git_lawsD(2) [OF laws] by (auto simp: list_all_iff)
  then have split: "Split tracked nul = ns @ [[]]" by (simp add: ns(1) Split_listed)
  have b: "base = filter (\<lambda>p. p \<noteq> [] \<and> ?P p) ns" and names: "names = sort (remdups (base @ walk_owned ?P [] (Dir des)))"
    using rest(2-) d fs1 split by (auto simp del: walk_owned.simps)
  have nonempty: "head fs p \<noteq> None \<Longrightarrow> p \<noteq> []" for p
    using git_lawsD(2) [OF laws, of fs p] by (auto simp: ordinary_def)
  have nd: "named (Dir des)" using named_Lstat [OF nm d] .
  show "fs' = fs" using rest(1) fs1 by simp
  show "sorted names" "distinct names" by (simp_all add: names)
  show base: "p \<in> set base \<longleftrightarrow> owned G p patterns \<and> head fs p \<noteq> None" for p using b ns(2) nonempty by auto
  show "owned G p patterns \<Longrightarrow> head fs p \<noteq> None \<Longrightarrow> p \<in> set names" using base names by simp
  show "p \<in> set names \<Longrightarrow> owned G p patterns \<and> list_all ordinary (Split p slash)"
  proof -
    assume "p \<in> set names"
    then consider "p \<in> set base" | "p \<in> set (walk_owned ?P [] (Dir des))" by (auto simp: names)
    then show ?thesis
    proof cases
      case 1
      then show ?thesis using base git_lawsD(2) [OF laws, of fs p] by auto
    next
      case 2
      from walk_sound(1) [OF nd 2] obtain qs m where q: "p = rel_name qs" "Lstat (Dir des) qs = Inr m" "\<not> is_dir m" "?P p" by auto
      then have "qs \<noteq> []" "list_all ordinary qs" using named_ordinary [OF nd q(2)] by auto
      then show ?thesis using q Split_Join [of qs] by (auto simp: rel_name_def list_all_iff ordinary_def)
    qed
  qed
  show "owned G (rel_name qs) patterns \<Longrightarrow> Lstat fs (path_parts dir @ qs) = Inr n \<Longrightarrow> \<not> is_dir n \<Longrightarrow> rel_name qs \<in> set names"
    using walk_complete [of "Dir des" qs n ?P "[]"] d by (auto simp: names Lstat_append owned_def)
  show "\<exists>m. Lstat fs (path_parts dir @ Split p slash) = Inr m \<and> \<not> is_dir m" if "p \<in> set names" "head fs p = None"
  proof -
    have "p \<notin> set base" using that(2) base by blast
    then have "p \<in> set (walk_owned ?P [] (Dir des))" using that(1) unfolding names by simp
    from walk_sound(1) [OF nd this] obtain qs m where q: "p = rel_name qs" "Lstat (Dir des) qs = Inr m" "\<not> is_dir m" by auto
    have ne: "qs \<noteq> []" using q(2,3) by auto
    moreover have "no_slash qs" using named_ordinary [OF nd q(2)] by (simp add: list_all_iff ordinary_def)
    ultimately have "Split (rel_name qs) slash = qs" using Split_Join by (simp add: rel_name_def)
    then have "Lstat fs (path_parts dir @ Split p slash) = Inr m" using q(1,2) d by (simp add: Lstat_append)
    with q(3) show ?thesis by blast
  qed
qed

section \<open>One path\<close>

lemma nosym_no_link: "nosym root name done ps = Inr () \<Longrightarrow> prefix q ps \<Longrightarrow> q \<noteq> [] \<Longrightarrow> Lstat root (done @ q) \<noteq> Inr (Lnk l)"
proof (induction ps arbitrary: "done" q)
  case (Cons p ps)
  obtain q' where q: "q = p # q'" "prefix q' ps" using Cons.prems(2,3) by (cases q) auto
  show ?case
  proof (cases "Lstat root (done @ [p])")
    case (Inl e)
    then show ?thesis using Lstat_append [of root "done @ [p]" q'] q by simp
  next
    case (Inr n)
    with Cons.prems(1) have "\<not> is_link n" "nosym root name (done @ [p]) ps = Inr ()"
      by (auto simp: is_link_def split: node.splits)
    with Inr Cons.IH [of "done @ [p]" q'] q show ?thesis by (cases "q' = []") (auto simp: is_link_def)
  qed
qed simp

lemma follow_plain:
  "follow below False k fs dest ps = Inr r \<Longrightarrow> list_all ordinary ps \<Longrightarrow>
     (\<And>q l. prefix q ps \<Longrightarrow> q \<noteq> [] \<Longrightarrow> Lstat fs (dest @ q) \<noteq> Inr (Lnk l)) \<Longrightarrow> r = dest @ ps"
proof (induction ps arbitrary: dest)
  case (Cons p ps)
  have p: "p \<noteq> []" "p \<noteq> ''.''" "p \<noteq> ''..''" using Cons.prems(2) by (auto simp: ordinary_def)
  have l: "Lstat fs (dest @ [p]) \<noteq> Inr (Lnk l)" for l using Cons.prems(3) [of "[p]"] by simp
  have deep: "Lstat fs ((dest @ [p]) @ q) \<noteq> Inr (Lnk l)" if "prefix q ps" "q \<noteq> []" for q l
    using Cons.prems(3) [of "p # q" l] that by simp
  show ?case
  proof (cases "Lstat fs (dest @ [p])")
    case (Inr n)
    then show ?thesis using Cons.prems(1,2) p l Cons.IH [of "dest @ [p]"] deep by (cases n) (auto split: if_splits)
  qed (use Cons.prems(1) p in \<open>auto split: if_splits\<close>)
qed simp

lemma follow_dirs: "Lstat fs (dest @ ps) = Inr (Dir es) \<Longrightarrow> list_all ordinary ps \<Longrightarrow> follow below False k fs dest ps = Inr (dest @ ps)"
proof (induction ps arbitrary: dest)
  case (Cons p ps)
  have p: "p \<noteq> []" "p \<noteq> ''.''" "p \<noteq> ''..''" using Cons.prems(2) by (auto simp: ordinary_def)
  obtain es' where "Lstat fs (dest @ [p]) = Inr (Dir es')"
    using Cons.prems(1) Lstat_prefix [of fs "dest @ p # ps" "Dir es" "dest @ [p]"] by (cases ps) (auto simp: strict_prefix_def)
  with Cons p show ?case by simp
qed simp

lemma Split_dir: "list_all ordinary (Split p slash) \<Longrightarrow>
    Split (Dir_path p) slash = (if butlast (Split p slash) = [] then [''.''] else butlast (Split p slash))"
proof -
  assume ord: "list_all ordinary (Split p slash)"
  have "no_slash (butlast (Split p slash))" using ord by (auto simp: list_all_iff ordinary_def dest: in_set_butlastD)
  then show ?thesis using Split_Join [of "butlast (Split p slash)"] by (simp add: Dir_path_def)
qed

text \<open>Removing a path whose parent is plain.\<close>

lemma root_remove_plain:
  assumes ord: "list_all ordinary (Split p slash)" and root: "Lstat fs root = Inr n" and ok: "NoSymlinks n (Dir_path p) = Inr ()"
  shows "root_remove fs root p = Inr fs' \<Longrightarrow> fs' = del fs (root @ Split p slash) \<and>
      (\<exists>m. Lstat fs (root @ Split p slash) = Inr m \<and> (\<forall>e es. m \<noteq> Dir (e # es)))"
    and "root_remove fs root p = Inl ErrNotExist \<Longrightarrow> \<exists>e. Lstat fs (root @ Split p slash) = Inl e"
proof -
  let ?ps = "Split p slash"
  have ps: "?ps = butlast ?ps @ [last ?ps]" by simp
  have ordb: "list_all ordinary (butlast ?ps)" using ord by (auto simp: list_all_iff dest: in_set_butlastD)
  have walk: "root_path fs root False (Dir_path p) = follow (Some root) False 8 fs root (butlast ?ps)"
    by (simp add: root_path_def Split_dir [OF ord])
  have nolink: "Lstat fs (root @ q) \<noteq> Inr (Lnk l)" if "prefix q (butlast ?ps)" "q \<noteq> []" for q l
  proof -
    have "butlast ?ps \<noteq> []" using that by auto
    then have "nosym n (Dir_path p) [] (butlast ?ps) = Inr ()" using ok by (auto simp: NoSymlinks_def Split_dir [OF ord] split: if_splits)
    from nosym_no_link [OF this that] show ?thesis by (simp add: Lstat_append root)
  qed
  { assume "root_remove fs root p = Inr fs'"
    then obtain d m where d: "root_path fs root False (Dir_path p) = Inr d" "Lstat fs (d @ [last ?ps]) = Inr m"
      "(case m of Dir (e # es) \<Rightarrow> Inl (Errorf ''directory not empty'') | _ \<Rightarrow> Inr (del fs (d @ [last ?ps]))) = Inr fs'"
      by (auto simp: root_remove_def bindR_eq_Inr Let_def)
    have "d = root @ butlast ?ps" using follow_plain [OF d(1) [unfolded walk] ordb nolink] .
    then have "d @ [last ?ps] = root @ ?ps" using ps by simp
    then show "fs' = del fs (root @ ?ps) \<and> (\<exists>m. Lstat fs (root @ ?ps) = Inr m \<and> (\<forall>e es. m \<noteq> Dir (e # es)))"
      using d(2,3) by (cases m) (auto split: list.splits) }
  { assume gone: "root_remove fs root p = Inl ErrNotExist"
    show "\<exists>e. Lstat fs (root @ ?ps) = Inl e"
    proof (rule ccontr)
      assume "\<not> ?thesis"
      then obtain m where m: "Lstat fs (root @ ?ps) = Inr m" by (cases "Lstat fs (root @ ?ps)") auto
      have "length (butlast ?ps) < length ?ps" by simp
      then have "butlast ?ps \<noteq> ?ps" by (metis less_irrefl)
      then have "strict_prefix (root @ butlast ?ps) (root @ ?ps)" using prefixeq_butlast by (simp add: strict_prefix_def)
      then obtain es where "Lstat fs (root @ butlast ?ps) = Inr (Dir es)" using Lstat_prefix [OF m] by blast
      then have "root_path fs root False (Dir_path p) = Inr (root @ butlast ?ps)" using follow_dirs ordb walk by simp
      then show False using gone m by (auto simp: root_remove_def Let_def split: node.splits list.splits)
    qed }
qed

section \<open>The loop\<close>

text \<open>A path is as in the last commit: its file is there, or no file is.\<close>

definition as_committed :: "string list \<Rightarrow> (string \<Rightarrow> node option) \<Rightarrow> string \<Rightarrow> node \<Rightarrow> bool" where
  "as_committed root h p fs \<longleftrightarrow> (case h p of
      Some n \<Rightarrow> Lstat fs (root @ Split p slash) = Inr n
    | None \<Rightarrow> \<forall>n. Lstat fs (root @ Split p slash) = Inr n \<longrightarrow> is_dir n)"

lemma below_file: "Lstat fs q = Inr n \<Longrightarrow> \<not> is_dir n \<Longrightarrow> strict_prefix q r \<Longrightarrow> \<exists>e. Lstat fs r = Inl e"
  using Lstat_prefix by (metis Inr_inject is_dir_simps(1) sumE)

lemma parallel_append: "parallel (root @ a) (root @ b) \<longleftrightarrow> parallel a b"
  by (simp add: parallel_def)

lemma path_relation:
  obtains "a = b" | "strict_prefix a b" | "strict_prefix b a" | "parallel a b"
  by (auto simp: parallel_def strict_prefix_def)

lemma Split_inj: "Split p slash = Split q slash \<longleftrightarrow> p = q"
  using Join_Split by metis

lemma git_part: "Protected ''.git''"
  by code_simp

lemma not_in_git: "\<not> Protected p \<Longrightarrow> hd (Split p slash) \<noteq> ''.git''"
proof
  assume np: "\<not> Protected p" and "hd (Split p slash) = ''.git''"
  then obtain ps where ps: "Split p slash = ''.git'' # ps" by (cases "Split p slash") auto
  then have "p = Join (''.git'' # ps) [slash]" using Join_Split [of p slash] by simp
  then show False using np git_part Protected_join [of "''.git''" "Join ps ''/''"] by (cases ps) auto
qed

lemma git_parallel: "\<not> Protected p \<Longrightarrow> parallel (root @ [''.git'']) (root @ Split p slash)"
  using not_in_git [of p] by (cases "Split p slash") (auto simp: parallel_def)

lemma reset_path_cases:
  assumes ok: "reset_path run dir root base p fs = (Inr (), fs')" and ord: "list_all ordinary (Split p slash)"
  obtains (restored) out where "p \<in> set base" "run (git_config @ restore_args p) git_environ [] dir fs = (None, out, fs')"
    | (removed) m where "p \<notin> set base" "fs' = del fs (root @ Split p slash)" "Lstat fs (root @ Split p slash) = Inr m" "\<forall>e es. m \<noteq> Dir (e # es)"
    | (missing) e where "p \<notin> set base" "fs' = fs" "Lstat fs (root @ Split p slash) = Inl e"
proof -
  obtain n where n: "Lstat fs root = Inr n" "NoSymlinks n (Dir_path p) = Inr ()"
    using ok by (auto simp: reset_path_def bindF_eq askF_def bindR_eq_Inr)
  show thesis
  proof (cases "p \<in> set base")
    case True
    then show thesis using ok n git_Inr restored by (fastforce simp: reset_path_def bindF_eq askF_def retF_def)
  next
    case False
    then have "(case root_remove fs root p of Inl e \<Rightarrow> (if e = ErrNotExist then Inr () else Inl e, fs) | Inr fs1 \<Rightarrow> (Inr (), fs1)) = (Inr (), fs')"
      using ok n by (auto simp: reset_path_def bindF_eq askF_def)
    then consider "root_remove fs root p = Inr fs'" | "root_remove fs root p = Inl ErrNotExist" "fs' = fs"
      by (auto split: sum.splits if_splits)
    then show thesis using root_remove_plain [OF ord n] removed missing False by cases blast+
  qed
qed

lemma restored_laws:
  assumes laws: "git_laws run dir head" and run: "run (git_config @ restore_args p) git_environ [] dir fs = (None, out, fs')"
    and h: "head fs p \<noteq> None"
  obtains n where "head fs p = Some n" "\<not> is_dir n" "head fs' = head fs" "Lstat fs' (path_parts dir @ Split p slash) = Inr n"
    "\<And>q. parallel q (path_parts dir @ Split p slash) \<Longrightarrow> \<not> prefix (path_parts dir @ [''.git'']) q \<Longrightarrow> Lstat fs' q = Lstat fs q"
proof -
  obtain n where n: "head fs p = Some n" using h by auto
  show thesis by (rule that [OF n]) (use git_lawsD(5) [OF laws run n] git_lawsD(2) [OF laws n] in auto)
qed

lemma reset_step:
  assumes laws: "git_laws run dir head" and ok: "reset_path run dir (path_parts dir) base p fs = (Inr (), fs')"
    and ord: "list_all ordinary (Split p slash)" and np: "\<not> Protected p" and base: "p \<in> set base \<longleftrightarrow> head fs p \<noteq> None"
  shows "head fs' = head fs \<and> as_committed (path_parts dir) (head fs) p fs'"
  using ok ord
proof (cases rule: reset_path_cases)
  case (restored out)
  obtain n where "head fs p = Some n" "head fs' = head fs" "Lstat fs' (path_parts dir @ Split p slash) = Inr n"
    by (rule restored_laws [OF laws restored(2)]) (use base restored(1) in auto)
  then show ?thesis by (simp add: as_committed_def)
next
  case (removed m)
  have "head fs' = head fs" using removed(2) Lstat_del_parallel [OF git_parallel [OF np]] git_lawsD(1) [OF laws] by metis
  moreover obtain e where "Lstat fs' (path_parts dir @ Split p slash) = Inl e"
    using Lstat_del_gone [of "path_parts dir @ Split p slash" fs "[]"] removed(2) by auto
  ultimately show ?thesis using base removed(1) by (simp add: as_committed_def)
next
  case (missing e)
  then show ?thesis using base by (simp add: as_committed_def)
qed

text \<open>What later rounds keep.\<close>

lemma reset_keeps:
  assumes laws: "git_laws run dir head" and ok: "reset_path run dir (path_parts dir) base p fs = (Inr (), fs')"
    and ord: "list_all ordinary (Split p slash)" and np: "\<not> Protected p" "\<not> Protected q" and base: "p \<in> set base \<longleftrightarrow> head fs p \<noteq> None"
    and q: "as_committed (path_parts dir) (head fs) q fs" "q \<noteq> p" "head fs q \<noteq> None \<Longrightarrow> \<not> prefix (Split p slash) (Split q slash)"
  shows "as_committed (path_parts dir) (head fs) q fs'"
proof -
  let ?p = "path_parts dir @ Split p slash" and ?q = "path_parts dir @ Split q slash"
  have out_git: "\<not> prefix (path_parts dir @ [''.git'']) ?q" using git_parallel [OF np(2)] by (auto simp: parallel_def)
  consider "parallel (Split q slash) (Split p slash)" | "strict_prefix (Split q slash) (Split p slash)" | "strict_prefix (Split p slash) (Split q slash)"
    using q(2) Split_inj path_relation by metis
  then show ?thesis
  proof cases
    case 1
    then have par: "parallel ?q ?p" by (simp add: parallel_append)
    have "Lstat fs' ?q = Lstat fs ?q" using ok ord
    proof (cases rule: reset_path_cases)
      case (restored out)
      then show ?thesis using restored_laws [OF laws restored(2)] base par out_git by metis
    qed (use Lstat_del_parallel [OF par] in auto)
    with q(1) show ?thesis by (simp add: as_committed_def split: option.splits)
  next
    case 2
    then have above: "strict_prefix ?q ?p" by (simp add: strict_prefix_def)
    from ok ord show ?thesis
    proof (cases rule: reset_path_cases)
      case (restored out)
      obtain n where n: "head fs p = Some n" "Lstat fs' ?p = Inr n" using restored_laws [OF laws restored(2)] restored(1) base by metis
      have "head fs q = None" using git_lawsD(3) [OF laws, of fs q p] n(1) 2 q(2) by (cases "head fs q") (auto simp: strict_prefix_def)
      moreover obtain es where "Lstat fs' ?q = Inr (Dir es)" using Lstat_prefix [OF n(2) above] by blast
      ultimately show ?thesis by (simp add: as_committed_def)
    next
      case (removed m)
      obtain es where d: "Lstat fs ?q = Inr (Dir es)" using Lstat_prefix [OF removed(3) above] by blast
      then have "head fs q = None" using q(1) git_lawsD(2) [OF laws, of fs q] by (auto simp: as_committed_def split: option.splits)
      moreover obtain es' where "Lstat fs' ?q = Inr (Dir es')" using Lstat_del_above [OF above d] removed(2) by blast
      ultimately show ?thesis by (simp add: as_committed_def)
    qed (use q(1) in simp)
  next
    case 3
    then have none: "head fs q = None" using q(3) by (cases "head fs q") (auto simp: strict_prefix_def)
    have below: "strict_prefix ?p ?q" using 3 by (simp add: strict_prefix_def)
    from ok ord show ?thesis
    proof (cases rule: reset_path_cases)
      case (restored out)
      obtain n where "\<not> is_dir n" "Lstat fs' ?p = Inr n" using restored_laws [OF laws restored(2)] restored(1) base by metis
      then obtain e where "Lstat fs' ?q = Inl e" using below_file below by blast
      with none show ?thesis by (simp add: as_committed_def)
    next
      case (removed m)
      obtain r where "?q = ?p @ r" using below by (auto simp: strict_prefix_def prefix_def)
      then obtain e where "Lstat fs' ?q = Inl e" using Lstat_del_gone [of ?p fs r] removed(2) by auto
      with none show ?thesis by (simp add: as_committed_def)
    qed (use q(1) in simp)
  qed
qed

text \<open>A file that is not among the names and does not conflict with a committed one stays.\<close>

lemma reset_spares:
  assumes laws: "git_laws run dir head" and ok: "reset_path run dir (path_parts dir) base p fs = (Inr (), fs')"
    and ord: "list_all ordinary (Split p slash)" and base: "p \<in> set base \<longleftrightarrow> head fs p \<noteq> None"
    and q: "Lstat fs (path_parts dir @ qs) = Inr n" "\<not> is_dir n" "\<not> prefix [''.git''] qs" "qs \<noteq> Split p slash"
    and par: "p \<in> set base \<Longrightarrow> parallel qs (Split p slash)"
  shows "Lstat fs' (path_parts dir @ qs) = Inr n"
proof -
  let ?p = "path_parts dir @ Split p slash" and ?q = "path_parts dir @ qs"
  from ok ord show ?thesis
  proof (cases rule: reset_path_cases)
    case (restored out)
    then have "parallel ?q ?p" "\<not> prefix (path_parts dir @ [''.git'']) ?q" using par q(3) by (simp_all add: parallel_append)
    with restored_laws [OF laws restored(2)] restored(1) base q(1) show ?thesis by metis
  next
    case (removed m)
    have "\<not> strict_prefix ?q ?p" using below_file [OF q(1,2)] removed(3) by (metis Inr_Inl_False)
    moreover have "\<not> strict_prefix ?p ?q"
    proof
      assume "strict_prefix ?p ?q"
      then obtain r where r: "?q = ?p @ r" "r \<noteq> []" by (auto simp: strict_prefix_def prefix_def)
      then have "Lstat m r = Inr n" using q(1) removed(3) Lstat_append [of fs ?p r] by simp
      then obtain es where "m = Dir es" "es \<noteq> []" using r(2) by (cases m; cases r; cases "m = Dir []") (auto split: option.splits)
      then show False using removed(4) by (cases es) auto
    qed
    moreover have "?q \<noteq> ?p" using q(4) by simp
    ultimately have "parallel ?q ?p" by (auto simp: parallel_def strict_prefix_def)
    from Lstat_del_parallel [OF this] removed(2) q(1) show ?thesis by simp
  qed (use q(1) in simp)
qed

lemma le_append: "(a :: string) \<le> a @ b"
  by (induction a) auto

lemma prefix_le: "prefix (Split p slash) (Split q slash) \<Longrightarrow> p \<le> q"
proof -
  assume "prefix (Split p slash) (Split q slash)"
  then obtain r where r: "Split q slash = Split p slash @ r" by (auto simp: prefix_def)
  have "Join (Split q slash) [slash] = (if r = [] then Join (Split p slash) [slash] else Join (Split p slash) [slash] @ slash # Join r [slash])"
    using rel_name_snoc [of "Split p slash" r] unfolding r by (simp add: rel_name_def)
  then have "q = (if r = [] then p else p @ slash # Join r [slash])" by (simp only: Join_Split)
  then show ?thesis using le_append by simp
qed

text \<open>The names \<open>Reset\<close> goes through, and the first round of the loop.\<close>

definition reset_names :: "(node \<Rightarrow> string \<Rightarrow> node option) \<Rightarrow> string list \<Rightarrow> node \<Rightarrow> string list \<Rightarrow> bool" where
  "reset_names head base fs names \<longleftrightarrow>
     (\<forall>p\<in>set names. list_all ordinary (Split p slash) \<and> \<not> Protected p \<and> (p \<in> set base \<longleftrightarrow> head fs p \<noteq> None))"

lemma reset_round:
  assumes laws: "git_laws run dir head" and ok: "eachF (reset_path run dir (path_parts dir) base) (p # names) fs = (Inr (), fs')"
    and names: "reset_names head base fs (p # names)"
  obtains fs1 where "reset_path run dir (path_parts dir) base p fs = (Inr (), fs1)"
    "eachF (reset_path run dir (path_parts dir) base) names fs1 = (Inr (), fs')" "head fs1 = head fs" "reset_names head base fs1 names"
    "list_all ordinary (Split p slash)" "\<not> Protected p" "p \<in> set base \<longleftrightarrow> head fs p \<noteq> None"
proof -
  obtain fs1 where r: "reset_path run dir (path_parts dir) base p fs = (Inr (), fs1)"
    "eachF (reset_path run dir (path_parts dir) base) names fs1 = (Inr (), fs')" using ok by (auto simp: bindF_eq)
  have p: "list_all ordinary (Split p slash)" "\<not> Protected p" "p \<in> set base \<longleftrightarrow> head fs p \<noteq> None" using names by (auto simp: reset_names_def)
  have h: "head fs1 = head fs" using reset_step [OF laws r(1) p] by blast
  show thesis by (rule that [OF r h _ p]) (use names h in \<open>simp add: reset_names_def\<close>)
qed

lemma keep_loop:
  assumes laws: "git_laws run dir head"
  shows "eachF (reset_path run dir (path_parts dir) base) names fs = (Inr (), fs') \<Longrightarrow> reset_names head base fs names \<Longrightarrow>
    \<not> Protected q \<Longrightarrow> q \<notin> set names \<Longrightarrow> as_committed (path_parts dir) (head fs) q fs \<Longrightarrow>
    (head fs q \<noteq> None \<Longrightarrow> \<forall>p\<in>set names. \<not> prefix (Split p slash) (Split q slash)) \<Longrightarrow> as_committed (path_parts dir) (head fs) q fs'"
proof (induction names arbitrary: fs)
  case (Cons p names)
  from laws Cons.prems(1,2) obtain fs1 where r: "reset_path run dir (path_parts dir) base p fs = (Inr (), fs1)"
    "eachF (reset_path run dir (path_parts dir) base) names fs1 = (Inr (), fs')" "head fs1 = head fs" "reset_names head base fs1 names"
    "list_all ordinary (Split p slash)" "\<not> Protected p" "p \<in> set base \<longleftrightarrow> head fs p \<noteq> None" by (rule reset_round)
  have "as_committed (path_parts dir) (head fs) q fs1"
    by (rule reset_keeps [OF laws r(1,5,6) Cons.prems(3) r(7) Cons.prems(5)]) (use Cons.prems(4,6) in auto)
  then show ?case using Cons.IH [OF r(2,4) Cons.prems(3)] Cons.prems(4,6) r(3) by simp
qed (simp add: retF_def)

lemma done_loop:
  assumes laws: "git_laws run dir head"
  shows "eachF (reset_path run dir (path_parts dir) base) names fs = (Inr (), fs') \<Longrightarrow> reset_names head base fs names \<Longrightarrow>
    sorted names \<Longrightarrow> distinct names \<Longrightarrow> q \<in> set names \<Longrightarrow> as_committed (path_parts dir) (head fs) q fs'"
proof (induction names arbitrary: fs)
  case (Cons p names)
  from laws Cons.prems(1,2) obtain fs1 where r: "reset_path run dir (path_parts dir) base p fs = (Inr (), fs1)"
    "eachF (reset_path run dir (path_parts dir) base) names fs1 = (Inr (), fs')" "head fs1 = head fs" "reset_names head base fs1 names"
    "list_all ordinary (Split p slash)" "\<not> Protected p" "p \<in> set base \<longleftrightarrow> head fs p \<noteq> None" by (rule reset_round)
  show ?case
  proof (cases "q = p")
    case True
    have "as_committed (path_parts dir) (head fs1) p fs1" using reset_step [OF laws r(1,5,6,7)] r(3) by simp
    moreover have "\<not> prefix (Split p' slash) (Split p slash)" if "p' \<in> set names" for p'
      using prefix_le [of p' p] that Cons.prems(3,4) by auto
    ultimately show ?thesis using keep_loop [OF laws r(2,4,6)] Cons.prems(4) r(3) True by simp
  qed (use Cons.IH [OF r(2,4)] Cons.prems r(3) in auto)
qed simp

lemma spare_loop:
  assumes laws: "git_laws run dir head"
  shows "eachF (reset_path run dir (path_parts dir) base) names fs = (Inr (), fs') \<Longrightarrow> reset_names head base fs names \<Longrightarrow>
    Lstat fs (path_parts dir @ qs) = Inr n \<Longrightarrow> \<not> is_dir n \<Longrightarrow> \<not> prefix [''.git''] qs \<Longrightarrow> (\<And>p. p \<in> set names \<Longrightarrow> qs \<noteq> Split p slash) \<Longrightarrow>
    (\<And>p. p \<in> set base \<Longrightarrow> parallel qs (Split p slash)) \<Longrightarrow> Lstat fs' (path_parts dir @ qs) = Inr n"
proof (induction names arbitrary: fs)
  case (Cons p names)
  from laws Cons.prems(1,2) obtain fs1 where r: "reset_path run dir (path_parts dir) base p fs = (Inr (), fs1)"
    "eachF (reset_path run dir (path_parts dir) base) names fs1 = (Inr (), fs')" "head fs1 = head fs" "reset_names head base fs1 names"
    "list_all ordinary (Split p slash)" "\<not> Protected p" "p \<in> set base \<longleftrightarrow> head fs p \<noteq> None" by (rule reset_round)
  have "Lstat fs1 (path_parts dir @ qs) = Inr n" by (rule reset_spares [OF laws r(1,5,7) Cons.prems(3-5)]) (use Cons.prems(6,7) in auto)
  then show ?case using Cons.IH [OF r(2,4)] Cons.prems(4-7) by simp
qed (simp add: retF_def)

end
