(* ===== verification/Checkpoint_Laws.thy ===== *)
theory Checkpoint_Laws
  imports Reset_Laws
begin

text \<open>
  What \<open>Manager.Accept\<close> records: the files a stage owns, as they are in the workspace, and nothing else.
  Shown from the documented behaviour of \<open>git add\<close>, \<open>git commit\<close> and the references of git.
\<close>

text \<open>The file a name stands for in the workspace.\<close>

definition file_at :: "string list \<Rightarrow> node \<Rightarrow> string \<Rightarrow> node option" where
  "file_at root fs p = (case Lstat fs (root @ Split p slash) of Inr n \<Rightarrow> if is_dir n then None else Some n | Inl _ \<Rightarrow> None)"

text \<open>A command that leaves the workspace alone, apart from the repository in it.\<close>

definition only_git :: "string list \<Rightarrow> node \<Rightarrow> node \<Rightarrow> bool" where
  "only_git root fs fs' \<longleftrightarrow> (\<forall>q. parallel q (root @ [''.git'']) \<longrightarrow> Lstat fs' q = Lstat fs q)"

lemma only_git_refl: "only_git root fs fs"
  by (simp add: only_git_def)

lemma only_git_trans: "only_git root a b \<Longrightarrow> only_git root b c \<Longrightarrow> only_git root a c"
  by (simp add: only_git_def)

text \<open>
  \<open>index\<close> is the staged state. \<open>add -A\<close> of paths that are no directories stages their present state, or their
  absence; \<open>commit\<close> makes the index the last commit; \<open>update-ref\<close> of another reference touches neither, and afterwards
  \<open>rev-parse --verify\<close> finds it, which itself changes nothing.
\<close>

definition commit_laws :: "process \<Rightarrow> string \<Rightarrow> (node \<Rightarrow> string \<Rightarrow> node option) \<Rightarrow> (node \<Rightarrow> string \<Rightarrow> node option) \<Rightarrow> string \<Rightarrow> bool" where
  "commit_laws run dir head index key \<longleftrightarrow>
     (\<forall>fs e out fs'. run (git_config @ verify_args key) git_environ [] dir fs = (e, out, fs') \<longrightarrow> fs' = fs) \<and>
     (\<forall>fs names out fs'. run (git_config @ add_args names) git_environ [] dir fs = (None, out, fs') \<longrightarrow>
        (\<forall>p\<in>set names. \<forall>n. Lstat fs (path_parts dir @ Split p slash) = Inr n \<longrightarrow> \<not> is_dir n) \<longrightarrow>
        only_git (path_parts dir) fs fs' \<and> head fs' = head fs \<and>
        index fs' = (\<lambda>p. if p \<in> set names then file_at (path_parts dir) fs p else index fs p)) \<and>
     (\<forall>fs out fs'. run (git_config @ commit_args key) git_environ [] dir fs = (None, out, fs') \<longrightarrow>
        only_git (path_parts dir) fs fs' \<and> head fs' = index fs \<and> index fs' = index fs) \<and>
     (\<forall>fs out fs'. run (git_config @ update_args key) git_environ [] dir fs = (None, out, fs') \<longrightarrow>
        only_git (path_parts dir) fs fs' \<and> head fs' = head fs \<and> index fs' = index fs \<and>
        fst (run (git_config @ verify_args key) git_environ [] dir fs') = None)"

lemma commit_lawsD:
  assumes "commit_laws run dir head index key"
  shows "run (git_config @ verify_args key) git_environ [] dir fs = (e, out, fs') \<Longrightarrow> fs' = fs"
    and "run (git_config @ add_args names) git_environ [] dir fs = (None, out, fs') \<Longrightarrow>
        (\<And>p n. p \<in> set names \<Longrightarrow> Lstat fs (path_parts dir @ Split p slash) = Inr n \<Longrightarrow> \<not> is_dir n) \<Longrightarrow>
        only_git (path_parts dir) fs fs' \<and> head fs' = head fs \<and>
        index fs' = (\<lambda>p. if p \<in> set names then file_at (path_parts dir) fs p else index fs p)"
    and "run (git_config @ commit_args key) git_environ [] dir fs = (None, out, fs') \<Longrightarrow>
        only_git (path_parts dir) fs fs' \<and> head fs' = index fs \<and> index fs' = index fs"
    and "run (git_config @ update_args key) git_environ [] dir fs = (None, out, fs') \<Longrightarrow>
        only_git (path_parts dir) fs fs' \<and> head fs' = head fs \<and> index fs' = index fs \<and>
        fst (run (git_config @ verify_args key) git_environ [] dir fs') = None"
  using assms unfolding commit_laws_def by (blast, blast, blast, blast)

lemma file_at_ordinary: "named fs \<Longrightarrow> file_at root fs p \<noteq> None \<Longrightarrow> list_all ordinary (Split p slash)"
  using named_ordinary [of fs "root @ Split p slash"] by (auto simp: file_at_def split: sum.splits if_splits)

text \<open>An accepted stage is not looked at again.\<close>

lemma Accept_known:
  assumes "commit_laws run dir head index key" "fst (run (git_config @ verify_args key) git_environ [] dir fs) = None"
  shows "Accept run G dir key patterns fs = (Inr (), fs)"
proof -
  obtain out fs' where r: "run (git_config @ verify_args key) git_environ [] dir fs = (None, out, fs')"
    using assms(2) by (metis prod.collapse)
  then have "fs' = fs" by (rule commit_lawsD(1) [OF assms(1)])
  with r show ?thesis by (simp add: Accept_def git_def gitEnv_def)
qed

text \<open>A new checkpoint.\<close>

lemma Accept_new:
  assumes laws: "git_laws run dir head" "commit_laws run dir head index key"
    and ok: "Accept run G dir key patterns fs = (Inr (), fs')" and new: "fst (run (git_config @ verify_args key) git_environ [] dir fs) \<noteq> None"
  obtains names base fs1 fs2 o2 o3 where "files run G dir patterns fs = (Inr (names, base), fs)"
    "names = [] \<and> fs1 = fs \<or> (\<exists>out. run (git_config @ add_args names) git_environ [] dir fs = (None, out, fs1))"
    "run (git_config @ commit_args key) git_environ [] dir fs1 = (None, o2, fs2)"
    "run (git_config @ update_args key) git_environ [] dir fs2 = (None, o3, fs')"
proof -
  obtain e out0 where v: "run (git_config @ verify_args key) git_environ [] dir fs = (Some e, out0, fs)"
    using new commit_lawsD(1) [OF laws(2)] by (cases "run (git_config @ verify_args key) git_environ [] dir fs") fastforce
  have "git run dir (verify_args key) fs = (Inl (Errorf (''workspace git '' @ hd (verify_args key) @ '': '' @ error_text e @ '': '' @ TrimSpace out0)), fs)"
    using v by (simp add: git_def gitEnv_def)
  then obtain names base f0 fs1 fs2 r1 r2 r3 where f: "files run G dir patterns fs = (Inr (names, base), f0)"
    and a: "(if names = [] then retF [] else git run dir (add_args names)) f0 = (Inr r1, fs1)"
    and c: "git run dir (commit_args key) fs1 = (Inr r2, fs2)" and u: "git run dir (update_args key) fs2 = (Inr r3, fs')"
    using ok by (auto simp: Accept_def bindF_eq) (auto simp: retF_def)
  have f0: "f0 = fs" using f files_same laws(1) by blast
  have "names = [] \<and> fs1 = fs \<or> (\<exists>out. run (git_config @ add_args names) git_environ [] dir fs = (None, out, fs1))"
    using a f0 git_Inr [of run dir "add_args names" fs r1 fs1] by (auto simp: retF_def split: if_splits)
  with f f0 git_Inr [OF c] git_Inr [OF u] that show thesis by metis
qed

lemma Accept_checkpoint:
  assumes laws: "git_laws run dir head" "commit_laws run dir head index key"
    and ok: "Accept run G dir key patterns fs = (Inr (), fs')" and new: "fst (run (git_config @ verify_args key) git_environ [] dir fs) \<noteq> None"
    and clean: "index fs = head fs" and nm: "named fs" and d: "Lstat fs (path_parts dir) = Inr (Dir des)"
    and files_only: "\<And>p n. owned G p patterns \<Longrightarrow> head fs p \<noteq> None \<Longrightarrow> Lstat fs (path_parts dir @ Split p slash) = Inr n \<Longrightarrow> \<not> is_dir n"
  shows "head fs' = (\<lambda>p. if owned G p patterns then file_at (path_parts dir) fs p else head fs p) \<and> index fs' = head fs' \<and>
    only_git (path_parts dir) fs fs' \<and> fst (run (git_config @ verify_args key) git_environ [] dir fs') = None"
proof -
  let ?root = "path_parts dir"
  obtain names base fs1 fs2 o2 o3 where f: "files run G dir patterns fs = (Inr (names, base), fs)"
    and a: "names = [] \<and> fs1 = fs \<or> (\<exists>out. run (git_config @ add_args names) git_environ [] dir fs = (None, out, fs1))"
    and c: "run (git_config @ commit_args key) git_environ [] dir fs1 = (None, o2, fs2)"
    and u: "run (git_config @ update_args key) git_environ [] dir fs2 = (None, o3, fs')"
    by (rule Accept_new [OF laws ok new])
  note F = files_Inr [OF laws(1) f nm d]
  have plain: "\<not> is_dir n" if "p \<in> set names" "Lstat fs (?root @ Split p slash) = Inr n" for p n
    using F(5) [OF that(1)] F(8) [OF that(1)] files_only [of p n] that(2) by (cases "head fs p") auto
  have staged: "only_git ?root fs fs1 \<and> index fs1 = (\<lambda>p. if p \<in> set names then file_at ?root fs p else head fs p)"
    using a
  proof
    assume "\<exists>out. run (git_config @ add_args names) git_environ [] dir fs = (None, out, fs1)"
    then show ?thesis using commit_lawsD(2) [OF laws(2) _ plain] clean by auto
  qed (simp add: only_git_refl clean)
  have all: "(if p \<in> set names then file_at ?root fs p else head fs p) = (if owned G p patterns then file_at ?root fs p else head fs p)" for p
  proof (cases "owned G p patterns \<and> p \<notin> set names")
    case True
    then have none: "head fs p = None" using F(6) [of p] by blast
    have "file_at ?root fs p = None"
    proof (rule ccontr)
      assume there: "file_at ?root fs p \<noteq> None"
      then obtain n where n: "Lstat fs (?root @ Split p slash) = Inr n" "\<not> is_dir n" by (auto simp: file_at_def split: sum.splits if_splits)
      have "rel_name (Split p slash) = p" using Join_Split [of p slash] by (simp add: rel_name_def)
      with F(7) [of "Split p slash" n] n True show False by simp
    qed
    with True none show ?thesis by simp
  qed (use F(5) [of p] in auto)
  have c3: "only_git ?root fs1 fs2" "head fs2 = index fs1" "index fs2 = index fs1" using commit_lawsD(3) [OF laws(2) c] by simp_all
  have u4: "only_git ?root fs2 fs'" "head fs' = head fs2" "index fs' = index fs2" "fst (run (git_config @ verify_args key) git_environ [] dir fs') = None"
    using commit_lawsD(4) [OF laws(2) u] by simp_all
  have "only_git ?root fs fs'" using staged c3(1) u4(1) only_git_trans by blast
  moreover have "head fs' = (\<lambda>p. if owned G p patterns then file_at ?root fs p else head fs p)"
    using staged c3(2) u4(2) all by (simp add: fun_eq_iff)
  ultimately show ?thesis using c3 u4 by simp
qed

end
