(* ===== verification/Mini_Git.thy ===== *)
theory Mini_Git
  imports Checkpoint_Laws
begin

text \<open>
  A git that behaves as documented, for repositories in \<open>/ws\<close> with at most the one file \<open>docs/a.md\<close>: the last
  commit, the index and the reference of an approved stage are entries of \<open>.git\<close>. It shows that the
  hypotheses about git can hold.
\<close>

definition slot :: "node \<Rightarrow> string \<Rightarrow> node option" where
  "slot fs name = (case Lstat fs [''ws'', ''.git'', name] of Inr n \<Rightarrow> if is_dir n then None else Some n | Inl _ \<Rightarrow> None)"

definition set_slot :: "string \<Rightarrow> node option \<Rightarrow> node \<Rightarrow> node" where
  "set_slot name v fs = (case v of Some n \<Rightarrow> put fs [''ws'', ''.git'', name] n | None \<Rightarrow> del fs [''ws'', ''.git'', name])"

definition mini_head :: "node \<Rightarrow> string \<Rightarrow> node option" where
  "mini_head fs p = (if p = ''docs/a.md'' then slot fs ''HEAD'' else None)"

definition mini_index :: "node \<Rightarrow> string \<Rightarrow> node option" where
  "mini_index fs p = (if p = ''docs/a.md'' then slot fs ''index'' else None)"

definition dir_there :: "node \<Rightarrow> string list \<Rightarrow> bool" where
  "dir_there fs q = (case Lstat fs q of Inr (Dir _) \<Rightarrow> True | _ \<Rightarrow> False)"

definition mini_git :: "string \<Rightarrow> process" where
  "mini_git key args env stdin dir fs =
     (let failed = (Some (Errorf ''exit status 128''), ''fatal'', fs); cmd = drop (length git_config) args
      in if \<not> dir_there fs [''ws'', ''.git''] then failed
         else if cmd = ls_tree then (None, if slot fs ''HEAD'' = None then [] else ''docs/a.md'' @ [nul], fs)
         else if cmd = verify_args key then (if slot fs ''ref'' = None then failed else (None, [], fs))
         else if cmd = restore_args ''docs/a.md'' then
           (case slot fs ''HEAD'' of Some n \<Rightarrow> if dir_there fs [''ws'', ''docs''] then (None, [], put fs [''ws'', ''docs'', ''a.md''] n) else failed
            | None \<Rightarrow> failed)
         else if cmd = add_args [''docs/a.md''] then (None, [], set_slot ''index'' (file_at [''ws''] fs ''docs/a.md'') fs)
         else if cmd = commit_args key then (None, [], set_slot ''HEAD'' (slot fs ''index'') fs)
         else if cmd = update_args key then (None, [], set_slot ''ref'' (Some (Reg [])) fs)
         else failed)"

lemma ws_parts: "path_parts ''/ws'' = [''ws'']"
  by code_simp

lemma doc_parts: "Split ''docs/a.md'' slash = [''docs'', ''a.md'']"
  by code_simp

lemma dir_thereE: "dir_there fs q \<Longrightarrow> (\<And>es. Lstat fs q = Inr (Dir es) \<Longrightarrow> P) \<Longrightarrow> P"
  by (auto simp: dir_there_def split: sum.splits node.splits)

lemma slot_file: "slot fs name = Some n \<Longrightarrow> \<not> is_dir n"
  by (auto simp: slot_def split: sum.splits if_splits)

lemma slot_set:
  assumes "dir_there fs [''ws'', ''.git'']" "\<And>n. v = Some n \<Longrightarrow> \<not> is_dir n"
  shows "slot (set_slot x v fs) y = (if x = y then v else slot fs y)"
proof (cases "x = y")
  case True
  obtain es where es: "Lstat fs [''ws'', ''.git''] = Inr (Dir es)" using assms(1) by (rule dir_thereE)
  have "\<exists>e. Lstat (del fs [''ws'', ''.git'', x]) [''ws'', ''.git'', x] = Inl e" using Lstat_del_gone [of "[''ws'', ''.git'', x]" fs "[]"] by simp
  then show ?thesis using True Lstat_put_same [OF es, of x] assms(2) by (auto simp: slot_def set_slot_def split: option.splits)
next
  case False
  then have "parallel [''ws'', ''.git'', y] [''ws'', ''.git'', x]" by (auto simp: parallel_def)
  from Lstat_put_parallel [OF this] Lstat_del_parallel [OF this] False show ?thesis
    by (simp add: slot_def set_slot_def split: option.splits)
qed

lemma set_slot_git: "only_git [''ws''] fs (set_slot x v fs)"
  unfolding only_git_def
proof (intro allI impI)
  fix q assume "parallel q ([''ws''] @ [''.git''])"
  then have "parallel q [''ws'', ''.git'', x]"
    by (auto simp: parallel_def prefix_def Cons_eq_append_conv)
  from Lstat_put_parallel [OF this] Lstat_del_parallel [OF this] show "Lstat (set_slot x v fs) q = Lstat fs q"
    by (simp add: set_slot_def split: option.splits)
qed

lemma slot_elsewhere: "Lstat fs' [''ws'', ''.git''] = Lstat fs [''ws'', ''.git''] \<Longrightarrow> slot fs' x = slot fs x"
  using Lstat_append [of fs' "[''ws'', ''.git'']" "[x]"] Lstat_append [of fs "[''ws'', ''.git'']" "[x]"] by (simp add: slot_def)

lemma commands_differ:
  "restore_args p \<noteq> ls_tree" "restore_args p \<noteq> verify_args key" "restore_args p = restore_args q \<longleftrightarrow> p = q"
  "verify_args key \<noteq> ls_tree" "add_args ns \<noteq> ls_tree" "add_args ns \<noteq> verify_args key" "add_args ns \<noteq> restore_args p"
  "add_args ns = add_args ms \<longleftrightarrow> ns = ms" "commit_args key \<noteq> ls_tree" "commit_args key \<noteq> verify_args key" "commit_args key \<noteq> restore_args p"
  "commit_args key \<noteq> add_args ns" "update_args key \<noteq> ls_tree" "update_args key \<noteq> verify_args key" "update_args key \<noteq> restore_args p"
  "update_args key \<noteq> add_args ns" "update_args key \<noteq> commit_args key" "add_args ns \<noteq> commit_args key" "add_args ns \<noteq> update_args key"
  "restore_args p \<noteq> add_args ns" "restore_args p \<noteq> commit_args key" "restore_args p \<noteq> update_args key"
  by (simp_all add: restore_args_def ls_tree_def verify_args_def add_args_def commit_args_def update_args_def)

lemma mini_laws: "git_laws (mini_git key) ''/ws'' mini_head"
  unfolding git_laws_def ws_parts
proof (intro conjI allI impI)
  fix fs fs' :: node assume "Lstat fs' ([''ws''] @ [''.git'']) = Lstat fs ([''ws''] @ [''.git''])"
  then show "mini_head fs' = mini_head fs" using slot_elsewhere [of fs' fs] by (simp add: mini_head_def fun_eq_iff)
next
  fix fs p n assume "mini_head fs p = Some n"
  then show "\<not> is_dir n" "nul \<notin> set p" "list_all ordinary (Split p slash)"
    using slot_file by (auto simp: mini_head_def nul_def doc_parts ordinary_def split: if_splits)
next
  fix fs p q assume "mini_head fs p \<noteq> None" "mini_head fs q \<noteq> None"
  then show "p = q" by (auto simp: mini_head_def split: if_splits)
next
  fix fs fs' out assume r: "mini_git key (git_config @ ls_tree) git_environ [] ''/ws'' fs = (None, out, fs')"
  then show "fs' = fs" by (simp add: mini_git_def Let_def split: if_splits)
  let ?ns = "if slot fs ''HEAD'' = None then [] else [''docs/a.md'']"
  have "out = concat (map (\<lambda>n. n @ [nul]) ?ns)" using r by (auto simp: mini_git_def Let_def split: if_splits)
  moreover have "set ?ns = {p. mini_head fs p \<noteq> None}" by (auto simp: mini_head_def)
  ultimately show "\<exists>ns. out = concat (map (\<lambda>n. n @ [nul]) ns) \<and> set ns = {p. mini_head fs p \<noteq> None}" by blast
next
  fix fs fs' out p n assume r: "mini_git key (git_config @ restore_args p) git_environ [] ''/ws'' fs = (None, out, fs')" and h: "mini_head fs p = Some n"
  then have p: "p = ''docs/a.md''" "slot fs ''HEAD'' = Some n" by (auto simp: mini_head_def split: if_splits)
  have d: "dir_there fs [''ws'', ''docs'']" and fs': "fs' = put fs [''ws'', ''docs'', ''a.md''] n"
    using r p(2) by (auto simp: mini_git_def Let_def commands_differ p(1) split: if_splits)
  obtain es where es: "Lstat fs [''ws'', ''docs''] = Inr (Dir es)" using d by (rule dir_thereE)
  have "parallel [''ws'', ''.git''] [''ws'', ''docs'', ''a.md'']" by (simp add: parallel_def)
  then have "slot fs' x = slot fs x" for x by (intro slot_elsewhere) (simp add: fs' Lstat_put_parallel)
  then show "mini_head fs' = mini_head fs" by (simp add: mini_head_def fun_eq_iff)
  show "Lstat fs' ([''ws''] @ Split p slash) = Inr n" using Lstat_put_same [OF es, of "''a.md''" n] by (simp add: p doc_parts fs')
  show "Lstat fs' q = Lstat fs q" if "parallel q ([''ws''] @ Split p slash)" for q
    using Lstat_put_parallel that by (simp add: p doc_parts fs')
qed

lemma mini_commit_laws: "commit_laws (mini_git key) ''/ws'' mini_head mini_index key"
  unfolding commit_laws_def ws_parts
proof (intro conjI allI impI)
  fix fs e out fs' assume "mini_git key (git_config @ verify_args key) git_environ [] ''/ws'' fs = (e, out, fs')"
  then show "fs' = fs" by (simp add: mini_git_def Let_def commands_differ split: if_splits)
next
  fix fs names out fs' assume "mini_git key (git_config @ add_args names) git_environ [] ''/ws'' fs = (None, out, fs')"
  then have n: "names = [''docs/a.md'']" and d: "dir_there fs [''ws'', ''.git'']" and fs': "fs' = set_slot ''index'' (file_at [''ws''] fs ''docs/a.md'') fs"
    by (auto simp: mini_git_def Let_def commands_differ split: if_splits)
  have f: "file_at [''ws''] fs ''docs/a.md'' = Some m \<Longrightarrow> \<not> is_dir m" for m by (auto simp: file_at_def split: sum.splits if_splits)
  show "only_git [''ws''] fs fs'" by (simp add: fs' set_slot_git)
  show "mini_head fs' = mini_head fs" using slot_set [OF d f] by (simp add: fs' mini_head_def fun_eq_iff)
  show "mini_index fs' = (\<lambda>p. if p \<in> set names then file_at [''ws''] fs p else mini_index fs p)"
    using slot_set [OF d f] by (simp add: fs' mini_index_def n fun_eq_iff)
next
  fix fs out fs' assume "mini_git key (git_config @ commit_args key) git_environ [] ''/ws'' fs = (None, out, fs')"
  then have d: "dir_there fs [''ws'', ''.git'']" and fs': "fs' = set_slot ''HEAD'' (slot fs ''index'') fs"
    by (auto simp: mini_git_def Let_def commands_differ split: if_splits)
  show "only_git [''ws''] fs fs'" by (simp add: fs' set_slot_git)
  show "mini_head fs' = mini_index fs" "mini_index fs' = mini_index fs"
    using slot_set [OF d slot_file] by (simp_all add: fs' mini_head_def mini_index_def fun_eq_iff)
next
  fix fs out fs' assume "mini_git key (git_config @ update_args key) git_environ [] ''/ws'' fs = (None, out, fs')"
  then have d: "dir_there fs [''ws'', ''.git'']" and fs': "fs' = set_slot ''ref'' (Some (Reg [])) fs"
    by (auto simp: mini_git_def Let_def commands_differ split: if_splits)
  have s: "slot fs' y = (if y = ''ref'' then Some (Reg []) else slot fs y)" for y using slot_set [OF d, of "Some (Reg [])" "''ref''" y] by (simp add: fs')
  show "only_git [''ws''] fs fs'" by (simp add: fs' set_slot_git)
  show "mini_head fs' = mini_head fs" "mini_index fs' = mini_index fs" by (simp_all add: s mini_head_def mini_index_def fun_eq_iff)
  obtain es where es: "Lstat fs [''ws'', ''.git''] = Inr (Dir es)" using d by (rule dir_thereE)
  have "dir_there fs' [''ws'', ''.git'']" using Lstat_put_same [OF es, of "''ref''" "Reg []"] Lstat_prefix [of fs' "[''ws'', ''.git'', ''ref'']" "Reg []" "[''ws'', ''.git'']"]
    by (auto simp: fs' set_slot_def dir_there_def strict_prefix_def)
  then show "fst (mini_git key (git_config @ verify_args key) git_environ [] ''/ws'' fs') = None"
    by (simp add: mini_git_def Let_def commands_differ s)
qed

end
