(* ===== verification/Workspace_Laws.thy ===== *)
theory Workspace_Laws
  imports Mini_Git
begin

text \<open>The properties of the workspace: resets, checkpoints, the stored definition and the removal of orphans.\<close>

section \<open>Resetting\<close>

text \<open>
  C30. Resetting brings a stage back to the last checkpoint: when \<open>Reset\<close> succeeds, every path the stage owns holds
  the file of the last commit, or no file when the commit has none, whatever files and directories a previous
  run left behind, and every other file that does not stand in the way of an owned one is as before. The hypothesis
  \<open>git_laws\<close> is what git documents of \<open>ls-tree\<close> and \<open>restore\<close>.
\<close>

theorem reset_restores:
  assumes "git_laws run dir head" "Reset run G dir patterns fs = (Inr (), fs')"
    and "named fs" "EvalSymlinks fs (path_parts dir) = Inr (path_parts dir)"
  shows "(\<forall>p. owned G p patterns \<longrightarrow> list_all ordinary (Split p slash) \<longrightarrow> as_committed (path_parts dir) (head fs) p fs') \<and>
    (\<forall>qs n. Lstat fs (path_parts dir @ qs) = Inr n \<longrightarrow> \<not> is_dir n \<longrightarrow> \<not> prefix [''.git''] qs \<longrightarrow> \<not> owned G (rel_name qs) patterns \<longrightarrow>
      (\<forall>p. owned G p patterns \<longrightarrow> head fs p \<noteq> None \<longrightarrow> parallel qs (Split p slash)) \<longrightarrow> Lstat fs' (path_parts dir @ qs) = Inr n)"
proof -
  obtain names base fs1 root where f: "files run G dir patterns fs = (Inr (names, base), fs1)"
    and root: "bindR (OpenRoot fs1 dir) (\<lambda>_. EvalSymlinks fs1 (path_parts dir)) = Inr root"
    and l: "eachF (reset_path run dir root base) names fs1 = (Inr (), fs')"
    using assms(2) by (auto simp: Reset_def bindF_eq askF_def)
  have fs1: "fs1 = fs" by (rule files_same [OF assms(1) f])
  then have r: "root = path_parts dir" using root assms(4) by (auto simp: bindR_eq_Inr)
  obtain n v where n: "Lstat fs (path_parts dir) = Inr n"
    "(case n of Dir _ \<Rightarrow> Inr (path_parts dir) | _ \<Rightarrow> Inl (Errorf ''not a directory'')) = Inr v"
    using root assms(4) fs1 by (auto simp: OpenRoot_def bindR_eq_Inr)
  then obtain des where d: "Lstat fs (path_parts dir) = Inr (Dir des)" by (cases n) auto
  note F = files_Inr [OF assms(1) f assms(3) d]
  have names: "reset_names head base fs names" using F(4,5) by (auto simp: reset_names_def owned_def)
  note loop = l [unfolded fs1 r]
  have "as_committed (path_parts dir) (head fs) p fs'" if o: "owned G p patterns" "list_all ordinary (Split p slash)" for p
  proof (cases "p \<in> set names")
    case True
    then show ?thesis by (rule done_loop [OF assms(1) loop names F(2,3)])
  next
    case False
    have p: "rel_name (Split p slash) = p" using Join_Split [of p slash] by (simp add: rel_name_def)
    have none: "head fs p = None" using F(6) [OF o(1)] False by blast
    then have "as_committed (path_parts dir) (head fs) p fs"
      using F(7) [of "Split p slash"] o(1) p False by (auto simp: as_committed_def)
    then show ?thesis using keep_loop [OF assms(1) loop names _ False] o(1) none by (auto simp: owned_def)
  qed
  moreover have "Lstat fs' (path_parts dir @ qs) = Inr n"
    if "Lstat fs (path_parts dir @ qs) = Inr n" "\<not> is_dir n" "\<not> prefix [''.git''] qs" "\<not> owned G (rel_name qs) patterns"
      "\<forall>p. owned G p patterns \<longrightarrow> head fs p \<noteq> None \<longrightarrow> parallel qs (Split p slash)" for qs n
  proof (rule spare_loop [OF assms(1) loop names that(1-3)])
    show "qs \<noteq> Split p slash" if "p \<in> set names" for p
    proof
      assume "qs = Split p slash"
      then have "rel_name qs = p" using Join_Split [of p slash] by (simp add: rel_name_def)
      then show False using F(5) [OF that] \<open>\<not> owned G (rel_name qs) patterns\<close> by simp
    qed
    show "parallel qs (Split p slash)" if "p \<in> set base" for p using F(4) [of p] that \<open>\<forall>p. owned G p patterns \<longrightarrow> _\<close> by blast
  qed
  ultimately show ?thesis by blast
qed

text \<open>The workspace after a run that changed its file and left another one behind.\<close>

definition run_tree :: node where
  "run_tree = Dir [(''ws'', Dir [(''.git'', Dir [(''HEAD'', Reg ''old''), (''index'', Reg ''old'')]),
     (''docs'', Dir [(''a.md'', Reg ''new''), (''b.md'', Reg ''junk'')]), (''src'', Dir [(''m.go'', Reg ''m'')])])]"

definition in_docs :: "string \<Rightarrow> string \<Rightarrow> bool" where
  "in_docs name p = HasPrefix name ''docs/''"

definition docs_file :: "string \<Rightarrow> bool" where
  "docs_file p = owned in_docs p [''docs/**'']"

lemma docs_file: "(\<lambda>p. owned in_docs p [''docs/**'']) = docs_file"
  by (simp add: docs_file_def fun_eq_iff)

lemma open_docs: "\<not> Protected ''docs''"
  by code_simp

lemma open_a: "\<not> Protected ''docs/a.md''"
  by code_simp

lemma open_b: "\<not> Protected ''docs/b.md''"
  by code_simp

lemma open_src: "\<not> Protected ''src''"
  by code_simp

lemma open_m: "\<not> Protected ''src/m.go''"
  by code_simp

lemmas open_names = not_Protected_dot git_part open_docs open_a open_b open_src open_m

lemma docs_files: "docs_file ''docs/a.md''" "docs_file ''docs/b.md''" "\<not> docs_file ''src/m.go''"
  by (simp_all add: docs_file_def owned_def open_names in_docs_def HasPrefix_def)

lemma run_walk: "walk_owned docs_file [] (Dir [(''.git'', Dir [(''HEAD'', Reg ''old''), (''index'', Reg ''old'')]),
     (''docs'', Dir [(''a.md'', Reg ''new''), (''b.md'', Reg ''junk'')]), (''src'', Dir [(''m.go'', Reg ''m'')])]) = [''docs/a.md'', ''docs/b.md'']"
  by (simp add: rel_name_def open_names docs_files)

lemma run_sort: "sort (remdups ([''docs/a.md''] @ [''docs/a.md'', ''docs/b.md''])) = [''docs/a.md'', ''docs/b.md'']"
  by code_simp

lemma run_tracked: "Split (TrimSuffix (''docs/a.md'' @ [nul]) [CHR 0x0A]) nul = [''docs/a.md'', []]"
  by code_simp

lemma run_files: "files (mini_git key) in_docs ''/ws'' [''docs/**''] run_tree = (Inr ([''docs/a.md'', ''docs/b.md''], [''docs/a.md'']), run_tree)"
proof -
  have "git (mini_git key) ''/ws'' ls_tree run_tree = (Inr (TrimSuffix (''docs/a.md'' @ [nul]) [CHR 0x0A]), run_tree)"
    by (simp add: git_def gitEnv_def mini_git_def dir_there_def slot_def run_tree_def)
  moreover have "Lstat run_tree [''ws''] = Inr (Dir [(''.git'', Dir [(''HEAD'', Reg ''old''), (''index'', Reg ''old'')]),
     (''docs'', Dir [(''a.md'', Reg ''new''), (''b.md'', Reg ''junk'')]), (''src'', Dir [(''m.go'', Reg ''m'')])])"
    by (simp add: run_tree_def)
  moreover have "filter (\<lambda>p. p \<noteq> [] \<and> docs_file p) [''docs/a.md'', []] = [''docs/a.md'']" using docs_files(1) by simp
  ultimately show ?thesis
    unfolding files_def docs_file docs_file_def [symmetric] by (simp only: bindF_def prod.case sum.case run_tracked askF_def ws_parts run_walk run_sort retF_def Let_def)
qed

lemma run_round_a: "reset_path (mini_git ''s'') ''/ws'' [''ws''] [''docs/a.md''] ''docs/a.md'' run_tree = (Inr (), put run_tree [''ws'', ''docs'', ''a.md''] (Reg ''old''))"
  by code_simp

lemma run_round_b: "fst (reset_path (mini_git ''s'') ''/ws'' [''ws''] [''docs/a.md''] ''docs/b.md'' (put run_tree [''ws'', ''docs'', ''a.md''] (Reg ''old''))) = Inr ()"
  by code_simp

lemma run_root: "bindR (OpenRoot run_tree ''/ws'') (\<lambda>_. EvalSymlinks run_tree (path_parts ''/ws'')) = Inr [''ws'']"
  by code_simp

lemma run_reset: "fst (Reset (mini_git ''s'') in_docs ''/ws'' [''docs/**''] run_tree) = Inr ()"
  using run_round_a run_round_b
  by (auto simp: Reset_def bindF_def run_files askF_def run_root retF_def split: prod.splits sum.splits)

lemma run_named: "named run_tree"
  by code_simp

theorem reset_restores_witness:
  "let fs' = snd (Reset (mini_git ''s'') in_docs ''/ws'' [''docs/**''] run_tree)
   in Lstat fs' [''ws'', ''docs'', ''a.md''] = Inr (Reg ''old'') \<and> (\<forall>n. Lstat fs' [''ws'', ''docs'', ''b.md''] = Inr n \<longrightarrow> is_dir n) \<and>
      Lstat fs' [''ws'', ''src'', ''m.go''] = Inr (Reg ''m'')"
proof -
  let ?r = "Reset (mini_git ''s'') in_docs ''/ws'' [''docs/**''] run_tree"
  have run: "?r = (Inr (), snd ?r)" using run_reset by (metis prod.collapse)
  have ev: "EvalSymlinks run_tree (path_parts ''/ws'') = Inr (path_parts ''/ws'')" by code_simp
  note R = reset_restores [OF mini_laws run run_named ev]
  have s: "Split ''docs/b.md'' slash = [''docs'', ''b.md'']" by code_simp
  have h: "mini_head run_tree = (\<lambda>p. if p = ''docs/a.md'' then Some (Reg ''old'') else None)"
    by (simp add: mini_head_def slot_def run_tree_def fun_eq_iff)
  have o: "\<not> owned in_docs (rel_name [''src'', ''m.go'']) [''docs/**'']" using docs_files(3) by (simp add: rel_name_def docs_file_def)
  have ord: "list_all ordinary (Split ''docs/a.md'' slash)" "list_all ordinary (Split ''docs/b.md'' slash)"
    by (simp_all add: doc_parts s ordinary_def)
  have c: "as_committed [''ws''] (mini_head run_tree) ''docs/a.md'' (snd ?r)" "as_committed [''ws''] (mini_head run_tree) ''docs/b.md'' (snd ?r)"
    using R docs_files [unfolded docs_file_def] ord by (simp_all add: ws_parts)
  have m: "Lstat run_tree ([''ws''] @ [''src'', ''m.go'']) = Inr (Reg ''m'')" by (simp add: run_tree_def)
  have "Lstat (snd ?r) ([''ws''] @ [''src'', ''m.go'']) = Inr (Reg ''m'')"
    using R m o unfolding ws_parts h by (auto simp: doc_parts parallel_def split: if_splits)
  with c show ?thesis by (simp add: as_committed_def h doc_parts s Let_def)
qed

section \<open>Checkpoints\<close>


text \<open>The workspace of a stage whose only file has been rewritten.\<close>

definition edit_tree :: node where
  "edit_tree = Dir [(''ws'', Dir [(''.git'', Dir [(''HEAD'', Reg ''old''), (''index'', Reg ''old'')]), (''docs'', Dir [(''a.md'', Reg ''new'')])])]"

lemma edit_walk: "walk_owned docs_file [] (Dir [(''.git'', Dir [(''HEAD'', Reg ''old''), (''index'', Reg ''old'')]), (''docs'', Dir [(''a.md'', Reg ''new'')])]) = [''docs/a.md'']"
  by (simp add: rel_name_def open_names docs_files)

lemma edit_files: "files (mini_git key) in_docs ''/ws'' [''docs/**''] edit_tree = (Inr ([''docs/a.md''], [''docs/a.md'']), edit_tree)"
proof -
  have "git (mini_git key) ''/ws'' ls_tree edit_tree = (Inr (TrimSuffix (''docs/a.md'' @ [nul]) [CHR 0x0A]), edit_tree)"
    by (simp add: git_def gitEnv_def mini_git_def dir_there_def slot_def edit_tree_def)
  moreover have "Lstat edit_tree [''ws''] = Inr (Dir [(''.git'', Dir [(''HEAD'', Reg ''old''), (''index'', Reg ''old'')]), (''docs'', Dir [(''a.md'', Reg ''new'')])])"
    by (simp add: edit_tree_def)
  moreover have "filter (\<lambda>p. p \<noteq> [] \<and> docs_file p) [''docs/a.md'', []] = [''docs/a.md'']" using docs_files(1) by simp
  moreover have "sort (remdups ([''docs/a.md''] @ [''docs/a.md''])) = [''docs/a.md'']" by simp
  ultimately show ?thesis
    unfolding files_def docs_file docs_file_def [symmetric] by (simp only: bindF_def prod.case sum.case run_tracked askF_def ws_parts edit_walk retF_def Let_def)
qed

lemma edit_git: "dir_there edit_tree [''ws'', ''.git'']" "slot edit_tree ''ref'' = None" "slot edit_tree ''HEAD'' = Some (Reg ''old'')"
  "slot edit_tree ''index'' = Some (Reg ''old'')" "file_at [''ws''] edit_tree ''docs/a.md'' = Some (Reg ''new'')"
  by (simp_all add: edit_tree_def dir_there_def slot_def file_at_def doc_parts)

lemma put_git: "dir_there fs [''ws'', ''.git''] \<Longrightarrow> dir_there (put fs [''ws'', ''.git'', x] n) [''ws'', ''.git'']"
proof -
  assume "dir_there fs [''ws'', ''.git'']"
  then obtain es where es: "Lstat fs [''ws'', ''.git''] = Inr (Dir es)" by (rule dir_thereE)
  show ?thesis using Lstat_put_same [OF es, of x n] Lstat_prefix [of "put fs [''ws'', ''.git'', x] n" "[''ws'', ''.git'', x]" n "[''ws'', ''.git'']"]
    by (auto simp: dir_there_def strict_prefix_def)
qed

lemma edit_accept: "fst (Accept (mini_git ''s'') in_docs ''/ws'' ''s'' [''docs/**''] edit_tree) = Inr ()"
proof -
  let ?t = "put edit_tree [''ws'', ''.git'', ''index''] (Reg ''new'')"
  have "slot ?t ''index'' = Some (Reg ''new'')"
    using slot_set [OF edit_git(1), of "Some (Reg ''new'')" "''index''" "''index''"] by (simp add: set_slot_def)
  then show ?thesis using edit_git put_git
    by (simp add: Accept_def bindF_def git_def gitEnv_def mini_git_def Let_def commands_differ edit_files set_slot_def retF_def)
qed


section \<open>The stored definition\<close>

lemma Lstat_dir_snoc: "Lstat fs (d @ [p]) = Inr n \<Longrightarrow> \<exists>es. Lstat fs d = Inr (Dir es)"
  using Lstat_prefix [of fs "d @ [p]" n d] by (simp add: strict_prefix_def)

lemma Lstat_butlast: "Lstat fs d = Inr (Dir es) \<Longrightarrow> Lstat fs [] = Inr (Dir es0) \<Longrightarrow> \<exists>es'. Lstat fs (butlast d) = Inr (Dir es')"
  using Lstat_dir_snoc [of fs "butlast d" "last d"] by (cases "d = []") auto

text \<open>What a path resolves to: no link, and missing only as an entry of a directory.\<close>

lemma follow_end:
  "follow None True k fs d ps = Inr q \<Longrightarrow> Lstat fs d = Inr (Dir es) \<Longrightarrow> Lstat fs [] = Inr (Dir es0) \<Longrightarrow>
     (\<exists>es'. Lstat fs q = Inr (Dir es')) \<or> (\<exists>c. Lstat fs q = Inr (Reg c)) \<or> Lstat fs q = Inl ErrNotExist"
proof (induction "None :: string list option" "True" k fs d ps arbitrary: es rule: follow.induct)
  case (2 k fs d p ps)
  consider "p = [] \<or> p = ''.''" | "p = ''..''" | "p \<noteq> []" "p \<noteq> ''.''" "p \<noteq> ''..''" by blast
  then show ?case
  proof cases
    case 1
    then show ?thesis using 2 by auto
  next
    case 2
    then show ?thesis using "2.hyps"(2) "2.prems" Lstat_butlast [OF "2.prems"(2,3)] by auto
  next
    case 3
    show ?thesis
    proof (cases "Lstat fs (d @ [p])")
      case (Inl e)
      then show ?thesis using 3 "2.prems"(1) by (auto split: if_splits)
    next
      case (Inr n)
      then show ?thesis using 3 "2.prems" "2.hyps"(3-) by (cases n) (auto split: if_splits nat.splits)
    qed
  qed
qed auto

text \<open>A file written through links is found again through them.\<close>

lemma follow_put:
  "follow None True k fs d ps = Inr q \<Longrightarrow> Lstat fs d = Inr (Dir es) \<Longrightarrow> Lstat fs [] = Inr (Dir es0) \<Longrightarrow>
     (\<And>es'. Lstat fs q \<noteq> Inr (Dir es')) \<Longrightarrow>
     follow None False k (put fs q (Reg c)) d ps = Inr q \<and> Lstat (put fs q (Reg c)) q = Inr (Reg c)"
proof (induction "None :: string list option" "True" k fs d ps arbitrary: es rule: follow.induct)
  case (2 k fs d p ps)
  let ?fs = "put fs q (Reg c)"
  have q: "(\<exists>c. Lstat fs q = Inr (Reg c)) \<or> Lstat fs q = Inl ErrNotExist" using follow_end [OF "2.prems"(1-3)] "2.prems"(4) by blast
  have other: "\<exists>m'. Lstat ?fs r = Inr m' \<and> (m' = m \<or> (\<exists>es es'. m = Dir es \<and> m' = Dir es'))" if "Lstat fs r = Inr m" "r \<noteq> q" for r m
    using that q Lstat_put_other [of fs r m q _ "Reg c"] by blast
  have here: "q = d @ [p] \<Longrightarrow> Lstat ?fs q = Inr (Reg c)" using Lstat_put_same [OF "2.prems"(2)] by simp
  consider "p = [] \<or> p = ''.''" | "p = ''..''" | "p \<noteq> []" "p \<noteq> ''.''" "p \<noteq> ''..''" by blast
  then show ?case
  proof cases
    case 1
    then show ?thesis using 2 by auto
  next
    case 2
    then show ?thesis using "2.hyps"(2) "2.prems" Lstat_butlast [OF "2.prems"(2,3)] by auto
  next
    case 3
    show ?thesis
    proof (cases "Lstat fs (d @ [p])")
      case (Inl e)
      with 3 "2.prems"(1) have "q = d @ [p]" "ps = []" by (auto split: if_splits)
      with here 3 show ?thesis by simp
    next
      case (Inr n)
      show ?thesis
      proof (cases n)
        case (Reg x)
        with Inr 3 "2.prems"(1) have "q = d @ [p]" "ps = []" by (auto split: if_splits)
        with here 3 show ?thesis by simp
      next
        case (Lnk l)
        then have "d @ [p] \<noteq> q" using Inr q by auto
        from other [OF Inr this] Lnk have "Lstat ?fs (d @ [p]) = Inr (Lnk l)" by auto
        then show ?thesis using Inr Lnk 3 "2.prems" "2.hyps"(3-) by (auto split: if_splits nat.splits)
      next
        case (Dir des)
        then have "d @ [p] \<noteq> q" using Inr "2.prems"(4) by auto
        from other [OF Inr this] Dir obtain es' where "Lstat ?fs (d @ [p]) = Inr (Dir es')" by auto
        then show ?thesis using Inr Dir 3 "2.prems" "2.hyps"(3-) by (auto split: if_splits nat.splits)
      qed
    qed
  qed
qed auto

lemma WriteFile_ReadFile:
  assumes "WriteFile ps content fs = (Inr (), fs')" "fs = Dir es0"
  shows "ReadFile_abs ps fs' = (Inr content, fs')"
proof -
  obtain q where q: "follow None True 255 fs [] ps = Inr q" "\<And>es'. Lstat fs q \<noteq> Inr (Dir es')" "fs' = put fs q (Reg content)"
    using assms(1) by (auto simp: WriteFile_def split: sum.splits node.splits)
  from follow_put [OF q(1) _ _ q(2)] assms(2) q(3) show ?thesis by (simp add: ReadFile_abs_def askF_def EvalSymlinks_def)
qed

lemma put_dir: "is_dir fs \<Longrightarrow> ps \<noteq> [] \<Longrightarrow> is_dir (put fs ps n)"
  by (cases fs; cases ps) (auto split: option.splits)

lemma MkdirAll_dir: "MkdirAll ps fs = (r, fs') \<Longrightarrow> is_dir fs \<Longrightarrow> is_dir fs'"
proof (induction ps fs arbitrary: r fs' rule: MkdirAll.induct)
  case (1 ps fs)
  then show ?case using put_dir by (subst (asm) (2) MkdirAll.simps) (auto split: sum.splits node.splits if_splits prod.splits)
qed

text \<open>
  C34. What is stored is loaded: after \<open>SaveDefinition\<close> has succeeded, \<open>LoadDefinition\<close> returns the same definition with
  the directory as its workspace, also when the way to the file leads through symbolic links. The
  hypothesis is that the JSON decoder reads what the encoder has written.
\<close>

theorem definition_read_back:
  assumes "SaveDefinition marshal dir d fs = (Inr (), fs')" "is_dir fs"
    and "\<And>b. marshal d = Inr b \<Longrightarrow> unmarshal b = Inr d"
  shows "LoadDefinition_file unmarshal dir fs' = (Inr (d\<lparr>df_Workspace := dir\<rparr>), fs')"
proof -
  obtain b fs1 where b: "marshal d = Inr b" "MkdirAll (runtime_dir dir) fs = (Inr (), fs1)"
    and w: "WriteFile (runtime_dir dir @ [''definition.json'']) b fs1 = (Inr (), fs')"
    using assms(1) by (auto simp: SaveDefinition_def bindF_eq askF_def)
  obtain es where "fs1 = Dir es" using MkdirAll_dir [OF b(2) assms(2)] by (rule is_dirE)
  from WriteFile_ReadFile [OF w this] assms(3) [OF b(1)] show ?thesis
    by (simp add: LoadDefinition_file_def bindF_def askF_def retF_def)
qed

definition stored :: Definition where
  "stored = \<lparr>df_Pipeline = default_Pipeline, df_Agents = [], df_ProjectSpec = ''spec'', df_Workspace = ''/elsewhere''\<rparr>"

definition ws_only :: node where
  "ws_only = Dir [(''etc'', Dir []), (''ws'', Dir [])]"

lemma ws_runtime: "runtime_dir ''/ws'' = [''ws'', ''.devsquad-runtime'']"
  by code_simp

lemma make_ws: "MkdirAll [''ws'', ''.devsquad-runtime''] ws_only = (Inr (), Dir [(''etc'', Dir []), (''ws'', Dir [(''.devsquad-runtime'', Dir [])])])"
  by (simp add: MkdirAll.simps ws_only_def EvalSymlinks_def)

lemma save_ws: "fst (SaveDefinition (\<lambda>d. Inr ''json'') ''/ws'' stored ws_only) = Inr ()"
  by (simp add: SaveDefinition_def bindF_def askF_def ws_runtime make_ws WriteFile_def)

theorem definition_read_back_witness:
  "\<exists>fs'. SaveDefinition (\<lambda>d. Inr ''json'') ''/ws'' stored ws_only = (Inr (), fs') \<and>
     LoadDefinition_file (\<lambda>b. Inr stored) ''/ws'' fs' = (Inr (stored\<lparr>df_Workspace := ''/ws''\<rparr>), fs')"
proof -
  obtain fs' where s: "SaveDefinition (\<lambda>d. Inr ''json'') ''/ws'' stored ws_only = (Inr (), fs')" using save_ws by (metis prod.collapse)
  have "is_dir ws_only" by (simp add: ws_only_def)
  have "LoadDefinition_file (\<lambda>b. Inr stored) ''/ws'' fs' = (Inr (stored\<lparr>df_Workspace := ''/ws''\<rparr>), fs')"
    by (rule definition_read_back [OF s \<open>is_dir ws_only\<close>]) simp
  with s show ?thesis by blast
qed

text \<open>
  The definition is written through a symbolic link: in a cloned repository whose \<open>.devsquad-runtime\<close> is a link, the
  file is created in the directory the link points to, outside the workspace.
\<close>

theorem runtime_link_escapes:
  "SaveDefinition (\<lambda>d. Inr ''json'') ''/ws'' stored (Dir [(''etc'', Dir []), (''ws'', Dir [(''.devsquad-runtime'', Lnk ''/etc'')])]) =
     (Inr (), Dir [(''etc'', Dir [(''definition.json'', Reg ''json'')]), (''ws'', Dir [(''.devsquad-runtime'', Lnk ''/etc'')])])"
  by (simp add: SaveDefinition_def bindF_def askF_def ws_runtime MkdirAll.simps WriteFile_def EvalSymlinks_def IsAbs_def HasPrefix_def)

section \<open>Orphans\<close>

text \<open>What \<open>Cleanup\<close> must not touch: known tasks, foreign names, files, and what has been modified within the hour.\<close>

definition spared :: "(string \<Rightarrow> bool) \<Rightarrow> (string \<Rightarrow> int result) \<Rightarrow> string list \<Rightarrow> int \<Rightarrow> string \<Rightarrow> node \<Rightarrow> bool" where
  "spared uuid_ok info known now name n \<longleftrightarrow> \<not> is_dir n \<or> name \<in> set known \<or> \<not> uuid_ok name \<and> \<not> HasPrefix name ''.preparing-'' \<or>
     (\<exists>m. info name = Inr m \<and> now - m < 3600 * 1000000000)"

lemma clean_entry_cases:
  assumes "clean_entry uuid_ok info root known now (name, n) fs = (r, fs')"
  shows "spared uuid_ok info known now name n \<and> fs' = fs \<and> r = Inr () \<or>
    \<not> spared uuid_ok info known now name n \<and> (fs' = del fs (root @ [name]) \<and> r = Inr () \<or> fs' = fs \<and> (\<exists>e. r = Inl e))"
  using assms by (auto simp: clean_entry_def spared_def bindF_eq askF_def retF_def hour_def split: if_splits)

lemma Lstat_del_Inr: "ps \<noteq> [] \<Longrightarrow> Lstat (del fs ps) q = Inr m \<Longrightarrow> \<exists>m'. Lstat fs q = Inr m'"
proof (rule ccontr)
  assume ps: "ps \<noteq> []" and m: "Lstat (del fs ps) q = Inr m" and "\<nexists>m'. Lstat fs q = Inr m'"
  then obtain e where e: "Lstat fs q = Inl e" by (cases "Lstat fs q") auto
  show False
  proof (rule path_relation [of q ps])
    assume "q = ps"
    then show False using Lstat_del_gone [OF ps, of fs "[]"] m by auto
  next
    assume "strict_prefix ps q"
    then obtain r where "q = ps @ r" by (auto simp: strict_prefix_def prefix_def)
    then show False using Lstat_del_gone [OF ps, of fs r] m by auto
  next
    assume "strict_prefix q ps"
    then show False using Lstat_del_missing [OF _ e] m by fastforce
  next
    assume "parallel q ps"
    then show False using Lstat_del_parallel e m by fastforce
  qed
qed

lemma clean_loop:
  "eachF (clean_entry uuid_ok info root known now) es fs = (r, fs') \<Longrightarrow>
     (\<forall>q. (\<forall>(name, n)\<in>set es. \<not> spared uuid_ok info known now name n \<longrightarrow> parallel q (root @ [name])) \<longrightarrow> Lstat fs' q = Lstat fs q) \<and>
     (\<forall>q m. Lstat fs' q = Inr m \<longrightarrow> (\<exists>m'. Lstat fs q = Inr m')) \<and>
     (r = Inr () \<longrightarrow> (\<forall>(name, n)\<in>set es. \<not> spared uuid_ok info known now name n \<longrightarrow> (\<exists>e. Lstat fs' (root @ [name]) = Inl e)))"
proof (induction es arbitrary: fs)
  case (Cons e es)
  obtain name n where e: "e = (name, n)" by (cases e)
  let ?sp = "spared uuid_ok info known now"
  show ?case
  proof (cases "\<exists>fs1. clean_entry uuid_ok info root known now e fs = (Inr (), fs1)")
    case True
    then obtain fs1 where s: "clean_entry uuid_ok info root known now (name, n) fs = (Inr (), fs1)" using e by blast
    with Cons.prems e have rest: "eachF (clean_entry uuid_ok info root known now) es fs1 = (r, fs')" by (simp add: bindF_def)
    note IH = Cons.IH [OF rest]
    from clean_entry_cases [OF s] consider "?sp name n" "fs1 = fs" | "\<not> ?sp name n" "fs1 = del fs (root @ [name])" by auto
    then show ?thesis
    proof cases
      case 1
      with IH e show ?thesis by auto
    next
      case 2
      have same: "parallel q (root @ [name]) \<Longrightarrow> Lstat fs1 q = Lstat fs q" for q using 2(2) Lstat_del_parallel by simp
      have was: "Lstat fs1 q = Inr m \<Longrightarrow> \<exists>m'. Lstat fs q = Inr m'" for q m using 2(2) Lstat_del_Inr [of "root @ [name]"] by simp
      have "\<exists>e. Lstat fs1 (root @ [name]) = Inl e" using Lstat_del_gone [of "root @ [name]" fs "[]"] 2(2) by simp
      then have "\<exists>e. Lstat fs' (root @ [name]) = Inl e" using IH by (cases "Lstat fs' (root @ [name])") fastforce+
      with IH e 2(1) same was show ?thesis by (auto split: prod.splits)
    qed
  next
    case False
    then obtain e' fs1 where s: "clean_entry uuid_ok info root known now (name, n) fs = (Inl e', fs1)"
      using e by (cases "clean_entry uuid_ok info root known now e fs"; cases "fst (clean_entry uuid_ok info root known now e fs)") auto
    then have "fs1 = fs" using clean_entry_cases [OF s] by auto
    with s Cons.prems e show ?thesis by (auto simp: bindF_def)
  qed
qed (auto simp: retF_def)

text \<open>
  C33. \<open>Cleanup\<close> never removes what it must keep: the directory of a known task, anything whose name is neither a task
  identifier nor that of a preparation, files, and what was modified within the last hour stay as they are, with everything
  below them, also when it stops with an error; nothing outside the root changes, and after a success every other
  entry is gone.
\<close>

theorem cleanup_spares:
  assumes "Cleanup uuid_ok info root known now fs = (r, fs')" "Lstat fs root = Inr (Dir es)" "distinct (map fst es)"
  shows "(\<forall>q. parallel q root \<longrightarrow> Lstat fs' q = Lstat fs q) \<and>
    (\<forall>(name, n)\<in>set es. if spared uuid_ok info known now name n then \<forall>qs. Lstat fs' (root @ name # qs) = Lstat fs (root @ name # qs)
       else r = Inr () \<longrightarrow> (\<exists>e. Lstat fs' (root @ [name]) = Inl e))"
proof -
  have "eachF (clean_entry uuid_ok info root known now) es fs = (r, fs')" using assms(1,2) by (simp add: Cleanup_def)
  note L = clean_loop [OF this]
  have "Lstat fs' q = Lstat fs q" if "parallel q root" for q
    using L that by (auto simp: parallel_def prefix_def append_eq_append_conv2 split: prod.splits)
  moreover have "Lstat fs' (root @ name # qs) = Lstat fs (root @ name # qs)" if "(name, n) \<in> set es" "spared uuid_ok info known now name n" for name n qs
  proof -
    have "parallel (root @ name # qs) (root @ [x])" if "(x, k) \<in> set es" "\<not> spared uuid_ok info known now x k" for x k
    proof -
      have "x \<noteq> name" using that \<open>(name, n) \<in> set es\<close> \<open>spared uuid_ok info known now name n\<close> assms(3) eq_key_imp_eq_value by metis
      then show ?thesis by (simp add: parallel_append) (simp add: parallel_def)
    qed
    then show ?thesis using L by blast
  qed
  ultimately show ?thesis using L by (auto split: prod.splits)
qed

theorem cleanup_spares_witness:
  "let fs' = snd (Cleanup (\<lambda>name. length name = 2) (\<lambda>name. Inr 0) [''ws''] [''t1''] (7200 * 1000000000)
      (Dir [(''ws'', Dir [(''t1'', Dir [(''f'', Reg ''x'')]), (''t2'', Dir []), (''notes'', Dir [])])]))
   in Lstat fs' [''ws'', ''t1'', ''f''] = Inr (Reg ''x'') \<and> (\<exists>e. Lstat fs' [''ws'', ''t2''] = Inl e)"
proof -
  let ?es = "[(''t1'', Dir [(''f'', Reg ''x'')]), (''t2'', Dir []), (''notes'', Dir [])]"
  let ?c = "Cleanup (\<lambda>name. length name = 2) (\<lambda>name. Inr 0) [''ws''] [''t1''] (7200 * 1000000000) (Dir [(''ws'', Dir ?es)])"
  have ok: "?c = (Inr (), snd ?c)" by (simp add: Cleanup_def clean_entry_def bindF_def askF_def retF_def hour_def HasPrefix_def)
  have s: "spared (\<lambda>name. length name = 2) (\<lambda>name. Inr 0) [''t1''] (7200 * 1000000000) ''t1'' (Dir [(''f'', Reg ''x'')])"
    "\<not> spared (\<lambda>name. length name = 2) (\<lambda>name. Inr 0) [''t1''] (7200 * 1000000000) ''t2'' (Dir [])"
    by (simp_all add: spared_def)
  have "(''t1'', Dir [(''f'', Reg ''x'')]) \<in> set ?es" "(''t2'', Dir []) \<in> set ?es" by simp_all
  with cleanup_spares [OF ok, of ?es] s have k: "\<forall>qs. Lstat (snd ?c) ([''ws''] @ ''t1'' # qs) = Lstat (Dir [(''ws'', Dir ?es)]) ([''ws''] @ ''t1'' # qs)"
    "\<exists>e. Lstat (snd ?c) ([''ws''] @ [''t2'']) = Inl e" by auto
  from k(1) [rule_format, of "[''f'']"] k(2) show ?thesis by (simp add: Let_def)
qed

end
