(* ===== verification/Workspace_Prepare.thy ===== *)
theory Workspace_Prepare
  imports Checkpoint_Laws
begin

text \<open>
  Making the workspace of a task (\<open>internal/workspace/prepare.go\<close>): a clone of a remote repository, or a copy of a local
  project without its secrets, build products and links. The random part of a temporary name, git and the context
  are parameters; roots and sources are absolute paths.
\<close>

section \<open>The target\<close>

definition abs_path :: "string list \<Rightarrow> string" where
  "abs_path ps = slash # Join ps ''/''"

definition valid_task :: "string \<Rightarrow> bool" where
  "valid_task task \<longleftrightarrow> SafeRelative task \<and> slash \<notin> set task \<and> task \<noteq> ''.''"

text \<open>\<open>os.Stat\<close> of the destination: it must not exist.\<close>

definition check_absent :: "string list \<Rightarrow> unit fsm" where
  "check_absent dest = askF (\<lambda>fs. case EvalSymlinks fs dest of
       Inr _ \<Rightarrow> Inl (Errorf ''workspace already exists'')
     | Inl e \<Rightarrow> if e = ErrNotExist then Inr () else Inl e)"

definition target :: "string \<Rightarrow> string \<Rightarrow> (string list \<times> string list) fsm" where
  "target root task =
     (if \<not> valid_task task then askF (\<lambda>_. Inl (Errorf ''invalid task_id''))
      else bindF (MkdirAll (path_parts root)) (\<lambda>_.
      bindF (askF (\<lambda>fs. EvalSymlinks fs (path_parts root))) (\<lambda>base.
      bindF (check_absent (base @ [task])) (\<lambda>_. retF (base, base @ [task])))))"

text \<open>\<open>os.MkdirTemp\<close> with an unused name, and \<open>os.Rename\<close> to a name that is not taken.\<close>

definition MkdirTemp :: "string list \<Rightarrow> string \<Rightarrow> string list fsm" where
  "MkdirTemp base rnd fs =
     (let temp = base @ [''.preparing-'' @ rnd]
      in case Lstat fs temp of
           Inl e \<Rightarrow> if e = ErrNotExist then (Inr temp, put fs temp (Dir [])) else (Inl e, fs)
         | Inr _ \<Rightarrow> (Inl (Errorf ''file exists''), fs))"

definition Rename :: "string list \<Rightarrow> string list \<Rightarrow> unit fsm" where
  "Rename a b fs =
     (case Lstat fs a of
        Inl e \<Rightarrow> (Inl e, fs)
      | Inr n \<Rightarrow> (case Lstat fs b of
            Inl e \<Rightarrow> if e = ErrNotExist then (Inr (), put (del fs a) b n) else (Inl e, fs)
          | Inr _ \<Rightarrow> (Inl (Errorf ''file exists''), fs)))"

text \<open>\<open>defer os.RemoveAll(temp)\<close>.\<close>

definition with_temp :: "string list \<Rightarrow> 'a fsm \<Rightarrow> 'a fsm" where
  "with_temp temp body fs = (let (r, fs') = body fs in (r, del fs' temp))"

definition Clone :: "process \<Rightarrow> string \<Rightarrow> string \<Rightarrow> string \<Rightarrow> string \<Rightarrow> string \<Rightarrow> string \<Rightarrow> string fsm" where
  "Clone run rnd root task remote branch header =
     bindF (target root task) (\<lambda>(base, dest).
     bindF (MkdirTemp base rnd) (\<lambda>temp.
     with_temp temp (
       bindF (gitEnv run (abs_path base) (auth_env header) [] [''clone'', ''--quiet'', ''--single-branch'', ''--branch'', branch, ''--'', remote, abs_path temp]) (\<lambda>_.
       bindF (git run (abs_path temp) [''update-ref'', baseRef, ''HEAD'']) (\<lambda>_.
       bindF (Rename temp dest) (\<lambda>_. retF (abs_path dest)))))))"

section \<open>Copying\<close>

definition skipped_names :: "string list" where
  "skipped_names = [''.next'', ''build'', ''target'', ''.gradle'', ''__pycache__'']"

definition skipped_path :: "string list \<Rightarrow> bool" where
  "skipped_path ps \<longleftrightarrow> Protected (rel_name ps) \<or> last ps \<in> set skipped_names"

text \<open>\<open>os.OpenFile\<close> with \<open>O_CREATE|O_EXCL\<close>, then the content.\<close>

definition create_file :: "string list \<Rightarrow> string \<Rightarrow> unit fsm" where
  "create_file ps content fs =
     (case EvalSymlinks fs (butlast ps) of
        Inl e \<Rightarrow> (Inl e, fs)
      | Inr d \<Rightarrow> (case Lstat fs (d @ [last ps]) of
            Inl e \<Rightarrow> if e = ErrNotExist then (Inr (), put fs (d @ [last ps]) (Reg content)) else (Inl e, fs)
          | Inr _ \<Rightarrow> (Inl (Errorf ''file exists''), fs)))"

definition copy_file :: "string list \<Rightarrow> string list \<Rightarrow> string list \<Rightarrow> unit fsm" where
  "copy_file src temp ps =
     bindF (askF (\<lambda>fs. bindR (Lstat fs src) (\<lambda>n. NoSymlinks n (rel_name ps)))) (\<lambda>_.
     bindF (askF (\<lambda>fs. bindR (root_path fs src False (rel_name ps)) (\<lambda>q. bindR (Lstat fs q) (\<lambda>n. case n of
         Reg content \<Rightarrow> Inr content | _ \<Rightarrow> Inl (Errorf ''is a directory''))))) (\<lambda>content.
     create_file (temp @ ps) content))"

text \<open>
  The callback of \<open>WalkDir\<close> and the walk; \<open>ctx\<close> is the context's error at a name. What is written lies outside
  the source, so that the walk sees the source as it was.
\<close>

fun copy_node :: "(string \<Rightarrow> err option) \<Rightarrow> string list \<Rightarrow> string list \<Rightarrow> string list \<Rightarrow> node \<Rightarrow> unit fsm"
  and copy_entries :: "(string \<Rightarrow> err option) \<Rightarrow> string list \<Rightarrow> string list \<Rightarrow> string list \<Rightarrow> (string \<times> node) list \<Rightarrow> unit fsm" where
  "copy_node ctx src temp ps n =
     (case ctx (rel_name ps) of
        Some e \<Rightarrow> askF (\<lambda>_. Inl e)
      | None \<Rightarrow>
          if ps = [] then (case n of Dir es \<Rightarrow> copy_entries ctx src temp ps es | _ \<Rightarrow> retF ())
          else if skipped_path ps then retF ()
          else (case n of
              Lnk _ \<Rightarrow> retF ()
            | Dir es \<Rightarrow> bindF (MkdirAll (temp @ ps)) (\<lambda>_. copy_entries ctx src temp ps es)
            | Reg _ \<Rightarrow> copy_file src temp ps))"
| "copy_entries ctx src temp ps [] = retF ()"
| "copy_entries ctx src temp ps ((name, n) # es) =
     bindF (copy_node ctx src temp (ps @ [name]) n) (\<lambda>_. copy_entries ctx src temp ps es)"

definition Prepare :: "process \<Rightarrow> (string \<Rightarrow> err option) \<Rightarrow> string \<Rightarrow> string \<Rightarrow> string \<Rightarrow> string \<Rightarrow> string fsm" where
  "Prepare run ctx rnd root task source =
     (if \<not> valid_task task then askF (\<lambda>_. Inl (Errorf ''invalid task_id''))
      else if source = [] then askF (\<lambda>_. Inl (Errorf ''project.local_path is required''))
      else bindF (askF (\<lambda>fs. EvalSymlinks fs (path_parts source))) (\<lambda>src.
      bindF (MkdirAll (path_parts root)) (\<lambda>_.
      bindF (askF (\<lambda>fs. EvalSymlinks fs (path_parts root))) (\<lambda>base.
      let dest = base @ [task] in
      bindF (check_absent dest) (\<lambda>_.
      if dest = src \<or> HasPrefix (abs_path dest) (abs_path src @ ''/'') then askF (\<lambda>_. Inl (Errorf ''workspace must be outside source project''))
      else bindF (MkdirAll base) (\<lambda>_.
      bindF (MkdirTemp base rnd) (\<lambda>temp.
      with_temp temp (
        bindF (askF (\<lambda>fs. bindR (OpenRoot fs (abs_path src)) (\<lambda>_. Lstat fs src))) (\<lambda>n.
        bindF (copy_node ctx src temp [] n) (\<lambda>_.
        bindF (initGit run (abs_path temp)) (\<lambda>_.
        bindF (Rename temp dest) (\<lambda>_. retF (abs_path dest)))))))))))))"

section \<open>Lemmas\<close>

lemma Lstat_put_below: "Lstat fs d = Inr (Dir es) \<Longrightarrow> Lstat (put fs (d @ [p]) n) (d @ p # qs) = Lstat n qs"
  using Lstat_put_same [of fs d es p n] Lstat_append [of "put fs (d @ [p]) n" "d @ [p]" qs] by simp

lemma EvalSymlinks_dir: "Lstat fs d = Inr (Dir es) \<Longrightarrow> list_all ordinary d \<Longrightarrow> EvalSymlinks fs d = Inr d"
  using follow_dirs [of fs "[]" d es None 255] by (simp add: EvalSymlinks_def)

lemma follow_split:
  "Lstat fs (d @ ps) = Inr (Dir es) \<Longrightarrow> list_all ordinary ps \<Longrightarrow> follow b c k fs d (ps @ qs) = follow b c k fs (d @ ps) qs"
proof (induction ps arbitrary: d)
  case (Cons p ps)
  have p: "p \<noteq> []" "p \<noteq> ''.''" "p \<noteq> ''..''" using Cons.prems(2) by (auto simp: ordinary_def)
  obtain es' where "Lstat fs (d @ [p]) = Inr (Dir es')"
    using Cons.prems(1) Lstat_prefix [of fs "d @ p # ps" "Dir es" "d @ [p]"] by (cases ps) (auto simp: strict_prefix_def)
  with Cons p show ?case by simp
qed simp

lemma EvalSymlinks_missing:
  assumes "Lstat fs d = Inr (Dir es)" "list_all ordinary (d @ [p])" "Lstat fs (d @ [p]) = Inl e"
  shows "EvalSymlinks fs (d @ [p]) = Inl e"
  using follow_split [of fs "[]" d es None False 255 "[p]"] assms by (simp add: EvalSymlinks_def ordinary_def)

lemma MkdirAll_there: "Lstat fs d = Inr (Dir es) \<Longrightarrow> list_all ordinary d \<Longrightarrow> MkdirAll d fs = (Inr (), fs)"
  using EvalSymlinks_dir [of fs d es] by (subst MkdirAll.simps) simp

lemma MkdirAll_new:
  assumes "Lstat fs d = Inr (Dir es)" "list_all ordinary (d @ [p])" "Lstat fs (d @ [p]) = Inl e"
  shows "MkdirAll (d @ [p]) fs = (Inr (), put fs (d @ [p]) (Dir []))"
  using EvalSymlinks_missing [OF assms] EvalSymlinks_dir [OF assms(1)] MkdirAll_there [OF assms(1)] assms
  by (subst MkdirAll.simps) simp

text \<open>What a copy looks like from outside.\<close>

datatype entry = File string | Folder | Link

definition look :: "node result \<Rightarrow> entry option" where
  "look r = (case r of Inr (Reg c) \<Rightarrow> Some (File c) | Inr (Dir _) \<Rightarrow> Some Folder | Inr (Lnk _) \<Rightarrow> Some Link | Inl _ \<Rightarrow> None)"

fun copied :: "string list \<Rightarrow> node \<Rightarrow> string list \<Rightarrow> entry option" where
  "copied ps n qs =
     (if ps \<noteq> [] \<and> skipped_path ps then None
      else case qs of
          [] \<Rightarrow> (case n of Reg c \<Rightarrow> Some (File c) | Dir _ \<Rightarrow> Some Folder | Lnk _ \<Rightarrow> None)
        | q # qs' \<Rightarrow> (case n of Dir es \<Rightarrow> (case map_of es q of Some m \<Rightarrow> copied (ps @ [q]) m qs' | None \<Rightarrow> None) | _ \<Rightarrow> None))"

declare copied.simps [simp del]

text \<open>Nothing changes but what lies at or below a path, and the directories above it stay directories.\<close>

definition only_below :: "string list \<Rightarrow> node \<Rightarrow> node \<Rightarrow> bool" where
  "only_below d fs fs' \<longleftrightarrow> (\<forall>q. parallel q d \<longrightarrow> Lstat fs' q = Lstat fs q) \<and>
     (\<forall>q es. strict_prefix q d \<longrightarrow> Lstat fs q = Inr (Dir es) \<longrightarrow> (\<exists>es'. Lstat fs' q = Inr (Dir es')))"

lemma only_belowD:
  "only_below d fs fs' \<Longrightarrow> parallel q d \<Longrightarrow> Lstat fs' q = Lstat fs q"
  "only_below d fs fs' \<Longrightarrow> strict_prefix q d \<Longrightarrow> Lstat fs q = Inr (Dir es) \<Longrightarrow> \<exists>es'. Lstat fs' q = Inr (Dir es')"
  unfolding only_below_def by blast+

lemma only_below_refl: "only_below d fs fs"
  by (simp add: only_below_def)

lemma only_below_trans: "only_below d a b \<Longrightarrow> only_below d b c \<Longrightarrow> only_below d a c"
  unfolding only_below_def by metis

lemma only_below_up: "only_below (d @ [x]) fs fs' \<Longrightarrow> only_below d fs fs'"
proof -
  assume f: "only_below (d @ [x]) fs fs'"
  have "parallel q d \<Longrightarrow> parallel q (d @ [x])" for q by (auto simp: parallel_def prefix_snoc dest: append_prefixD)
  moreover have "strict_prefix q d \<Longrightarrow> strict_prefix q (d @ [x])" for q by (auto simp: strict_prefix_def)
  ultimately show ?thesis using f unfolding only_below_def by blast
qed

lemma only_below_put: "Lstat fs d = Inr (Dir es) \<Longrightarrow> only_below (d @ [x]) fs (put fs (d @ [x]) n)"
  unfolding only_below_def using Lstat_put_parallel Lstat_put_same [of fs d es x n] Lstat_prefix by metis

text \<open>The content that is read is that of the source.\<close>

lemma copy_file_Inr:
  assumes "copy_file src temp (ps @ [p]) fs = (Inr (), fs')" "Lstat fs (src @ ps @ [p]) = Inr (Reg c)" "list_all ordinary (ps @ [p])"
    and "Lstat fs (temp @ ps) = Inr (Dir es)" "list_all ordinary (temp @ ps)"
  shows "fs' = put fs (temp @ ps @ [p]) (Reg c)"
proof -
  let ?q = "ps @ [p]"
  have s: "Split (rel_name ?q) slash = ?q" using Split_Join [of ?q] assms(3) by (auto simp: rel_name_def list_all_iff ordinary_def)
  obtain r m content where r: "follow (Some src) False 8 fs src ?q = Inr r" "Lstat fs r = Inr m"
      "(case m of Reg content \<Rightarrow> Inr content | _ \<Rightarrow> Inl (Errorf ''is a directory'')) = Inr content"
    and w: "create_file (temp @ ?q) content fs = (Inr (), fs')"
    using assms(1) by (auto simp: copy_file_def bindF_eq askF_def bindR_eq_Inr root_path_def s)
  have "Lstat fs (src @ q) \<noteq> Inr (Lnk l)" if "prefix q ?q" for q l
  proof (cases "q = ?q")
    case False
    then have "strict_prefix (src @ q) (src @ ps @ [p])" using that by (simp add: strict_prefix_def)
    then show ?thesis using Lstat_prefix [OF assms(2)] by fastforce
  qed (use assms(2) in simp)
  then have "r = src @ ?q" using follow_plain [OF r(1) assms(3)] by blast
  then have "m = Reg c" using r(2) assms(2) by simp
  then have c: "content = c" using r(3) by simp
  have "EvalSymlinks fs (temp @ ps) = Inr (temp @ ps)" by (rule EvalSymlinks_dir [OF assms(4,5)])
  then show ?thesis using w c by (auto simp: create_file_def butlast_append split: sum.splits if_splits)
qed

lemma look_below: "Lstat fs q = Inl e \<Longrightarrow> look (Lstat fs (q @ r)) = None"
  by (simp add: Lstat_append look_def)

lemma look_Dir: "Lstat fs q = Inr (Dir es) \<Longrightarrow> look (Lstat fs q) = Some Folder"
  by (simp add: look_def)

lemma copied_skip: "ps \<noteq> [] \<Longrightarrow> skipped_path ps \<Longrightarrow> copied ps n qs = None"
  by (simp add: copied.simps)

lemma copied_link: "copied ps (Lnk l) qs = None"
  by (simp add: copied.simps split: list.split)

lemma copied_file: "ps = [] \<or> \<not> skipped_path ps \<Longrightarrow> copied ps (Reg c) qs = (if qs = [] then Some (File c) else None)"
  by (subst copied.simps) (auto split: list.split)

lemma copied_dir: "ps = [] \<or> \<not> skipped_path ps \<Longrightarrow> copied ps (Dir es) qs =
    (case qs of [] \<Rightarrow> Some Folder | q # qs' \<Rightarrow> (case map_of es q of Some m \<Rightarrow> copied (ps @ [q]) m qs' | None \<Rightarrow> None))"
  by (subst copied.simps) (auto split: list.split)

lemma parallel_apart: "parallel src temp \<Longrightarrow> parallel (src @ a) (temp @ b)"
  by (rule Sublist.parallel_append)

text \<open>
  What one entry and a list of entries become. The source lies apart from the copy; the place is free, in a directory.
\<close>

definition entry_copied :: "string list \<Rightarrow> string list \<Rightarrow> string \<Rightarrow> node \<Rightarrow> node \<Rightarrow> node \<Rightarrow> bool" where
  "entry_copied temp ps p n fs fs' \<longleftrightarrow> only_below (temp @ ps @ [p]) fs fs' \<and> (\<forall>qs. look (Lstat fs' (temp @ ps @ p # qs)) = copied (ps @ [p]) n qs)"

definition entries_copied :: "string list \<Rightarrow> string list \<Rightarrow> (string \<times> node) list \<Rightarrow> node \<Rightarrow> node \<Rightarrow> bool" where
  "entries_copied temp ps es fs fs' \<longleftrightarrow> only_below (temp @ ps) fs fs' \<and> (\<exists>ds. Lstat fs' (temp @ ps) = Inr (Dir ds)) \<and>
     (\<forall>p qs. look (Lstat fs' (temp @ ps @ p # qs)) = (case map_of es p of Some m \<Rightarrow> copied (ps @ [p]) m qs | None \<Rightarrow> look (Lstat fs (temp @ ps @ p # qs))))"

lemma entry_skipped: "Lstat fs (temp @ ps @ [p]) = Inl e \<Longrightarrow> (\<And>qs. copied (ps @ [p]) n qs = None) \<Longrightarrow> entry_copied temp ps p n fs fs"
  using look_below [of fs "temp @ ps @ [p]"] by (simp add: entry_copied_def only_below_refl)

lemma entry_file:
  assumes "Lstat fs (temp @ ps) = Inr (Dir ds)" "\<not> skipped_path (ps @ [p])"
  shows "entry_copied temp ps p (Reg c) fs (put fs (temp @ ps @ [p]) (Reg c))"
proof -
  have "Lstat (put fs (temp @ ps @ [p]) (Reg c)) (temp @ ps @ p # qs) = Lstat (Reg c) qs" for qs
    using Lstat_put_below [OF assms(1), of p "Reg c" qs] by simp
  moreover have "look (Lstat (Reg c) qs) = (if qs = [] then Some (File c) else None)" for qs by (cases qs) (simp_all add: look_def)
  ultimately show ?thesis using only_below_put [OF assms(1), of p "Reg c"] assms(2) by (simp add: entry_copied_def copied_file)
qed

lemma entry_dir:
  assumes d: "Lstat fs (temp @ ps) = Inr (Dir ds)" "\<not> skipped_path (ps @ [p])"
    and es: "entries_copied temp (ps @ [p]) es (put fs (temp @ ps @ [p]) (Dir [])) fs'"
  shows "entry_copied temp ps p (Dir es) fs fs'"
proof -
  let ?f = "put fs (temp @ ps @ [p]) (Dir [])"
  have f: "only_below (temp @ ps @ [p]) fs fs'"
    using only_below_trans [OF only_below_put [OF d(1), of p "Dir []"], of fs'] es by (simp add: entries_copied_def)
  have "Lstat ?f (temp @ ps @ p # q # qs) = Lstat (Dir []) (q # qs)" for q qs using Lstat_put_below [OF d(1), of p "Dir []" "q # qs"] by simp
  then have "look (Lstat ?f (temp @ ps @ p # q # qs)) = None" for q qs by (simp add: look_def)
  then have "look (Lstat fs' (temp @ ps @ p # qs)) = copied (ps @ [p]) (Dir es) qs" for qs
    using es d(2) by (cases qs) (auto simp: entries_copied_def copied_dir look_def split: option.split)
  with f show ?thesis by (simp add: entry_copied_def)
qed

lemma entries_step:
  assumes d: "Lstat fs (temp @ ps) = Inr (Dir ds)" and p: "p \<notin> fst ` set es"
    and one: "entry_copied temp ps p n fs fs1" and rest: "entries_copied temp ps es fs1 fs'"
  shows "entries_copied temp ps ((p, n) # es) fs fs'"
proof -
  have f1: "only_below (temp @ ps @ [p]) fs fs1" using one by (simp add: entry_copied_def)
  then have "only_below (temp @ ps) fs fs1" using only_below_up [of "temp @ ps" p] by simp
  then have f: "only_below (temp @ ps) fs fs'" using rest only_below_trans by (auto simp: entries_copied_def)
  have "parallel (temp @ ps @ q # qs) (temp @ ps @ [p])" if "q \<noteq> p" for q qs using that by (simp add: parallel_def)
  then have "Lstat fs1 (temp @ ps @ q # qs) = Lstat fs (temp @ ps @ q # qs)" if "q \<noteq> p" for q qs using only_belowD(1) [OF f1] that by blast
  moreover have "map_of es p = None" using p by (simp add: map_of_eq_None_iff)
  ultimately show ?thesis using f rest one by (auto simp: entries_copied_def entry_copied_def split: option.split)
qed

lemma copy_walk:
  assumes "parallel src temp"
  shows "copy_node ctx src temp qs n fs = (Inr (), fs') \<Longrightarrow> qs = ps @ [p] \<Longrightarrow> Lstat fs (src @ ps @ [p]) = Inr n \<Longrightarrow> named n \<Longrightarrow>
      list_all ordinary (temp @ ps @ [p]) \<Longrightarrow> Lstat fs (temp @ ps) = Inr (Dir ds) \<Longrightarrow> Lstat fs (temp @ ps @ [p]) = Inl e \<Longrightarrow> entry_copied temp ps p n fs fs'"
    and "copy_entries ctx src temp ps es fs = (Inr (), fs') \<Longrightarrow> (\<And>p m. (p, m) \<in> set es \<Longrightarrow> Lstat fs (src @ ps @ [p]) = Inr m) \<Longrightarrow> named_entries es \<Longrightarrow>
      list_all ordinary (temp @ ps) \<Longrightarrow> Lstat fs (temp @ ps) = Inr (Dir ds) \<Longrightarrow> (\<And>p. p \<in> fst ` set es \<Longrightarrow> \<exists>e. Lstat fs (temp @ ps @ [p]) = Inl e) \<Longrightarrow>
      entries_copied temp ps es fs fs'"
  using assms
proof (induction ctx src temp qs n and ctx src temp ps es arbitrary: fs fs' ps p ds e and fs fs' ds rule: copy_node_copy_entries.induct)
  case (1 ctx src temp qs n)
  have ctx: "ctx (rel_name qs) = None" using "1.prems"(1) by (auto simp: askF_def split: option.splits)
  show ?case
  proof (cases "skipped_path qs")
    case True
    then show ?thesis using "1.prems" ctx by (auto simp: retF_def intro!: entry_skipped copied_skip)
  next
    case ns: False
    show ?thesis
    proof (cases n)
      case (Reg c)
      then have "copy_file src temp (ps @ [p]) fs = (Inr (), fs')" using "1.prems"(1,2) ctx ns by simp
      then have "fs' = put fs (temp @ ps @ [p]) (Reg c)" using copy_file_Inr "1.prems" Reg by fastforce
      then show ?thesis using entry_file "1.prems" ns Reg by simp
    next
      case (Dir es)
      have w: "MkdirAll (temp @ ps @ [p]) fs = (Inr (), put fs (temp @ ps @ [p]) (Dir []))"
        using MkdirAll_new [of fs "temp @ ps" ds p e] "1.prems" by simp
      let ?f = "put fs (temp @ ps @ [p]) (Dir [])"
      have c: "copy_entries ctx src temp qs es ?f = (Inr (), fs')"
        using "1.prems"(1,2) ctx ns Dir w by (simp add: bindF_def)
      have d: "Lstat ?f (temp @ qs) = Inr (Dir [])" using Lstat_put_same [of fs "temp @ ps" ds p "Dir []"] "1.prems" by simp
      have s: "Lstat ?f (src @ qs @ [q]) = Inr m" if "(q, m) \<in> set es" for q m
      proof -
        have "parallel (src @ qs @ [q]) (temp @ ps @ [p])" using "1.prems"(8) by (rule parallel_apart)
        then have "Lstat ?f (src @ qs @ [q]) = Lstat fs (src @ qs @ [q])" by (rule Lstat_put_parallel)
        moreover have "map_of es q = Some m" using that "1.prems"(4) Dir named_distinct by (intro map_of_is_SomeI) auto
        ultimately show ?thesis using "1.prems"(2,3) Dir Lstat_append [of fs "src @ qs" "[q]"] by simp
      qed
      have m: "\<exists>e. Lstat ?f (temp @ qs @ [q]) = Inl e" for q using Lstat_append [of ?f "temp @ qs" "[q]"] d by simp
      have "entries_copied temp qs es ?f fs'"
        using "1.IH"(2) [OF ctx _ ns Dir c s _ _ d m "1.prems"(8)] "1.prems"(2,4,5) Dir by simp
      then show ?thesis using entry_dir [of fs temp ps ds p es fs'] "1.prems"(2,6) ns Dir by simp
    next
      case (Lnk l)
      then show ?thesis using "1.prems" ctx ns by (auto simp: retF_def intro!: entry_skipped copied_link)
    qed
  qed
next
  case (2 ctx src temp ps)
  then show ?case by (auto simp: retF_def entries_copied_def only_below_refl)
next
  case (3 ctx src temp ps q n es)
  obtain fs1 where c: "copy_node ctx src temp (ps @ [q]) n fs = (Inr (), fs1)" "copy_entries ctx src temp ps es fs1 = (Inr (), fs')"
    using "3.prems"(1) by (auto simp: bindF_eq)
  have q: "ordinary q" "named n" "named_entries es" "q \<notin> fst ` set es" using "3.prems"(3) by auto
  obtain e where e: "Lstat fs (temp @ ps @ [q]) = Inl e" using "3.prems"(6) by auto
  have one: "entry_copied temp ps q n fs fs1"
    using "3.IH"(1) [OF c(1) refl "3.prems"(2) q(2) _ "3.prems"(5) e "3.prems"(7)] q(1) "3.prems"(4) by simp
  then have f: "only_below (temp @ ps @ [q]) fs fs1" by (simp add: entry_copied_def)
  obtain ds' where d: "Lstat fs1 (temp @ ps) = Inr (Dir ds')" using only_belowD(2) [OF f _ "3.prems"(5)] by (auto simp: strict_prefix_def)
  have s: "Lstat fs1 (src @ ps @ [p]) = Inr m" if "(p, m) \<in> set es" for p m
    using only_belowD(1) [OF f parallel_apart [OF "3.prems"(7)]] "3.prems"(2) [of p m] that by simp
  have m: "\<exists>e. Lstat fs1 (temp @ ps @ [p]) = Inl e" if "p \<in> fst ` set es" for p
  proof -
    have "parallel (temp @ ps @ [p]) (temp @ ps @ [q])" using that q(4) by (auto simp: parallel_def)
    then show ?thesis using only_belowD(1) [OF f] "3.prems"(6) that by simp
  qed
  have "entries_copied temp ps es fs1 fs'" using "3.IH"(2) [OF c(2) s q(3) "3.prems"(4) d m "3.prems"(7)] by simp
  then show ?case using entries_step [OF "3.prems"(5) q(4) one] by blast
qed

end
