(* ===== verification/Prepare_Laws.thy ===== *)
theory Prepare_Laws
  imports Workspace_Prepare
begin

text \<open>
  The workspace that \<open>Prepare\<close> leaves: the source's files and folders, without links and without what is
  skipped, and nothing else touched.
\<close>

section \<open>What a copy holds\<close>

text \<open>Whether a path, or one above it, is left out.\<close>

definition left_out :: "string list \<Rightarrow> bool" where
  "left_out qs \<longleftrightarrow> (\<exists>r\<in>set (prefixes qs). r \<noteq> [] \<and> skipped_path r)"

definition source_view :: "node result \<Rightarrow> entry option" where
  "source_view r = (if look r = Some Link then None else look r)"

lemma copied_source:
  "copied ps n qs = (if \<exists>r\<in>set (prefixes qs). ps @ r \<noteq> [] \<and> skipped_path (ps @ r) then None else source_view (Lstat n qs))"
proof (induction ps n qs rule: copied.induct)
  case (1 ps n qs)
  show ?case
  proof (cases "ps \<noteq> [] \<and> skipped_path ps")
    case True
    then have "\<exists>r\<in>set (prefixes qs). ps @ r \<noteq> [] \<and> skipped_path (ps @ r)" by (intro bexI [of _ "[]"]) auto
    with True show ?thesis by (simp add: copied_skip)
  next
    case keep: False
    show ?thesis
    proof (cases qs)
      case Nil
      with keep show ?thesis by (cases n) (auto simp: copied.simps source_view_def look_def)
    next
      case (Cons q qs')
      have ex: "(\<exists>r\<in>set (prefixes qs). ps @ r \<noteq> [] \<and> skipped_path (ps @ r)) \<longleftrightarrow> (\<exists>r\<in>set (prefixes qs'). skipped_path (ps @ q # r))"
        using keep Cons by auto
      show ?thesis
      proof (cases n)
        case (Dir es)
        show ?thesis
        proof (cases "map_of es q")
          case (Some m)
          have "copied ps n qs = copied (ps @ [q]) m qs'" using keep Cons Dir Some by (auto simp: copied.simps [of ps])
          also have "\<dots> = (if \<exists>r\<in>set (prefixes qs'). skipped_path (ps @ q # r) then None else source_view (Lstat m qs'))"
            using "1.IH" [OF _ Cons Dir Some] keep by simp
          finally show ?thesis using ex Cons Dir Some by simp
        qed (use keep Cons Dir in \<open>simp add: copied.simps [of ps] source_view_def look_def\<close>)
      qed (use keep Cons in \<open>simp_all add: copied.simps [of ps] source_view_def look_def\<close>)
    qed
  qed
qed

lemma copied_all: "copied [] n qs = (if left_out qs then None else source_view (Lstat n qs))"
  using copied_source [of "[]" n qs] by (simp add: left_out_def)

section \<open>Where the copy lies\<close>

lemma inside_refused: "prefix src base \<Longrightarrow> src \<noteq> [] \<Longrightarrow> HasPrefix (abs_path (base @ [task])) (abs_path src @ ''/'')"
proof -
  assume "prefix src base" "src \<noteq> []"
  then obtain r where b: "base = src @ r" by (auto simp: prefix_def)
  have "rel_name (src @ (r @ [task])) = rel_name src @ slash # Join (r @ [task]) ''/''" using rel_name_snoc [OF \<open>src \<noteq> []\<close>, of "r @ [task]"] by simp
  then have "Join (base @ [task]) ''/'' = Join src ''/'' @ slash # Join (r @ [task]) ''/''" using b \<open>src \<noteq> []\<close> by (simp add: rel_name_def)
  then show ?thesis by (simp add: abs_path_def HasPrefix_def)
qed

lemma source_apart:
  assumes "\<not> HasPrefix (abs_path (base @ [task])) (abs_path src @ ''/'')" "src \<noteq> []" "Lstat fs src = Inr n" "Lstat fs (base @ [t]) = Inl e"
  shows "parallel src (base @ [t])"
proof -
  have "\<not> prefix src base" using inside_refused assms(1,2) by blast
  moreover have "src \<noteq> base @ [t]" using assms(3,4) by auto
  moreover have "\<not> prefix (base @ [t]) src"
  proof
    assume "prefix (base @ [t]) src"
    then obtain r where "src = (base @ [t]) @ r" by (auto simp: prefix_def)
    then show False using assms(3,4) Lstat_append [of fs "base @ [t]" r] by simp
  qed
  ultimately show ?thesis by (auto simp: parallel_def prefix_snoc)
qed

text \<open>\<open>initGit\<close> writes nothing but the repository, when the commands it runs do not.\<close>

definition init_laws :: "process \<Rightarrow> string list \<Rightarrow> bool" where
  "init_laws run temp \<longleftrightarrow> (\<forall>args fs out fs'. hd args \<in> {''init'', ''add'', ''commit'', ''update-ref''} \<longrightarrow>
     run (git_config @ args) git_environ [] (abs_path temp) fs = (None, out, fs') \<longrightarrow> only_git temp fs fs')"

lemma init_git: "init_laws run temp \<Longrightarrow> git run (abs_path temp) args fs = (Inr v, fs') \<Longrightarrow>
    hd args \<in> {''init'', ''add'', ''commit'', ''update-ref''} \<Longrightarrow> only_git temp fs fs'"
  using git_Inr [of run "abs_path temp" args fs v fs'] unfolding init_laws_def by blast

lemma initGit_only:
  assumes "init_laws run temp" "initGit run (abs_path temp) fs = (Inr (), fs')"
  shows "only_git temp fs fs'"
proof -
  let ?g = "git run (abs_path temp)"
  obtain a b c d f1 f2 f3 where "?g [''init'', ''--quiet''] fs = (Inr a, f1)" "?g [''add'', ''--force'', ''--'', ''.''] f1 = (Inr b, f2)"
      "?g [''commit'', ''--quiet'', ''--allow-empty'', ''-m'', ''Workspace baseline''] f2 = (Inr c, f3)" "?g [''update-ref'', baseRef, ''HEAD''] f3 = (Inr d, fs')"
    using assms(2) by (auto simp: initGit_def bindF_eq retF_def)
  then have "only_git temp fs f1" "only_git temp f1 f2" "only_git temp f2 f3" "only_git temp f3 fs'"
    using init_git [OF assms(1)] by simp_all
  then show ?thesis by (meson only_git_trans)
qed

section \<open>The whole operation\<close>

text \<open>The steps of a successful \<open>Prepare\<close>.\<close>

lemma Prepare_steps:
  assumes "Prepare run ctx rnd root task source fs = (Inr dest, fs')" "EvalSymlinks fs (path_parts root) = Inr base" "Lstat fs base = Inr (Dir bs)" "named fs"
  obtains src m e n fs3 fs4 where "EvalSymlinks fs (path_parts source) = Inr src" "dest = abs_path (base @ [task])"
    "\<not> HasPrefix (abs_path (base @ [task])) (abs_path src @ ''/'')" "Lstat fs (base @ [''.preparing-'' @ rnd]) = Inl e"
    "Lstat (put fs (base @ [''.preparing-'' @ rnd]) (Dir [])) src = Inr m"
    "copy_node ctx src (base @ [''.preparing-'' @ rnd]) [] m (put fs (base @ [''.preparing-'' @ rnd]) (Dir [])) = (Inr (), fs3)"
    "initGit run (abs_path (base @ [''.preparing-'' @ rnd])) fs3 = (Inr (), fs4)" "Lstat fs4 (base @ [''.preparing-'' @ rnd]) = Inr n"
    "\<exists>e. Lstat fs4 (base @ [task]) = Inl e" "fs' = del (put (del fs4 (base @ [''.preparing-'' @ rnd])) (base @ [task]) n) (base @ [''.preparing-'' @ rnd])"
proof -
  let ?t = "base @ [''.preparing-'' @ rnd]"
  have mk: "MkdirAll (path_parts root) fs = (Inr (), fs)" using assms(2,3) by (subst MkdirAll.simps) simp
  have mb: "MkdirAll base fs = (Inr (), fs)" using MkdirAll_there [OF assms(3) named_ordinary [OF assms(4,3)]] .
  obtain src where src: "EvalSymlinks fs (path_parts source) = Inr src" and out: "\<not> HasPrefix (abs_path (base @ [task])) (abs_path src @ ''/'')"
    and r: "bindF (MkdirTemp base rnd) (\<lambda>temp. with_temp temp (
        bindF (askF (\<lambda>fs. bindR (OpenRoot fs (abs_path src)) (\<lambda>_. Lstat fs src))) (\<lambda>n.
        bindF (copy_node ctx src temp [] n) (\<lambda>_.
        bindF (initGit run (abs_path temp)) (\<lambda>_.
        bindF (Rename temp (base @ [task])) (\<lambda>_. retF (abs_path (base @ [task])))))))) fs = (Inr dest, fs')"
    using assms(1,2) mk mb by (auto simp: Prepare_def bindF_eq [where m = "askF _"] bindF_eq [where m = "MkdirAll _"] bindF_eq [where m = "check_absent _"] askF_def check_absent_def Let_def
        simp del: copy_node.simps split: if_splits)
  let ?f = "put fs ?t (Dir [])"
  obtain e where e: "Lstat fs ?t = Inl e" and w: "with_temp ?t (
        bindF (askF (\<lambda>fs. bindR (OpenRoot fs (abs_path src)) (\<lambda>_. Lstat fs src))) (\<lambda>n.
        bindF (copy_node ctx src ?t [] n) (\<lambda>_.
        bindF (initGit run (abs_path ?t)) (\<lambda>_.
        bindF (Rename ?t (base @ [task])) (\<lambda>_. retF (abs_path (base @ [task]))))))) ?f = (Inr dest, fs')"
    using r by (auto simp: bindF_eq [where m = "MkdirTemp _ _"] MkdirTemp_def Let_def simp del: copy_node.simps split: sum.splits if_splits)
  obtain m fs3 fs4 fs5 where o: "Lstat ?f src = Inr m" and c: "copy_node ctx src ?t [] m ?f = (Inr (), fs3)"
    and g: "initGit run (abs_path ?t) fs3 = (Inr (), fs4)" and n: "Rename ?t (base @ [task]) fs4 = (Inr (), fs5)"
    and d: "dest = abs_path (base @ [task])" "fs' = del fs5 ?t"
    using w by (auto simp: with_temp_def bindF_eq askF_def retF_def bindR_eq_Inr Let_def simp del: copy_node.simps split: prod.splits)
  obtain k where "Lstat fs4 ?t = Inr k" "\<exists>e. Lstat fs4 (base @ [task]) = Inl e" "fs5 = put (del fs4 ?t) (base @ [task]) k"
    using n by (auto simp: Rename_def split: sum.splits if_splits)
  with that [OF src d(1) out e o c g] d(2) show thesis by blast
qed

lemma copy_tree:
  assumes "parallel src temp" "copy_node ctx src temp [] (Dir es) fs = (Inr (), fs')" "Lstat fs src = Inr (Dir es)" "named (Dir es)"
    and "list_all ordinary temp" "Lstat fs temp = Inr (Dir [])"
  shows "entries_copied temp [] es fs fs'"
proof -
  have "copy_entries ctx src temp [] es fs = (Inr (), fs')" using assms(2) by (auto simp: askF_def split: option.splits)
  moreover have "Lstat fs (src @ [] @ [p]) = Inr m" if "(p, m) \<in> set es" for p m
    using that assms(3,4) Lstat_append [of fs src "[p]"] named_distinct [of es] by (simp add: map_of_is_SomeI)
  moreover have "\<exists>e. Lstat fs (temp @ [] @ [p]) = Inl e" for p using assms(6) Lstat_append [of fs temp "[p]"] by simp
  ultimately show ?thesis using copy_walk(2) [OF assms(1), of ctx "[]" es fs fs' "[]"] assms(4-6) by simp
qed

text \<open>What is moved is at the new place, and the rest stays.\<close>

lemma moved:
  assumes "Lstat fs (d @ [a]) = Inr n" "Lstat fs (d @ [b]) = Inl e"
  defines "fs' \<equiv> del (put (del fs (d @ [a])) (d @ [b]) n) (d @ [a])"
  shows "Lstat fs' (d @ b # qs) = Lstat fs (d @ a # qs)" "\<exists>e. Lstat fs' (d @ [a]) = Inl e"
    and "parallel q (d @ [a]) \<Longrightarrow> parallel q (d @ [b]) \<Longrightarrow> Lstat fs' q = Lstat fs q"
proof -
  have "a \<noteq> b" using assms(1,2) by auto
  then have p: "parallel (d @ b # qs) (d @ [a])" for qs by (simp add: parallel_def)
  obtain ds where "Lstat fs d = Inr (Dir ds)" using Lstat_prefix [OF assms(1), of d] by (auto simp: strict_prefix_def)
  then obtain ds' where "Lstat (del fs (d @ [a])) d = Inr (Dir ds')" using Lstat_del_above [of d "d @ [a]" fs ds] by (auto simp: strict_prefix_def)
  from Lstat_put_below [OF this, of b n qs] Lstat_del_parallel [OF p] show "Lstat fs' (d @ b # qs) = Lstat fs (d @ a # qs)"
    using Lstat_append [of fs "d @ [a]" qs] assms(1) by (simp add: fs'_def)
  show "\<exists>e. Lstat fs' (d @ [a]) = Inl e" using Lstat_del_gone [of "d @ [a]" _ "[]"] by (simp add: fs'_def)
  show "parallel q (d @ [a]) \<Longrightarrow> parallel q (d @ [b]) \<Longrightarrow> Lstat fs' q = Lstat fs q"
    by (simp add: fs'_def Lstat_del_parallel Lstat_put_parallel)
qed


text \<open>A project with a source file, a secret, a build product and a link; a git that has nothing to do.\<close>

definition disk :: node where
  "disk = Dir [(''p'', Dir [(''.env'', Reg ''key''), (''a.go'', Reg ''package a''), (''build'', Dir [(''out'', Reg ''x'')]), (''l'', Lnk ''a.go'')]), (''ws'', Dir [])]"

definition idle :: process where
  "idle args env input dir fs = (None, [], fs)"

lemma disk_parts: "path_parts ''/ws'' = [''ws'']" "path_parts ''/p'' = [''p'']"
  by (code_simp, code_simp)

lemma disk_links: "EvalSymlinks disk [''ws''] = Inr [''ws'']" "EvalSymlinks disk [''p''] = Inr [''p'']" "named disk"
  by (code_simp, code_simp, code_simp)

lemma disk_prepared: "fst (Prepare idle (\<lambda>_. None) ''1'' ''/ws'' ''t1'' ''/p'' disk) = Inr ''/ws/t1''"
  by code_simp


text \<open>
  The check that the workspace lies outside the source compares with the source's path and a separator, which for
  the root directory is two separators: a source of \<open>/\<close>, in which every workspace lies, is not refused.
\<close>

lemma Join_hd: "p \<noteq> [] \<Longrightarrow> \<exists>r. Join (p # ps) sep = hd p # r"
  by (cases p; cases ps) auto

theorem root_source_not_refused:
  assumes "list_all ordinary (base @ [task])"
  shows "\<not> HasPrefix (abs_path (base @ [task])) (abs_path [] @ ''/'')"
proof -
  obtain p ps where b: "base @ [task] = p # ps" by (cases "base @ [task]") auto
  then have p: "p \<noteq> []" "slash \<notin> set p" using assms by (auto simp: ordinary_def)
  then have "hd p \<noteq> slash" by (cases p) auto
  obtain r where "Join (p # ps) ''/'' = hd p # r" using Join_hd [OF p(1)] by blast
  with \<open>hd p \<noteq> slash\<close> show ?thesis unfolding b by (simp add: abs_path_def HasPrefix_def)
qed

end
