(* ===== verification/Model_Adapters.thy ===== *)
theory Model_Adapters
  imports Stage_Runner
begin

text \<open>
  The adapters of the two model services (\<open>internal/llm/anthropic/anthropic.go\<close>, \<open>internal/llm/openai/openai.go\<close>): how a
  request of a stage run becomes the parameters of the service's client library, and how its answer becomes a reply.
  The client libraries are not part of the repository: sending the parameters is a parameter of the model, as are
  \<open>json.Valid\<close> and the decoding of a schema.
\<close>

section \<open>Anthropic\<close>

datatype block =
    TextBlock string
  | ToolUseBlock string string string
  | ToolResultBlock string string bool

record MessageParam =
  mp_Role :: string
  mp_Content :: "block list"

record ToolParam =
  tp_Name :: string
  tp_Description :: string
  tp_Schema :: json

record MessageNewParams =
  np_Model :: string
  np_MaxTokens :: int
  np_System :: string
  np_Messages :: "MessageParam list"
  np_Tools :: "ToolParam list"

text \<open>A block of the answer: its type, text, id, name and input.\<close>

record ContentBlock =
  cb_Type :: string
  cb_Text :: string
  cb_ID :: string
  cb_Name :: string
  cb_Input :: string

record SdkMessage =
  sm_Content :: "ContentBlock list"
  sm_Usage :: Usage

text \<open>What sending gives: an answer, an error of the service with its status, or another failure.\<close>

datatype 'a sent = Answered 'a | ApiError int | Unsent

definition max_tokens :: "ChatRequest \<Rightarrow> int" where
  "max_tokens r = (if cq_MaxTokens r = 0 then 8192 else cq_MaxTokens r)"

definition failed_text :: "string \<Rightarrow> bool" where
  "failed_text text \<longleftrightarrow> HasPrefix text ''[denied]'' \<or> HasPrefix text ''[bad args]'' \<or> HasPrefix text ''[not found]''"

fun use_blocks :: "(string \<Rightarrow> bool) \<Rightarrow> ToolCall list \<Rightarrow> block list result" where
  "use_blocks valid [] = Inr []"
| "use_blocks valid (t # ts) =
     (if \<not> valid (tc_Args t) then Inl (Errorf ''invalid tool arguments'')
      else bindR (use_blocks valid ts) (\<lambda>bs. Inr (ToolUseBlock (tc_ID t) (tc_Args t) (tc_Name t) # bs)))"

definition add_message :: "(string \<Rightarrow> bool) \<Rightarrow> Message \<Rightarrow> MessageParam list \<Rightarrow> MessageParam list result" where
  "add_message valid m ps =
     (if ms_Role m = ''tool'' then
        (let block = ToolResultBlock (ms_CallID m) (ms_Text m) (failed_text (ms_Text m))
         in if ps \<noteq> [] \<and> mp_Role (last ps) = ''user'' then Inr (butlast ps @ [(last ps)\<lparr>mp_Content := mp_Content (last ps) @ [block]\<rparr>])
            else Inr (ps @ [\<lparr>mp_Role = ''user'', mp_Content = [block]\<rparr>]))
      else
        bindR (use_blocks valid (ms_Calls m)) (\<lambda>uses.
        let blocks = (if ms_Text m \<noteq> [] then [TextBlock (ms_Text m)] else []) @ uses
        in if ms_Role m = ''assistant'' then Inr (ps @ [\<lparr>mp_Role = ''assistant'', mp_Content = blocks\<rparr>])
           else if ms_Role m = ''user'' then Inr (ps @ [\<lparr>mp_Role = ''user'', mp_Content = blocks\<rparr>])
           else Inl (Errorf (''unsupported message role: '' @ ms_Role m))))"

fun add_messages :: "(string \<Rightarrow> bool) \<Rightarrow> Message list \<Rightarrow> MessageParam list \<Rightarrow> MessageParam list result" where
  "add_messages valid [] ps = Inr ps"
| "add_messages valid (m # ms) ps = bindR (add_message valid m ps) (add_messages valid ms)"

fun tool_params :: "(string \<Rightarrow> json result) \<Rightarrow> ToolSpec list \<Rightarrow> ToolParam list result" where
  "tool_params schema [] = Inr []"
| "tool_params schema (t # ts) =
     bindR (schema (tl_Schema t)) (\<lambda>s. bindR (tool_params schema ts) (\<lambda>ps.
       Inr (\<lparr>tp_Name = tl_Name t, tp_Description = tl_Description t, tp_Schema = s\<rparr> # ps)))"

definition anthropic_params :: "(string \<Rightarrow> bool) \<Rightarrow> (string \<Rightarrow> json result) \<Rightarrow> string \<Rightarrow> ChatRequest \<Rightarrow> MessageNewParams result" where
  "anthropic_params valid schema model r =
     bindR (add_messages valid (cq_Messages r) []) (\<lambda>ms.
     bindR (tool_params schema (cq_Tools r)) (\<lambda>ts.
     Inr \<lparr>np_Model = model, np_MaxTokens = max_tokens r, np_System = cq_System r, np_Messages = ms, np_Tools = ts\<rparr>))"

text \<open>The failure of a request; the context's own error comes first.\<close>

definition request_failed :: "err option \<Rightarrow> string \<Rightarrow> 'a sent \<Rightarrow> err" where
  "request_failed ctx provider s =
     (case ctx of Some e \<Rightarrow> e
      | None \<Rightarrow> Errorf (provider @ '' request failed'' @ (case s of ApiError status \<Rightarrow> '': HTTP '' @ show_int status | _ \<Rightarrow> [])))"

definition add_block :: "ContentBlock \<Rightarrow> ChatResponse \<Rightarrow> ChatResponse" where
  "add_block b out =
     (if cb_Type b = ''text'' then out\<lparr>cs_Text := cs_Text out @ cb_Text b\<rparr>
      else if cb_Type b = ''tool_use'' then out\<lparr>cs_ToolCalls := cs_ToolCalls out @ [\<lparr>tc_ID = cb_ID b, tc_Name = cb_Name b, tc_Args = cb_Input b\<rparr>]\<rparr>
      else out)"

definition anthropic_Chat :: "(string \<Rightarrow> bool) \<Rightarrow> (string \<Rightarrow> json result) \<Rightarrow> (MessageNewParams \<Rightarrow> SdkMessage sent) \<Rightarrow> err option \<Rightarrow> string \<Rightarrow> ChatRequest \<Rightarrow> ChatResponse result" where
  "anthropic_Chat valid schema send ctx model r =
     bindR (anthropic_params valid schema model r) (\<lambda>p. case send p of
         Answered res \<Rightarrow> Inr (fold add_block (sm_Content res) \<lparr>cs_Text = [], cs_ToolCalls = [], cs_Model = ''anthropic/'' @ model, cs_Usage = sm_Usage res\<rparr>)
       | s \<Rightarrow> Inl (request_failed ctx ''anthropic'' s))"

section \<open>OpenAI\<close>

datatype chat_param =
    SystemMessage string
  | UserMessage string
  | ToolMessage string string
  | AssistantMessage string "(string \<times> string \<times> string) list"

record ChatParams =
  cp_Model :: string
  cp_MaxTokens :: int
  cp_Messages :: "chat_param list"
  cp_Tools :: "ToolParam list"

record FunctionCall =
  fc_Type :: string
  fc_ID :: string
  fc_Name :: string
  fc_Arguments :: string

record Choice =
  ch_Content :: string
  ch_ToolCalls :: "FunctionCall list"

record ChatCompletion =
  cm_Choices :: "Choice list"
  cm_PromptTokens :: int
  cm_CompletionTokens :: int
  cm_CachedTokens :: int

definition chat_message :: "Message \<Rightarrow> chat_param result" where
  "chat_message m =
     (if ms_Role m = ''user'' then Inr (UserMessage (ms_Text m))
      else if ms_Role m = ''tool'' then Inr (ToolMessage (ms_Text m) (ms_CallID m))
      else if ms_Role m = ''assistant'' then Inr (AssistantMessage (ms_Text m) (map (\<lambda>t. (tc_ID t, tc_Name t, tc_Args t)) (ms_Calls m)))
      else Inl (Errorf (''unsupported message role: '' @ ms_Role m)))"

fun chat_messages :: "Message list \<Rightarrow> chat_param list result" where
  "chat_messages [] = Inr []"
| "chat_messages (m # ms) = bindR (chat_message m) (\<lambda>p. bindR (chat_messages ms) (\<lambda>ps. Inr (p # ps)))"

definition openai_params :: "(string \<Rightarrow> json result) \<Rightarrow> string \<Rightarrow> ChatRequest \<Rightarrow> ChatParams result" where
  "openai_params schema model r =
     bindR (chat_messages (cq_Messages r)) (\<lambda>ms.
     bindR (tool_params schema (cq_Tools r)) (\<lambda>ts.
     Inr \<lparr>cp_Model = model, cp_MaxTokens = max_tokens r, cp_Messages = SystemMessage (cq_System r) # ms, cp_Tools = ts\<rparr>))"

text \<open>\<open>parse\<close> is the JSON parser; the arguments must be an object.\<close>

fun function_calls :: "(string \<Rightarrow> json result) \<Rightarrow> FunctionCall list \<Rightarrow> ToolCall list result" where
  "function_calls parse [] = Inr []"
| "function_calls parse (t # ts) =
     (if fc_Type t \<noteq> ''function'' then Inl (Errorf (''unsupported tool call type: '' @ fc_Type t))
      else case parse (fc_Arguments t) of
          Inr (JObj _) \<Rightarrow> bindR (function_calls parse ts) (\<lambda>cs. Inr (\<lparr>tc_ID = fc_ID t, tc_Name = fc_Name t, tc_Args = fc_Arguments t\<rparr> # cs))
        | _ \<Rightarrow> Inl (Errorf (''invalid tool arguments for '' @ fc_Name t)))"

definition openai_Chat :: "(string \<Rightarrow> json result) \<Rightarrow> (string \<Rightarrow> json result) \<Rightarrow> (ChatParams \<Rightarrow> ChatCompletion sent) \<Rightarrow> err option \<Rightarrow> string \<Rightarrow> string \<Rightarrow> ChatRequest \<Rightarrow> ChatResponse result" where
  "openai_Chat parse schema send ctx provider model r =
     bindR (openai_params schema model r) (\<lambda>p. case send p of
         Answered res \<Rightarrow>
           (case cm_Choices res of
              [] \<Rightarrow> Inl (Errorf (provider @ '' returned no choices''))
            | c # _ \<Rightarrow> bindR (function_calls parse (ch_ToolCalls c)) (\<lambda>calls.
                Inr \<lparr>cs_Text = ch_Content c, cs_ToolCalls = calls, cs_Model = provider @ ''/'' @ model,
                  cs_Usage = \<lparr>us_Input = cm_PromptTokens res, us_Output = cm_CompletionTokens res, us_CacheRead = cm_CachedTokens res, us_CacheWrite = 0\<rparr>\<rparr>))
       | s \<Rightarrow> Inl (request_failed ctx provider s))"

section \<open>Laws\<close>

fun use_id :: "block \<Rightarrow> string list" where
  "use_id (ToolUseBlock i _ _) = [i]"
| "use_id _ = []"

fun result_id :: "block \<Rightarrow> string list" where
  "result_id (ToolResultBlock i _ _) = [i]"
| "result_id _ = []"

definition uses :: "MessageParam \<Rightarrow> string list" where
  "uses p = concat (map use_id (mp_Content p))"

definition results :: "MessageParam \<Rightarrow> string list" where
  "results p = concat (map result_id (mp_Content p))"

text \<open>
  What the service asks of a conversation: it begins and ends with the user, the roles alternate, and each message of the user
  answers exactly the calls of the assistant's message before it, in their order.
\<close>

fun turns_ok :: "string list \<Rightarrow> MessageParam list \<Rightarrow> bool" where
  "turns_ok ids [] \<longleftrightarrow> False"
| "turns_ok ids [u] \<longleftrightarrow> mp_Role u = ''user'' \<and> results u = ids"
| "turns_ok ids (u # a # ps) \<longleftrightarrow> mp_Role u = ''user'' \<and> results u = ids \<and> mp_Role a = ''assistant'' \<and> uses a \<noteq> [] \<and> turns_ok (uses a) ps"

definition text_block :: "Message \<Rightarrow> block list" where
  "text_block m = (if ms_Text m \<noteq> [] then [TextBlock (ms_Text m)] else [])"

definition use_block :: "ToolCall \<Rightarrow> block" where
  "use_block t = ToolUseBlock (tc_ID t) (tc_Args t) (tc_Name t)"

definition result_block :: "Message \<Rightarrow> block" where
  "result_block m = ToolResultBlock (ms_CallID m) (ms_Text m) (failed_text (ms_Text m))"

definition round_params :: "Message list \<Rightarrow> MessageParam list" where
  "round_params r = [\<lparr>mp_Role = ''assistant'', mp_Content = text_block (hd r) @ map use_block (ms_Calls (hd r))\<rparr>,
     \<lparr>mp_Role = ''user'', mp_Content = map result_block (tl r)\<rparr>]"

lemma use_blocks_valid: "list_all (\<lambda>t. valid (tc_Args t)) ts \<Longrightarrow> use_blocks valid ts = Inr (map use_block ts)"
  by (induction ts) (simp_all add: use_block_def bindR_def)

lemma add_messages_append: "add_messages valid (ms @ ns) ps = bindR (add_messages valid ms ps) (add_messages valid ns)"
  by (induction ms arbitrary: ps) (auto simp: bindR_def split: sum.split)

lemma add_results:
  "list_all (\<lambda>m. ms_Role m = ''tool'') rs \<Longrightarrow>
     add_messages valid rs (ps @ [\<lparr>mp_Role = ''user'', mp_Content = bs\<rparr>]) = Inr (ps @ [\<lparr>mp_Role = ''user'', mp_Content = bs @ map result_block rs\<rparr>])"
  by (induction rs arbitrary: bs) (simp_all add: add_message_def bindR_def result_block_def)

text \<open>A round of the dialogue becomes two messages.\<close>

lemma add_round:
  assumes "exchange r" "list_all (\<lambda>m. list_all (\<lambda>t. valid (tc_Args t)) (ms_Calls m)) r"
  shows "add_messages valid r ps = Inr (ps @ round_params r)"
proof -
  obtain a rs where r: "r = a # rs" "ms_Role a = ''assistant''" "ms_Calls a \<noteq> []" "list_all2 answers rs (ms_Calls a)"
    using assms(1) by (auto simp: exchange_def)
  then obtain m ms where rs: "rs = m # ms" by (cases rs) auto
  have t: "list_all (\<lambda>m. ms_Role m = ''tool'') rs" using r(4) by (auto simp: list_all2_conv_all_nth list_all_length answers_def)
  have "use_blocks valid (ms_Calls a) = Inr (map use_block (ms_Calls a))" using assms(2) r(1) by (intro use_blocks_valid) simp
  then have "add_message valid a ps = Inr (ps @ [\<lparr>mp_Role = ''assistant'', mp_Content = text_block a @ map use_block (ms_Calls a)\<rparr>])"
    using r(2) by (simp add: add_message_def bindR_def text_block_def)
  then show ?thesis using t rs r(1) add_results [of ms valid "ps @ [_]" "[result_block m]"]
    by (simp add: round_params_def bindR_def add_message_def result_block_def)
qed

lemma add_rounds:
  "list_all exchange rounds \<Longrightarrow> list_all (\<lambda>m. list_all (\<lambda>t. valid (tc_Args t)) (ms_Calls m)) (concat rounds) \<Longrightarrow>
     add_messages valid (concat rounds) ps = Inr (ps @ concat (map round_params rounds))"
  by (induction rounds arbitrary: ps) (simp_all add: add_messages_append add_round bindR_def)

lemma round_ids:
  assumes "exchange r"
  obtains a u where "round_params r = [a, u]" "mp_Role a = ''assistant''" "mp_Role u = ''user''" "uses a \<noteq> []" "results u = uses a"
proof -
  obtain m rs where r: "r = m # rs" "ms_Calls m \<noteq> []" "list_all2 answers rs (ms_Calls m)" using assms by (auto simp: exchange_def)
  have u: "concat (map use_id (text_block m @ map use_block (ms_Calls m))) = map tc_ID (ms_Calls m)"
    by (simp add: text_block_def use_block_def comp_def)
  have s: "concat (map result_id (map result_block rs)) = map ms_CallID rs" by (simp add: result_block_def comp_def)
  have ids: "map ms_CallID rs = map tc_ID (ms_Calls m)" using r(3) by (auto simp: list_all2_conv_all_nth answers_def intro: nth_equalityI)
  let ?a = "\<lparr>mp_Role = ''assistant'', mp_Content = text_block m @ map use_block (ms_Calls m)\<rparr>"
  let ?u = "\<lparr>mp_Role = ''user'', mp_Content = map result_block rs\<rparr>"
  have "uses ?a = map tc_ID (ms_Calls m)" "results ?u = map ms_CallID rs" using u s by (simp_all only: uses_def results_def MessageParam.simps)
  with ids r(1,2) show thesis by (intro that [of ?a ?u]) (simp_all add: round_params_def)
qed

lemma turns_rounds: "list_all exchange rounds \<Longrightarrow> mp_Role u = ''user'' \<Longrightarrow> results u = ids \<Longrightarrow> turns_ok ids (u # concat (map round_params rounds))"
proof (induction rounds arbitrary: u ids)
  case (Cons r rounds)
  obtain a v where "round_params r = [a, v]" "mp_Role a = ''assistant''" "mp_Role v = ''user''" "uses a \<noteq> []" "results v = uses a"
    using round_ids Cons.prems(1) by auto
  with Cons show ?case by simp
qed simp

lemma dialogue_turns:
  assumes "dialogue u ms" "ms_Role u = ''user''" "ms_Calls u = []" "list_all (\<lambda>m. list_all (\<lambda>t. valid (tc_Args t)) (ms_Calls m)) ms"
  shows "\<exists>ps. add_messages valid ms [] = Inr ps \<and> turns_ok [] ps"
proof -
  obtain rounds where r: "ms = u # concat rounds" "list_all exchange rounds" using assms(1) by (auto simp: dialogue_def)
  let ?u = "\<lparr>mp_Role = ''user'', mp_Content = text_block u\<rparr>"
  have "add_message valid u [] = Inr [?u]" using assms(2,3) by (simp add: add_message_def bindR_def text_block_def)
  then have "add_messages valid ms [] = Inr (?u # concat (map round_params rounds))" using add_rounds [OF r(2)] assms(4) r(1) by (simp add: bindR_def)
  moreover have "turns_ok [] (?u # concat (map round_params rounds))" using turns_rounds [OF r(2)] by (simp add: text_block_def results_def)
  ultimately show ?thesis by blast
qed

text \<open>The other service takes a message for each call; \<open>ids\<close> are the calls still to be answered.\<close>

fun chat_ok :: "string list \<Rightarrow> chat_param list \<Rightarrow> bool" where
  "chat_ok ids [] \<longleftrightarrow> ids = []"
| "chat_ok ids (ToolMessage t i # ps) \<longleftrightarrow> ids \<noteq> [] \<and> i = hd ids \<and> chat_ok (tl ids) ps"
| "chat_ok ids (AssistantMessage t cs # ps) \<longleftrightarrow> ids = [] \<and> cs \<noteq> [] \<and> chat_ok (map fst cs) ps"
| "chat_ok ids (_ # ps) \<longleftrightarrow> False"

lemma chat_results: "list_all2 answers rs ts \<Longrightarrow> chat_messages ms = Inr ps \<Longrightarrow> chat_ok [] ps \<Longrightarrow>
    \<exists>qs. chat_messages (rs @ ms) = Inr qs \<and> chat_ok (map tc_ID ts) qs"
proof (induction rs arbitrary: ts)
  case (Cons m rs)
  then obtain t ts' where t: "ts = t # ts'" "answers m t" "list_all2 answers rs ts'" by (cases ts) auto
  then obtain qs where "chat_messages (rs @ ms) = Inr qs" "chat_ok (map tc_ID ts') qs" using Cons by blast
  with t show ?case by (simp add: chat_message_def answers_def bindR_def)
qed simp

lemma chat_rounds: "list_all exchange rounds \<Longrightarrow> \<exists>ps. chat_messages (concat rounds) = Inr ps \<and> chat_ok [] ps"
proof (induction rounds)
  case (Cons r rounds)
  obtain a rs where r: "r = a # rs" "ms_Role a = ''assistant''" "ms_Calls a \<noteq> []" "list_all2 answers rs (ms_Calls a)"
    using Cons.prems by (auto simp: exchange_def)
  obtain ps where "chat_messages (concat rounds) = Inr ps" "chat_ok [] ps" using Cons by auto
  then obtain qs where "chat_messages (rs @ concat rounds) = Inr qs" "chat_ok (map tc_ID (ms_Calls a)) qs" using chat_results [OF r(4)] by blast
  with r show ?case by (simp add: chat_message_def bindR_def comp_def)
qed simp

lemma dialogue_chat: "dialogue u ms \<Longrightarrow> ms_Role u = ''user'' \<Longrightarrow> \<exists>ps. chat_messages ms = Inr (UserMessage (ms_Text u) # ps) \<and> chat_ok [] ps"
  using chat_rounds by (fastforce simp: dialogue_def chat_message_def bindR_def)

text \<open>
  C36. The conversation a model service is given. Each request a stage run makes is accepted by both adapters. For
  Anthropic the messages begin and end with the user and alternate, and each message of the user answers exactly the calls of the
  assistant's message before it; for OpenAI the system's and the user's message are followed by rounds in which each call is answered by
  one message, in order. Nothing else is sent, and the error of a request can only be that of a schema.
\<close>

theorem conversation_accepted:
  assumes run: "Run X rg inp st = (e, out, st')" "n_done st' = n_done st @ ys @ Chatted m rq # zs"
    and valid: "list_all (\<lambda>m. list_all (\<lambda>t. valid (tc_Args t)) (ms_Calls m)) (cq_Messages rq)"
  shows "(\<exists>ps. turns_ok [] ps \<and> anthropic_params valid schema model rq = bindR (tool_params schema (cq_Tools rq)) (\<lambda>ts.
      Inr \<lparr>np_Model = model, np_MaxTokens = 8192, np_System = cq_System rq, np_Messages = ps, np_Tools = ts\<rparr>)) \<and>
    (\<exists>ps. chat_ok [] ps \<and> openai_params schema model rq = bindR (tool_params schema (cq_Tools rq)) (\<lambda>ts.
      Inr \<lparr>cp_Model = model, cp_MaxTokens = 8192, cp_Messages = SystemMessage (cq_System rq) # UserMessage (ms_Text (user_message inp)) # ps, cp_Tools = ts\<rparr>))"
proof -
  obtain k where "well_asked X inp k (user_message inp) (n_done st) (ys @ Chatted m rq # zs)"
    using Run_spec [OF run(1), of "\<lambda>_ _. True"] run(2) by (auto simp: globs_def)
  then obtain ms where rq: "rq = request k ms" "dialogue (user_message inp) ms" unfolding well_asked_def by blast
  have u: "ms_Role (user_message inp) = ''user''" "ms_Calls (user_message inp) = []" by (simp_all add: user_message_def)
  have "\<exists>ps. add_messages valid ms [] = Inr ps \<and> turns_ok [] ps" using dialogue_turns [OF rq(2) u] valid rq(1) by (simp add: request_def)
  moreover have "\<exists>ps. chat_messages ms = Inr (UserMessage (ms_Text (user_message inp)) # ps) \<and> chat_ok [] ps" by (rule dialogue_chat [OF rq(2) u(1)])
  ultimately show ?thesis using rq(1) by (auto simp: anthropic_params_def openai_params_def request_def max_tokens_def bindR_def)
qed

theorem conversation_accepted_witness:
  "\<exists>out st p u rq. Run quick fake_registry (quick_input ''plan'') box_state = (None, out, st) \<and>
     n_done st = [Checked ''t'', Emitted ''agent.thinking'' p, Chatted Fake rq, Emitted ''usage'' u] \<and>
     (\<exists>ps. turns_ok [] ps \<and> anthropic_params (\<lambda>_. True) (\<lambda>_. Inr JNull) ''m'' rq = bindR (tool_params (\<lambda>_. Inr JNull) (cq_Tools rq)) (\<lambda>ts.
       Inr \<lparr>np_Model = ''m'', np_MaxTokens = 8192, np_System = cq_System rq, np_Messages = ps, np_Tools = ts\<rparr>))"
proof -
  obtain out st p u rq where run: "Run quick fake_registry (quick_input ''plan'') box_state = (None, out, st)"
    and tr: "n_done st = [Checked ''t'', Emitted ''agent.thinking'' p, Chatted Fake rq, Emitted ''usage'' u]" using quick_plan by blast
  have "n_done st = n_done box_state @ [Checked ''t'', Emitted ''agent.thinking'' p] @ Chatted Fake rq # [Emitted ''usage'' u]"
    using tr by (simp add: box_state_def)
  from conversation_accepted [OF run this, of "\<lambda>_. True" "\<lambda>_. Inr JNull" "''m''"] run tr show ?thesis by (auto simp: list_all_iff)
qed

end
