(* ===== verification/Hosting.thy ===== *)
theory Hosting
  imports Orchestrator
begin

text \<open>
  The client of the hosting service (\<open>internal/scm/github.go\<close>): addresses, credentials, the REST calls and \<open>Open\<close>, which opens
  the pull request of a branch or updates the one that is open. The HTTP client, with the service behind it as a state, and the
  JSON encoder and decoder are parameters.
\<close>

section \<open>Data\<close>

record GitHub =
  gh_Token :: string
  gh_APIURL :: string
  gh_GitURL :: string
  gh_WebURL :: string

record pull =
  pu_Number :: int
  pu_URL :: string

record HttpRequest =
  hq_Method :: string
  hq_URL :: string
  hq_Header :: "(string \<times> string) list"
  hq_Body :: "string option"

text \<open>\<open>hp_Body\<close> is what reading the body gives.\<close>

record HttpResponse =
  hp_Status :: int
  hp_Body :: "string result"

record 's host =
  ho_Marshal :: "(string \<times> string) list \<Rightarrow> string result"
  ho_Refused :: "string \<Rightarrow> err option"
  ho_Do :: "HttpRequest \<Rightarrow> 's \<Rightarrow> HttpResponse result \<times> 's"
  ho_Pulls :: "string \<Rightarrow> pull list result"
  ho_Pull :: "string \<Rightarrow> pull result"
  ho_Failure :: "string \<Rightarrow> string \<times> string list"

section \<open>Addresses and credentials\<close>

definition TrimRight :: "string \<Rightarrow> char \<Rightarrow> string" where
  "TrimRight s c = rev (dropWhile (\<lambda>x. x = c) (rev s))"

definition RemoteURL :: "GitHub \<Rightarrow> string \<Rightarrow> string \<Rightarrow> string" where
  "RemoteURL g owner repo = TrimRight (gh_GitURL g) slash @ ''/'' @ owner @ ''/'' @ repo @ ''.git''"

definition Web :: "GitHub \<Rightarrow> string" where
  "Web g = (if gh_WebURL g \<noteq> [] then TrimRight (gh_WebURL g) slash else TrimRight (gh_GitURL g) slash)"

text \<open>\<open>base64.StdEncoding\<close>.\<close>

definition base64_alphabet :: string where
  "base64_alphabet = ''ABCDEFGHIJKLMNOPQRSTUVWXYZabcdefghijklmnopqrstuvwxyz0123456789+/''"

definition base64_char :: "nat \<Rightarrow> char" where
  "base64_char n = base64_alphabet ! (n mod 64)"

fun EncodeToString :: "string \<Rightarrow> string" where
  "EncodeToString [] = []"
| "EncodeToString [a] = (let n = of_char a * 16 in [base64_char (n div 64), base64_char n] @ ''=='')"
| "EncodeToString [a, b] = (let n = (of_char a * 256 + of_char b) * 4 in [base64_char (n div 4096), base64_char (n div 64), base64_char n] @ ''='')"
| "EncodeToString (a # b # c # s) =
     (let n = (of_char a * 256 + of_char b) * 256 + of_char c
      in [base64_char (n div 262144), base64_char (n div 4096), base64_char (n div 64), base64_char n] @ EncodeToString s)"

definition GitHeader :: "GitHub \<Rightarrow> string" where
  "GitHeader g = ''Authorization: Basic '' @ EncodeToString (''x-access-token:'' @ gh_Token g)"

section \<open>Calls\<close>

text \<open>\<open>url.QueryEscape\<close> and the encoded query of \<open>find\<close>; \<open>url.Values\<close> are encoded in the order of their names.\<close>

definition unreserved :: "char \<Rightarrow> bool" where
  "unreserved c \<longleftrightarrow> c \<in> set ''ABCDEFGHIJKLMNOPQRSTUVWXYZabcdefghijklmnopqrstuvwxyz0123456789-_.~''"

definition hex_digit :: "nat \<Rightarrow> char" where
  "hex_digit n = ''0123456789ABCDEF'' ! n"

definition escape_char :: "char \<Rightarrow> string" where
  "escape_char c = (if unreserved c then [c] else if c = CHR '' '' then ''+'' else [CHR ''%'', hex_digit (of_char c div 16), hex_digit (of_char c mod 16)])"

definition QueryEscape :: "string \<Rightarrow> string" where
  "QueryEscape s = concat (map escape_char s)"

definition call :: "'s host \<Rightarrow> GitHub \<Rightarrow> string \<Rightarrow> string \<Rightarrow> (string \<times> string) list option \<Rightarrow> (string \<Rightarrow> 'a result) \<Rightarrow> 's \<Rightarrow> (int \<times> 'a result) \<times> 's" where
  "call H g method path body dec s =
     (case (case body of None \<Rightarrow> Inr None | Some kvs \<Rightarrow> bindR (ho_Marshal H kvs) (\<lambda>raw. Inr (Some raw))) of
        Inl e \<Rightarrow> ((0, Inl e), s)
      | Inr raw \<Rightarrow>
     (let url = TrimRight (gh_APIURL g) slash @ path;
          req = \<lparr>hq_Method = method, hq_URL = url,
            hq_Header = [(''Authorization'', ''Bearer '' @ gh_Token g), (''Accept'', ''application/vnd.github+json''), (''X-GitHub-Api-Version'', ''2022-11-28'')]
              @ (if body \<noteq> None then [(''Content-Type'', ''application/json'')] else []), hq_Body = raw\<rparr>
      in case ho_Refused H url of Some e \<Rightarrow> ((0, Inl e), s)
      | None \<Rightarrow>
     (case ho_Do H req s of
        (Inl e, s) \<Rightarrow> ((0, Inl e), s)
      | (Inr res, s) \<Rightarrow>
     (case hp_Body res of
        Inl e \<Rightarrow> ((hp_Status res, Inl e), s)
      | Inr full \<Rightarrow>
     (let raw = take (2 ^ 20) full
      in if 300 \<le> hp_Status res then
           (let (message, more) = ho_Failure H raw
            in ((hp_Status res, Inl (Errorf (''github '' @ method @ '' '' @ hd (SplitN path ''?'' 2) @ '': '' @ show_int (hp_Status res) @ '' '' @ Join (message # more) ''; ''))), s))
         else case dec raw of
             Inl e \<Rightarrow> ((hp_Status res, Inl (Wrapf (''github '' @ method @ '' '' @ path @ '': invalid response'' @ [nl]) e)), s)
           | Inr v \<Rightarrow> ((hp_Status res, Inr v), s))))))"

definition pulls_path :: "PullRequest \<Rightarrow> string" where
  "pulls_path pr = ''/repos/'' @ pr_Owner pr @ ''/'' @ pr_Repo pr @ ''/pulls''"

definition find_path :: "PullRequest \<Rightarrow> string" where
  "find_path pr = pulls_path pr @ ''?head='' @ QueryEscape (pr_Owner pr @ '':'' @ pr_Head pr) @ ''&state=open''"

definition find_pull :: "'s host \<Rightarrow> GitHub \<Rightarrow> PullRequest \<Rightarrow> 's \<Rightarrow> pull option result \<times> 's" where
  "find_pull H g pr s =
     (case call H g ''GET'' (find_path pr) None (ho_Pulls H) s of
        ((_, Inl e), s) \<Rightarrow> (Inl e, s)
      | ((_, Inr []), s) \<Rightarrow> (Inr None, s)
      | ((_, Inr (p # _)), s) \<Rightarrow> (Inr (Some p), s))"

definition update_pull :: "'s host \<Rightarrow> GitHub \<Rightarrow> PullRequest \<Rightarrow> pull \<Rightarrow> 's \<Rightarrow> Opened result \<times> 's" where
  "update_pull H g pr p s =
     (case call H g ''PATCH'' (pulls_path pr @ ''/'' @ show_int (pu_Number p)) (Some [(''title'', pr_Title pr), (''body'', pr_Body pr)]) (\<lambda>_. Inr ()) s of
        ((_, Inl e), s) \<Rightarrow> (Inl e, s)
      | ((_, Inr _), s) \<Rightarrow> (Inr \<lparr>op_URL = pu_URL p, op_Number = pu_Number p, op_Created = False\<rparr>, s))"

definition Open :: "'s host \<Rightarrow> GitHub \<Rightarrow> PullRequest \<Rightarrow> 's \<Rightarrow> Opened result \<times> 's" where
  "Open H g pr s =
     (case find_pull H g pr s of
        (Inl e, s) \<Rightarrow> (Inl e, s)
      | (Inr (Some p), s) \<Rightarrow> update_pull H g pr p s
      | (Inr None, s) \<Rightarrow>
          (case call H g ''POST'' (pulls_path pr) (Some [(''title'', pr_Title pr), (''head'', pr_Head pr), (''base'', pr_Base pr), (''body'', pr_Body pr)]) (ho_Pull H) s of
             ((_, Inr p), s) \<Rightarrow> (Inr \<lparr>op_URL = pu_URL p, op_Number = pu_Number p, op_Created = True\<rparr>, s)
           | ((status, Inl e), s) \<Rightarrow>
               if status \<noteq> 422 then (Inl e, s)
               else (case find_pull H g pr s of
                   (Inr (Some p), s) \<Rightarrow> update_pull H g pr p s
                 | (_, s) \<Rightarrow> (Inl e, s))))"

section \<open>The service\<close>

text \<open>
  What \<open>call\<close> sends, and what the documented service does with it. \<open>opened\<close> are the open pull requests of the branch, the
  newest first. Listing them changes nothing and gives them; an update keeps them; creating one may add one, also when the answer
  is lost or when another publisher has been faster, and adds the one it returns when it succeeds.
\<close>

definition sent_request :: "GitHub \<Rightarrow> string \<Rightarrow> string \<Rightarrow> string option \<Rightarrow> HttpRequest \<Rightarrow> bool" where
  "sent_request g method path raw req \<longleftrightarrow> hq_Method req = method \<and> hq_URL req = TrimRight (gh_APIURL g) slash @ path \<and> hq_Body req = raw"

definition host_laws :: "'s host \<Rightarrow> GitHub \<Rightarrow> PullRequest \<Rightarrow> ('s \<Rightarrow> pull list) \<Rightarrow> bool" where
  "host_laws H g pr opened \<longleftrightarrow>
     (\<forall>req s r s'. sent_request g ''GET'' (find_path pr) None req \<longrightarrow> ho_Do H req s = (r, s') \<longrightarrow>
        opened s' = opened s \<and> (\<forall>res full ps. r = Inr res \<longrightarrow> hp_Status res < 300 \<longrightarrow> hp_Body res = Inr full \<longrightarrow> ho_Pulls H (take (2 ^ 20) full) = Inr ps \<longrightarrow> ps = opened s)) \<and>
     (\<forall>n raw req s r s'. sent_request g ''PATCH'' (pulls_path pr @ ''/'' @ show_int n) raw req \<longrightarrow> ho_Do H req s = (r, s') \<longrightarrow> opened s' = opened s) \<and>
     (\<forall>raw req s r s'. sent_request g ''POST'' (pulls_path pr) raw req \<longrightarrow> ho_Do H req s = (r, s') \<longrightarrow>
        (opened s' = opened s \<or> (\<exists>p. opened s' = p # opened s)) \<and>
        (\<forall>res full p. r = Inr res \<longrightarrow> hp_Status res < 300 \<longrightarrow> hp_Body res = Inr full \<longrightarrow> ho_Pull H (take (2 ^ 20) full) = Inr p \<longrightarrow> opened s' = p # opened s))"

text \<open>The query names one branch: escaping loses nothing.\<close>

lemma hex_digit_inj: "n < 16 \<Longrightarrow> m < 16 \<Longrightarrow> hex_digit n = hex_digit m \<longleftrightarrow> n = m"
  unfolding hex_digit_def by (rule nth_eq_iff_index_eq) simp_all

lemma hex_pair_inj:
  assumes "hex_digit (of_char c div 16) = hex_digit (of_char d div 16)" "hex_digit (of_char c mod 16) = hex_digit (of_char d mod 16)"
  shows "c = d"
proof -
  have "(of_char c :: nat) div 16 < 16" "(of_char d :: nat) div 16 < 16" using nat_of_char_less_256 [of c] nat_of_char_less_256 [of d] by linarith+
  with assms have "(of_char c :: nat) div 16 = of_char d div 16" "(of_char c :: nat) mod 16 = of_char d mod 16" by (simp_all add: hex_digit_inj)
  then have "(of_char c :: nat) = of_char d" by (metis div_mult_mod_eq)
  then show ?thesis by simp
qed

lemma escape_char_inj: "escape_char c @ x = escape_char d @ y \<Longrightarrow> c = d \<and> x = y"
proof -
  have u: "\<not> unreserved (CHR ''%'')" "\<not> unreserved (CHR ''+'')" by (simp_all add: unreserved_def)
  assume "escape_char c @ x = escape_char d @ y"
  with u hex_pair_inj [of c d] show ?thesis unfolding escape_char_def by (auto split: if_splits)
qed

lemma escape_char_nonempty: "escape_char c \<noteq> []"
  by (simp add: escape_char_def)

lemma QueryEscape_inj: "QueryEscape s = QueryEscape t \<Longrightarrow> s = t"
proof (induction s arbitrary: t)
  case Nil
  then show ?case by (cases t) (simp_all add: QueryEscape_def escape_char_nonempty)
next
  case (Cons c s)
  then obtain d t' where t: "t = d # t'" by (cases t) (auto simp: QueryEscape_def escape_char_nonempty)
  with Cons.prems escape_char_inj [of c "QueryEscape s" d "QueryEscape t'"] have "c = d \<and> QueryEscape s = QueryEscape t'" by (simp add: QueryEscape_def)
  with Cons.IH t show ?case by blast
qed

lemma find_path_inj: "pr_Owner pr = pr_Owner qr \<Longrightarrow> pr_Repo pr = pr_Repo qr \<Longrightarrow> find_path pr = find_path qr \<longleftrightarrow> pr_Head pr = pr_Head qr"
  using QueryEscape_inj by (auto simp: find_path_def pulls_path_def)

lemma call_cases:
  assumes "call H g method path body dec s = ((status, r), s')"
  obtains (unsent) "\<exists>e. r = Inl e" "s' = s"
  | (sent) req raw out where "sent_request g method path raw req" "body = None \<longrightarrow> raw = None" "ho_Do H req s = (out, s')"
      "\<And>v. r = Inr v \<Longrightarrow> \<exists>res full. out = Inr res \<and> hp_Status res < 300 \<and> hp_Body res = Inr full \<and> dec (take (2 ^ 20) full) = Inr v"
proof -
  let ?raw = "case body of None \<Rightarrow> Inr None | Some kvs \<Rightarrow> bindR (ho_Marshal H kvs) (\<lambda>raw. Inr (Some raw))"
  show thesis
  proof (cases ?raw)
    case (Inl e)
    with assms have "Inl e = r \<and> s = s'" by (simp add: call_def)
    with unsent show ?thesis by blast
  next
    case raw: (Inr raw)
    let ?url = "TrimRight (gh_APIURL g) slash @ path"
    let ?req = "\<lparr>hq_Method = method, hq_URL = ?url,
            hq_Header = [(''Authorization'', ''Bearer '' @ gh_Token g), (''Accept'', ''application/vnd.github+json''), (''X-GitHub-Api-Version'', ''2022-11-28'')]
              @ (if body \<noteq> None then [(''Content-Type'', ''application/json'')] else []), hq_Body = raw\<rparr>"
    show ?thesis
    proof (cases "ho_Refused H ?url")
      case (Some e)
      with assms raw have "Inl e = r \<and> s = s'" by (simp add: call_def Let_def)
      with unsent show ?thesis by blast
    next
      case None
      obtain out s1 where d: "ho_Do H ?req s = (out, s1)" by (cases "ho_Do H ?req s")
      have rest: "s1 = s' \<and> (\<forall>v. r = Inr v \<longrightarrow> (\<exists>res full. out = Inr res \<and> hp_Status res < 300 \<and> hp_Body res = Inr full \<and> dec (take (2 ^ 20) full) = Inr v))"
        using assms raw None d by (auto simp: call_def Let_def split: sum.splits prod.splits if_splits)
      have "sent_request g method path raw ?req" by (simp add: sent_request_def)
      moreover have "body = None \<longrightarrow> raw = None" using raw by auto
      ultimately show ?thesis using sent [of raw ?req out] d rest by blast
    qed
  qed
qed

lemma find_pull_spec:
  assumes "host_laws H g pr opened" "find_pull H g pr s = (r, s')"
  shows "opened s' = opened s" "r = Inr (Some p) \<Longrightarrow> \<exists>ps. opened s = p # ps" "r = Inr None \<Longrightarrow> opened s = []"
proof -
  obtain status v s1 where c: "call H g ''GET'' (find_path pr) None (ho_Pulls H) s = ((status, v), s1)" by (metis prod.exhaust)
  then have s1: "s' = s1" "r = (case v of Inl e \<Rightarrow> Inl e | Inr [] \<Rightarrow> Inr None | Inr (p # _) \<Rightarrow> Inr (Some p))"
    using assms(2) by (auto simp: find_pull_def split: sum.splits list.splits)
  have "opened s1 = opened s \<and> (\<forall>ps. v = Inr ps \<longrightarrow> ps = opened s)" using c
  proof (cases rule: call_cases)
    case (sent req raw out)
    then show ?thesis using assms(1) unfolding host_laws_def by fastforce
  qed auto
  then show "opened s' = opened s" "r = Inr (Some p) \<Longrightarrow> \<exists>ps. opened s = p # ps" "r = Inr None \<Longrightarrow> opened s = []"
    using s1 by (auto split: sum.splits list.splits)
qed

lemma update_pull_spec:
  assumes "host_laws H g pr opened" "update_pull H g pr p s = (r, s')"
  shows "opened s' = opened s" "r = Inr a \<Longrightarrow> a = \<lparr>op_URL = pu_URL p, op_Number = pu_Number p, op_Created = False\<rparr>"
proof -
  let ?path = "pulls_path pr @ ''/'' @ show_int (pu_Number p)"
  let ?body = "Some [(''title'', pr_Title pr), (''body'', pr_Body pr)]"
  obtain status v s1 where c: "call H g ''PATCH'' ?path ?body (\<lambda>_. Inr ()) s = ((status, v), s1)" by (metis prod.exhaust)
  then have s1: "s' = s1" "\<forall>a. r = Inr a \<longrightarrow> a = \<lparr>op_URL = pu_URL p, op_Number = pu_Number p, op_Created = False\<rparr>"
    using assms(2) by (auto simp: update_pull_def split: sum.splits)
  have "opened s1 = opened s" using c
  proof (cases rule: call_cases)
    case (sent req raw out)
    then show ?thesis using assms(1) unfolding host_laws_def by blast
  qed simp
  with s1 show "opened s' = opened s" "r = Inr a \<Longrightarrow> a = \<lparr>op_URL = pu_URL p, op_Number = pu_Number p, op_Created = False\<rparr>" by auto
qed

lemma create_spec:
  assumes "host_laws H g pr opened" "call H g ''POST'' (pulls_path pr) body (ho_Pull H) s = ((status, r), s')"
  shows "opened s' = opened s \<or> (\<exists>p. opened s' = p # opened s)" "r = Inr p \<Longrightarrow> opened s' = p # opened s"
proof -
  have "(opened s' = opened s \<or> (\<exists>p. opened s' = p # opened s)) \<and> (r = Inr p \<longrightarrow> opened s' = p # opened s)" using assms(2)
  proof (cases rule: call_cases)
    case (sent req raw out)
    have law: "(opened s' = opened s \<or> (\<exists>p. opened s' = p # opened s)) \<and>
        (\<forall>res full p. out = Inr res \<longrightarrow> hp_Status res < 300 \<longrightarrow> hp_Body res = Inr full \<longrightarrow> ho_Pull H (take (2 ^ 20) full) = Inr p \<longrightarrow> opened s' = p # opened s)"
      using assms(1) sent(1,3) unfolding host_laws_def by blast
    then show ?thesis using sent(4) by blast
  qed auto
  then show "opened s' = opened s \<or> (\<exists>p. opened s' = p # opened s)" "r = Inr p \<Longrightarrow> opened s' = p # opened s" by auto
qed

text \<open>One call of \<open>Open\<close>, whatever fails in it.\<close>

lemma Open_spec:
  assumes laws: "host_laws H g pr opened" and o: "Open H g pr s = (r, s')"
  shows "opened s \<noteq> [] \<Longrightarrow> opened s' = opened s" "opened s = [] \<Longrightarrow> length (opened s') \<le> 1"
    and "r = Inr a \<Longrightarrow> \<exists>p ps. opened s' = p # ps \<and> op_URL a = pu_URL p \<and> op_Number a = pu_Number p \<and> (op_Created a \<longrightarrow> opened s = [])"
proof -
  have "(opened s \<noteq> [] \<longrightarrow> opened s' = opened s) \<and> (opened s = [] \<longrightarrow> length (opened s') \<le> 1) \<and>
    (\<forall>a. r = Inr a \<longrightarrow> (\<exists>p ps. opened s' = p # ps \<and> op_URL a = pu_URL p \<and> op_Number a = pu_Number p \<and> (op_Created a \<longrightarrow> opened s = [])))"
  proof -
    obtain f s1 where f: "find_pull H g pr s = (f, s1)" by (cases "find_pull H g pr s")
    note F = find_pull_spec [OF laws f]
    consider (failed) e where "f = Inl e" | (found) p where "f = Inr (Some p)" | (none) "f = Inr None" by (metis option.exhaust sumE)
    then show ?thesis
    proof cases
      case failed
      then show ?thesis using o f F(1) by (auto simp: Open_def)
    next
      case (found p)
      then have u: "update_pull H g pr p s1 = (r, s')" using o f by (simp add: Open_def)
      show ?thesis using update_pull_spec [OF laws u] F(1) F(2) [OF found] by auto
    next
      case none
      let ?body = "Some [(''title'', pr_Title pr), (''head'', pr_Head pr), (''base'', pr_Base pr), (''body'', pr_Body pr)]"
      obtain status v s2 where c: "call H g ''POST'' (pulls_path pr) ?body (ho_Pull H) s1 = ((status, v), s2)" by (metis prod.exhaust)
      note C = create_spec [OF laws c]
      have e: "opened s1 = []" "opened s = []" using F(1) F(3) [OF none] by simp_all
      show ?thesis
      proof (cases v)
        case (Inr p)
        then have "r = Inr \<lparr>op_URL = pu_URL p, op_Number = pu_Number p, op_Created = True\<rparr>" "s' = s2" using o f none c by (auto simp: Open_def)
        then show ?thesis using C(2) [OF Inr] e by simp
      next
        case (Inl err)
        obtain f2 s3 where f2: "find_pull H g pr s2 = (f2, s3)" by (cases "find_pull H g pr s2")
        note F2 = find_pull_spec [OF laws f2]
        show ?thesis
        proof (cases "status = 422 \<and> (\<exists>p. f2 = Inr (Some p))")
          case True
          then obtain p where p: "status = 422" "f2 = Inr (Some p)" by blast
          then have u: "update_pull H g pr p s3 = (r, s')" using o f none c Inl f2 by (simp add: Open_def)
          show ?thesis using update_pull_spec [OF laws u] F2(1) F2(2) [OF p(2)] C(1) e by auto
        next
          case False
          then have "r = Inl err \<and> (s' = s2 \<or> s' = s3)" using o f none c Inl f2 by (auto simp: Open_def split: sum.splits option.splits if_splits)
          then show ?thesis using C(1) e F2(1) by auto
        qed
      qed
    qed
  qed
  then show "opened s \<noteq> [] \<Longrightarrow> opened s' = opened s" "opened s = [] \<Longrightarrow> length (opened s') \<le> 1"
    "r = Inr a \<Longrightarrow> \<exists>p ps. opened s' = p # ps \<and> op_URL a = pu_URL p \<and> op_Number a = pu_Number p \<and> (op_Created a \<longrightarrow> opened s = [])" by blast+
qed

text \<open>Further attempts, successful or not.\<close>

fun attempts :: "'s host \<Rightarrow> GitHub \<Rightarrow> PullRequest \<Rightarrow> nat \<Rightarrow> 's \<Rightarrow> 's" where
  "attempts H g pr 0 s = s"
| "attempts H g pr (Suc n) s = attempts H g pr n (snd (Open H g pr s))"

lemma attempts_keep: "host_laws H g pr opened \<Longrightarrow> opened s \<noteq> [] \<Longrightarrow> opened (attempts H g pr n s) = opened s"
proof (induction n arbitrary: s)
  case (Suc n)
  have "opened (snd (Open H g pr s)) = opened s" using Open_spec(1) [OF Suc.prems(1) _ Suc.prems(2)] by (metis prod.collapse)
  with Suc show ?case by simp
qed simp

text \<open>However often opening fails before, there is at most one.\<close>

lemma attempts_one: "host_laws H g pr opened \<Longrightarrow> length (opened s) \<le> 1 \<Longrightarrow> length (opened (attempts H g pr n s)) \<le> 1"
proof (induction n arbitrary: s)
  case (Suc n)
  have "length (opened (snd (Open H g pr s))) \<le> 1"
    using Open_spec(1,2) [OF Suc.prems(1), of s "fst (Open H g pr s)" "snd (Open H g pr s)"] Suc.prems(2) by (cases "opened s = []") auto
  with Suc show ?case by simp
qed simp

text \<open>
  C35. Opening a pull request is idempotent. From a branch without a pull request, and after any number of attempts, failed ones
  and ones in which another publisher was faster included, a successful \<open>Open\<close> reports the only open pull request of the branch;
  every later successful one, again after any number of attempts, reports the same one, not as created, and none is added.
\<close>

theorem pull_request_reused:
  assumes laws: "host_laws H g pr opened" and start: "opened s = []"
    and first: "Open H g pr (attempts H g pr m s) = (Inr a, s1)" and again: "Open H g pr (attempts H g pr n s1) = (Inr b, s2)"
  shows "op_URL b = op_URL a \<and> op_Number b = op_Number a \<and> \<not> op_Created b \<and>
    opened s2 = opened s1 \<and> (\<exists>p. opened s1 = [p] \<and> pu_URL p = op_URL a \<and> pu_Number p = op_Number a)"
proof -
  obtain p ps where p: "opened s1 = p # ps" "op_URL a = pu_URL p" "op_Number a = pu_Number p" using Open_spec(3) [OF laws first refl] by blast
  have "length (opened (attempts H g pr m s)) \<le> 1" using attempts_one [OF laws, of s m] start by simp
  then have "length (opened s1) \<le> 1" using Open_spec(1,2) [OF laws first] by fastforce
  then have one: "opened s1 = [p]" using p(1) by simp
  then have k: "opened (attempts H g pr n s1) = [p]" using attempts_keep [OF laws, of s1 n] by simp
  then have "opened s2 = [p]" using Open_spec(1) [OF laws again] by simp
  moreover have "\<not> op_Created b" "op_URL b = pu_URL p" "op_Number b = pu_Number p" using Open_spec(3) [OF laws again refl] k calculation by auto
  ultimately show ?thesis using p one by simp
qed

text \<open>A service with room for one pull request.\<close>

definition small_host :: "bool host" where
  "small_host = \<lparr>ho_Marshal = (\<lambda>_. Inr ''{}''), ho_Refused = (\<lambda>_. None),
     ho_Do = (\<lambda>req s. if hq_Method req = ''GET'' then (Inr \<lparr>hp_Status = 200, hp_Body = Inr (if s then ''1'' else [])\<rparr>, s)
        else if hq_Method req = ''PATCH'' then (Inr \<lparr>hp_Status = 200, hp_Body = Inr []\<rparr>, s)
        else if s then (Inr \<lparr>hp_Status = 422, hp_Body = Inr []\<rparr>, s) else (Inr \<lparr>hp_Status = 201, hp_Body = Inr ''1''\<rparr>, True)),
     ho_Pulls = (\<lambda>raw. Inr (if raw = [] then [] else [\<lparr>pu_Number = 7, pu_URL = ''u''\<rparr>])), ho_Pull = (\<lambda>raw. Inr \<lparr>pu_Number = 7, pu_URL = ''u''\<rparr>),
     ho_Failure = (\<lambda>raw. ([], []))\<rparr>"

definition small_pr :: PullRequest where
  "small_pr = \<lparr>pr_Owner = ''o'', pr_Repo = ''r'', pr_Head = ''devsquad/t'', pr_Base = ''main'', pr_Title = ''t'', pr_Body = ''b''\<rparr>"

definition small_hub :: GitHub where
  "small_hub = \<lparr>gh_Token = ''k'', gh_APIURL = ''https://api/'', gh_GitURL = ''https://git'', gh_WebURL = []\<rparr>"

lemma small_laws: "host_laws small_host small_hub small_pr (\<lambda>s. if s then [\<lparr>pu_Number = 7, pu_URL = ''u''\<rparr>] else [])"
  unfolding host_laws_def by (auto simp: small_host_def sent_request_def split: if_splits)

lemma small_opens:
  "Open small_host small_hub small_pr False = (Inr \<lparr>op_URL = ''u'', op_Number = 7, op_Created = True\<rparr>, True)"
  "Open small_host small_hub small_pr True = (Inr \<lparr>op_URL = ''u'', op_Number = 7, op_Created = False\<rparr>, True)"
  by (simp_all add: Open_def find_pull_def update_pull_def call_def small_host_def Let_def)

theorem pull_request_reused_witness:
  "Open small_host small_hub small_pr (attempts small_host small_hub small_pr 0 False) = (Inr \<lparr>op_URL = ''u'', op_Number = 7, op_Created = True\<rparr>, True) \<and>
   (let b = \<lparr>op_URL = ''u'', op_Number = 7, op_Created = False\<rparr>
    in Open small_host small_hub small_pr (attempts small_host small_hub small_pr 1 True) = (Inr b, True) \<and> op_Number b = 7 \<and> \<not> op_Created b)"
proof -
  let ?b = "\<lparr>op_URL = ''u'', op_Number = 7, op_Created = False\<rparr>"
  have f: "Open small_host small_hub small_pr (attempts small_host small_hub small_pr 0 False) = (Inr \<lparr>op_URL = ''u'', op_Number = 7, op_Created = True\<rparr>, True)"
    by (simp add: small_opens)
  have a: "Open small_host small_hub small_pr (attempts small_host small_hub small_pr 1 True) = (Inr ?b, True)"
    by (simp add: small_opens)
  have "(if False then [\<lparr>pu_Number = 7, pu_URL = ''u''\<rparr>] else []) = []" by simp
  from pull_request_reused [OF small_laws this f a] f a show ?thesis by (simp add: Let_def)
qed

end
