(* ===== verification/Fake_Model.thy ===== *)
theory Fake_Model
  imports Model_Adapters Hosting
begin

text \<open>
  The model that answers without a service (\<open>internal/llm/fake/fake.go\<close>), used for development and when the
  configuration forces it. It reads the request between markers, and answers with a plan, a document, or a call that writes the
  document. Its three regular expressions are written out as functions; encoding the arguments of a call as JSON is a parameter.
\<close>

section \<open>Reading the request\<close>

text \<open>The text whose code points these are.\<close>

definition utf8 :: "nat list \<Rightarrow> string" where
  "utf8 rs = concat (map EncodeRune rs)"

definition marker :: "string \<Rightarrow> string \<Rightarrow> string" where
  "marker txt name =
     (case Cut txt (''[['' @ name @ '']]'') of
        None \<Rightarrow> []
      | Some (_, rest) \<Rightarrow> (case Cut rest (''[[/'' @ name @ '']]'') of None \<Rightarrow> [] | Some (inner, _) \<Rightarrow> TrimSpace inner))"

text \<open>The words of letters, digits and Korean syllables: \<open>FindAllString\<close> with a limit.\<close>

definition word_rune :: "nat \<Rightarrow> bool" where
  "word_rune r \<longleftrightarrow> 65 \<le> r \<and> r \<le> 90 \<or> 97 \<le> r \<and> r \<le> 122 \<or> 48 \<le> r \<and> r \<le> 57 \<or> 0xAC00 \<le> r \<and> r \<le> 0xD7A3"

fun words_from :: "string \<Rightarrow> (nat \<times> string) list \<Rightarrow> string list" where
  "words_from w [] = (if w = [] then [] else [w])"
| "words_from w ((r, b) # rs) =
     (if word_rune r then words_from (w @ b) rs else (if w = [] then [] else [w]) @ words_from [] rs)"

definition slug_of :: "string \<Rightarrow> string" where
  "slug_of cmd = (let slug = ToLower (Join (take 4 (words_from [] (runes cmd))) ''-'') in if slug = [] then ''task'' else slug)"

text \<open>
  The first path below \<open>docs/\<close> with the ending \<open>.md\<close>: the characters between do not include the dot, so that they are
  followed by the ending exactly when the longest run of them is.
\<close>

definition doc_char :: "char \<Rightarrow> bool" where
  "doc_char c \<longleftrightarrow> c \<in> set ''ABCDEFGHIJKLMNOPQRSTUVWXYZabcdefghijklmnopqrstuvwxyz0123456789_-/''"

fun find_doc :: "string \<Rightarrow> string" where
  "find_doc [] = []"
| "find_doc (c # cs) =
     (let r = takeWhile doc_char (drop 5 (c # cs))
      in if HasPrefix (c # cs) ''docs/'' \<and> r \<noteq> [] \<and> HasPrefix (drop (5 + length r) (c # cs)) ''.md'' then ''docs/'' @ r @ ''.md''
         else find_doc cs)"

text \<open>The first write path that a denial lists.\<close>

definition path_char :: "char \<Rightarrow> bool" where
  "path_char c \<longleftrightarrow> c \<noteq> CHR 0x22 \<and> c \<noteq> CHR ''*''"

definition paths_mark :: string where
  "paths_mark = ''write_paths=['' @ [CHR 0x22]"

fun find_write :: "string \<Rightarrow> string" where
  "find_write [] = []"
| "find_write (c # cs) =
     (let r = takeWhile path_char (drop (length paths_mark) (c # cs))
      in if HasPrefix (c # cs) paths_mark \<and> r \<noteq> [] then r else find_write cs)"

section \<open>The texts\<close>

definition fake_tail :: "string \<Rightarrow> string" where \<open>
  fake_tail feedback = (if feedback \<noteq> [] then [nl] @ ''## '' @ utf8 [0xBC18, 0xB824] @ '' '' @ utf8 [0xBC18, 0xC601] @ '' '' @ utf8 [0xB0B4, 0xC5ED] @ [nl] @ ''- '' @ feedback @ [nl] else [])\<close>

definition fake_body :: "string \<Rightarrow> string \<Rightarrow> string" where \<open>
  fake_body slug tail =
     ''# '' @ slug @ '' '' @ utf8 [0xC694, 0xAD6C, 0xC0AC, 0xD56D] @ '' '' @ utf8 [0xC815, 0xC758, 0xC11C] @ '' (fake)'' @ [nl] @ tail @
      [nl] @ ''## 1. '' @ utf8 [0xBC30, 0xACBD, 0xACFC] @ '' '' @ utf8 [0xBAA9, 0xD45C] @ [nl] @ ''(fake)'' @ [nl] @ [nl] @ ''## 4. '' @
      utf8 [0xC720, 0xC2A4, 0xCF00, 0xC774, 0xC2A4] @ [nl] @ ''### UC-001: (fake)'' @ [nl] @ ''- '' @ utf8 [0xC0AC, 0xC804, 0xC870, 0xAC74] @
      '':'' @ [nl] @ ''- '' @ utf8 [0xC8FC] @ '' '' @ utf8 [0xD750, 0xB984] @ '':'' @ [nl] @ ''  1. '' @ utf8 [0x2026] @ [nl] @ ''- '' @
      utf8 [0xB300, 0xC548, 0xB7, 0xC608, 0xC678] @ '' '' @ utf8 [0xD750, 0xB984] @ '':'' @ [nl] @ ''  - E1 '' @ utf8 [0x2026] @ [nl] @
      ''- '' @ utf8 [0xC0AC, 0xD6C4, 0xC870, 0xAC74] @ '':'' @ [nl] @ [nl] @ ''```yaml'' @ [nl] @ ''# devsquad:summary'' @ [nl] @
      ''use_cases: [UC-001]'' @ [nl] @ ''screens: []'' @ [nl] @ ''entities: []'' @ [nl] @ ''```'' @ [nl]\<close>

definition fake_plan :: "string \<Rightarrow> string \<Rightarrow> string" where \<open>
  fake_plan slug feedback =
     ''## '' @ utf8 [0xACC4, 0xD68D] @ '' '' @ utf8 [0x2014] @ '' '' @ slug @ [nl] @ ''1. '' @ utf8 [0xC694, 0xCCAD] @ '' '' @ utf8 [0xD574, 0xC11D] @ '': (fake) '' @ utf8 [0xC694, 0xCCAD, 0xC744] @ '' '' @
      utf8 [0xC694, 0xAD6C, 0xC0AC, 0xD56D] @ '' '' @ utf8 [0xC815, 0xC758, 0xC11C, 0xB85C] @ '' '' @
      utf8 [0xAD6C, 0xC870, 0xD654, 0xD55C, 0xB2E4] @ [nl] @ ''2. '' @ utf8 [0xC791, 0xC131, 0xD560] @ '' '' @ utf8 [0xBB38, 0xC11C] @
      '': docs/spec/'' @ slug @
      ''.md'' @ [nl] @ ''3. '' @ utf8 [0xD3EC, 0xD568, 0xD560] @ '' '' @ utf8 [0xC720, 0xC2A4, 0xCF00, 0xC774, 0xC2A4] @ '' ('' @
      utf8 [0xC608, 0xC0C1] @ ''): UC-001, UC-002'' @ [nl] @ ''4. '' @ utf8 [0xD655, 0xC778, 0xC774] @ '' '' @
      utf8 [0xD544, 0xC694, 0xD55C] @ '' '' @ utf8 [0xC9C8, 0xBB38] @ '': '' @ utf8 [0xC5C6, 0xC74C] @ [nl] @ ''5. '' @
      utf8 [0xBC94, 0xC704] @ '' '' @ utf8 [0xBC16, 0xC73C, 0xB85C] @ '' '' @ utf8 [0xB458] @ '' '' @ utf8 [0xAC83] @ '': '' @
      utf8 [0xC5C6, 0xC74C] @ [nl] @
      (if feedback \<noteq> [] then ''6. '' @ utf8 [0xBC18, 0xB824] @ '' '' @ utf8 [0xBC18, 0xC601] @ '': '' @ feedback else [])\<close>

definition writing_text :: string where \<open>
  writing_text =
      utf8 [0xACB0, 0xACFC, 0xBB3C, 0xC744] @ '' '' @ utf8 [0xD30C, 0xC77C, 0xB85C] @ '' '' @ utf8 [0xC791, 0xC131, 0xD569, 0xB2C8, 0xB2E4] @
      ''.''\<close>

definition done_text :: string where \<open>
  done_text =
      utf8 [0xC644, 0xB8CC] @ '' '' @ utf8 [0xAE30, 0xC900] @ '' '' @ utf8 [0xC790, 0xAC00] @ '' '' @ utf8 [0xC810, 0xAC80] @ '' '' @
      utf8 [0xC644, 0xB8CC] @ ''. '' @ utf8 [0xACB0, 0xACFC, 0xBB3C, 0xC744] @ '' '' @ utf8 [0xC81C, 0xCD9C, 0xD569, 0xB2C8, 0xB2E4] @
      ''.''\<close>

section \<open>Answering\<close>

text \<open>The first user's message that is not empty, and the last answer of a tool.\<close>

definition user_text :: "Message list \<Rightarrow> string" where
  "user_text ms = (case filter (\<lambda>m. ms_Role m = ''user'' \<and> ms_Text m \<noteq> []) ms of [] \<Rightarrow> [] | m # _ \<Rightarrow> ms_Text m)"

definition last_tool :: "Message list \<Rightarrow> string option" where
  "last_tool ms = (case filter (\<lambda>m. ms_Role m = ''tool'') ms of [] \<Rightarrow> None | m # ms' \<Rightarrow> Some (ms_Text (last (m # ms'))))"

definition fake_target :: "string \<Rightarrow> string \<Rightarrow> string option \<Rightarrow> string" where
  "fake_target user slug answer =
     (case answer of
        None \<Rightarrow> (if find_doc user = [] then ''docs/spec/'' @ slug @ ''.md'' else find_doc user)
      | Some t \<Rightarrow> (if find_write t = [] then ''docs/fallback.md'' else TrimRight (find_write t) slash @ ''/fallback.md''))"

definition fake_answer :: "(string \<Rightarrow> string \<Rightarrow> string) \<Rightarrow> ChatRequest \<Rightarrow> string \<times> ToolCall list" where
  "fake_answer marshal r =
     (let user = user_text (cq_Messages r); answer = last_tool (cq_Messages r);
          slug = slug_of (marker user ''COMMAND''); feedback = marker user ''FEEDBACK''; body = fake_body slug (fake_tail feedback)
      in if Contains user ''[[MODE:plan]]'' then (fake_plan slug feedback, [])
         else if cq_Tools r = [] then (body, [])
         else if list_ex (\<lambda>t. tl_Name t = ''write_file'') (cq_Tools r) \<and> (case answer of None \<Rightarrow> True | Some t \<Rightarrow> HasPrefix t ''[denied]'')
         then (writing_text, [\<lparr>tc_ID = (if answer = None then ''call_1'' else ''call_2''), tc_Name = ''write_file'', tc_Args = marshal (fake_target user slug answer) body\<rparr>])
         else (done_text, []))"

definition fake_Chat :: "(string \<Rightarrow> string \<Rightarrow> string) \<Rightarrow> err option \<Rightarrow> ChatRequest \<Rightarrow> ChatResponse result" where
  "fake_Chat marshal ctx r =
     (case ctx of
        Some e \<Rightarrow> Inl e
      | None \<Rightarrow>
          (let n = length (cq_System r) + sum_list (map (\<lambda>m. length (ms_Text m)) (cq_Messages r)); (txt, calls) = fake_answer marshal r
           in Inr \<lparr>cs_Text = txt, cs_ToolCalls = calls, cs_Model = ''fake/echo'',
             cs_Usage = \<lparr>us_Input = int (n div 4), us_Output = int (length txt div 4), us_CacheRead = 0, us_CacheWrite = 0\<rparr>\<rparr>))"

section \<open>Laws\<close>

text \<open>A plan is answered without a call, and a write that was not denied ends the conversation.\<close>

lemma fake_plan_answers: "Contains (user_text (cq_Messages r)) ''[[MODE:plan]]'' \<Longrightarrow> snd (fake_answer marshal r) = []"
  by (simp add: fake_answer_def Let_def)

lemma fake_stops: "last_tool (cq_Messages r) = Some t \<Longrightarrow> \<not> HasPrefix t ''[denied]'' \<Longrightarrow> snd (fake_answer marshal r) = []"
  by (simp add: fake_answer_def Let_def)

text \<open>It asks for at most one call at a time, and only for one of the tools it was offered.\<close>

lemma fake_offered: "tc \<in> set (snd (fake_answer marshal r)) \<Longrightarrow> \<exists>t\<in>set (cq_Tools r). tl_Name t = tc_Name tc"
  by (auto simp: fake_answer_def Let_def list_ex_iff split: if_splits)

text \<open>What it is asked to write has the form of a document path.\<close>

lemma find_doc_form: "find_doc s \<noteq> [] \<Longrightarrow> \<exists>r. find_doc s = ''docs/'' @ r @ ''.md'' \<and> r \<noteq> [] \<and> list_all doc_char r"
proof (induction s)
  case (Cons c cs)
  show ?case
  proof (cases "HasPrefix (c # cs) ''docs/'' \<and> takeWhile doc_char (drop 5 (c # cs)) \<noteq> [] \<and> HasPrefix (drop (5 + length (takeWhile doc_char (drop 5 (c # cs)))) (c # cs)) ''.md''")
    case True
    then have "find_doc (c # cs) = ''docs/'' @ takeWhile doc_char (drop 5 (c # cs)) @ ''.md''" by (simp add: Let_def del: drop_Suc_Cons)
    with True show ?thesis by (auto simp: list_all_iff dest: set_takeWhileD intro!: exI [of _ "takeWhile doc_char (drop 5 (c # cs))"])
  next
    case False
    then have "find_doc (c # cs) = find_doc cs" by (auto simp: Let_def simp del: drop_Suc_Cons)
    with Cons show ?thesis by simp
  qed
qed simp

end
