(* ===== verification/Lifecycle.thy ===== *)
theory Lifecycle
  imports Orchestrator "HOL-Library.Multiset"
begin

text \<open>
  The goroutines of the orchestrator (\<open>internal/orchestrator/orchestrator.go\<close>: \<open>New\<close>, \<open>task\<close>, \<open>spawn\<close>,
  \<open>Wake\<close>, \<open>Cancel\<close>, \<open>Close\<close>, \<open>StartRecovery\<close>, \<open>recoveryLoop\<close>). What a goroutine does is in
  \<open>Orchestrator\<close>; here are the goroutines that the wait group counts, the contexts and the steps in which they start and end.
  Shown: what \<open>Close\<close> waits for ends for good, a cancelled task stays cancelled, and the recovery loop stops.
\<close>

section \<open>State and operations\<close>

datatype job = Reconciling string | Recovering | StageRun string string

text \<open>
  \<open>eg_stopped\<close> says that the context of the orchestrator has an error; that of a task has one when its own cancel function was
  called or the orchestrator's context has one. \<open>eg_jobs\<close> are the goroutines that have not called \<open>Done\<close>.
\<close>

record engine =
  eg_closed :: bool
  eg_stopped :: bool
  eg_tasks :: "string \<rightharpoonup> bool"
  eg_jobs :: "job list"

definition New_engine :: "bool \<Rightarrow> engine" where
  "New_engine parent_stopped = \<lparr>eg_closed = False, eg_stopped = parent_stopped, eg_tasks = Map.empty, eg_jobs = []\<rparr>"

definition task_run :: "string \<Rightarrow> engine \<Rightarrow> engine" where
  "task_run rid e = (case eg_tasks e rid of Some _ \<Rightarrow> e | None \<Rightarrow> e\<lparr>eg_tasks := (eg_tasks e)(rid \<mapsto> False)\<rparr>)"

definition task_stopped :: "string \<Rightarrow> engine \<Rightarrow> bool" where
  "task_stopped rid e \<longleftrightarrow> eg_stopped e \<or> eg_tasks e rid = Some True"

definition spawn :: "job \<Rightarrow> engine \<Rightarrow> bool \<times> engine" where
  "spawn j e = (if eg_closed e \<or> eg_stopped e then (False, e) else (True, e\<lparr>eg_jobs := eg_jobs e @ [j]\<rparr>))"

definition Wake :: "string \<Rightarrow> engine \<Rightarrow> engine" where
  "Wake rid e = snd (spawn (Reconciling rid) e)"

definition Cancel :: "string \<Rightarrow> engine \<Rightarrow> engine" where
  "Cancel rid e = (let e' = task_run rid e in e'\<lparr>eg_tasks := (eg_tasks e')(rid \<mapsto> True)\<rparr>)"

text \<open>\<open>Close\<close> up to \<open>wg.Wait\<close>, and when that returns.\<close>

definition Close_begin :: "engine \<Rightarrow> engine" where
  "Close_begin e = e\<lparr>eg_closed := True, eg_stopped := True\<rparr>"

definition Close_returns :: "engine \<Rightarrow> bool" where
  "Close_returns e \<longleftrightarrow> eg_jobs e = []"

definition StartRecovery :: "engine \<Rightarrow> engine" where
  "StartRecovery e = snd (spawn Recovering e)"

text \<open>The end of a goroutine: a stage run wakes its task before it counts as done.\<close>

definition remove_nth :: "nat \<Rightarrow> 'a list \<Rightarrow> 'a list" where
  "remove_nth i xs = take i xs @ drop (Suc i) xs"

definition end_job :: "nat \<Rightarrow> engine \<Rightarrow> engine" where
  "end_job i e =
     (let e' = (case eg_jobs e ! i of StageRun rid s \<Rightarrow> Wake rid e | _ \<Rightarrow> e)
      in e'\<lparr>eg_jobs := remove_nth i (eg_jobs e')\<rparr>)"

section \<open>Steps\<close>

datatype happening = Woken string | Cancelled string | Closed | Signalled | Recovery | Reconciles string | Spawns string string | Ended

text \<open>
  What may happen, in any order: a service wakes or cancels a task, the process is signalled, a reconciliation looks a task up
  and spawns a stage run, a goroutine ends.
\<close>

inductive engine_step :: "engine \<Rightarrow> happening \<Rightarrow> engine \<Rightarrow> bool" where
  woken: "engine_step e (Woken rid) (Wake rid e)"
| cancelled: "engine_step e (Cancelled rid) (Cancel rid e)"
| closed: "engine_step e Closed (Close_begin e)"
| signalled: "engine_step e Signalled (e\<lparr>eg_stopped := True\<rparr>)"
| recovery: "engine_step e Recovery (StartRecovery e)"
| reconciles: "j \<in> set (eg_jobs e) \<Longrightarrow> j = Reconciling rid \<or> j = Recovering \<Longrightarrow> engine_step e (Reconciles rid) (task_run rid e)"
| spawns: "j \<in> set (eg_jobs e) \<Longrightarrow> j = Reconciling rid \<or> j = Recovering \<Longrightarrow> engine_step e (Spawns rid s) (snd (spawn (StageRun rid s) e))"
| ended: "i < length (eg_jobs e) \<Longrightarrow> engine_step e Ended (end_job i e)"

inductive engine_run :: "engine \<Rightarrow> happening list \<Rightarrow> engine \<Rightarrow> bool" where
  start: "engine_run e [] e"
| more: "engine_run e hs e' \<Longrightarrow> engine_step e' h e'' \<Longrightarrow> engine_run e (hs @ [h]) e''"

section \<open>The recovery loop\<close>

text \<open>
  \<open>stopped n\<close> is the context at the n-th look at it: each round looks once before \<open>Recover\<close> and once in the \<open>select\<close>. The result is
  the number of calls of \<open>Recover\<close>.
\<close>

partial_function (option) recoveryLoop :: "(nat \<Rightarrow> bool) \<Rightarrow> nat \<Rightarrow> nat \<Rightarrow> nat option" where
  "recoveryLoop stopped n calls =
     (if stopped n then Some calls
      else if stopped (n + 1) then Some (calls + 1)
      else recoveryLoop stopped (n + 2) (calls + 1))"

declare recoveryLoop.simps [code]

section \<open>Laws\<close>

lemma spawn_closed: "eg_closed e \<Longrightarrow> spawn j e = (False, e)"
  by (simp add: spawn_def)

lemma length_remove_nth: "i < length xs \<Longrightarrow> Suc (length (remove_nth i xs)) = length xs"
  by (simp add: remove_nth_def)

lemma mset_remove_nth: "mset (remove_nth i xs) \<subseteq># mset xs"
proof (cases "i < length xs")
  case True
  then have "mset xs = mset (take i xs @ xs ! i # drop (Suc i) xs)" by (simp add: id_take_nth_drop [symmetric])
  then show ?thesis by (simp add: remove_nth_def)
qed (simp add: remove_nth_def)

text \<open>A closed orchestrator: its goroutines only end.\<close>

lemma closed_step:
  assumes "engine_step e h e'" "eg_closed e" "eg_stopped e"
  shows "eg_closed e'" "eg_stopped e'" "mset (eg_jobs e') \<subseteq># mset (eg_jobs e)" "length (eg_jobs e) = length (eg_jobs e') + (if h = Ended then 1 else 0)"
  using assms
  by (cases rule: engine_step.cases;
      auto simp: Wake_def Cancel_def task_run_def StartRecovery_def spawn_def Close_begin_def end_job_def Let_def mset_remove_nth
        split: option.splits job.splits dest: length_remove_nth)+

lemma closed_run:
  assumes "engine_run e hs e'" "eg_closed e" "eg_stopped e"
  shows "eg_closed e' \<and> eg_stopped e' \<and> mset (eg_jobs e') \<subseteq># mset (eg_jobs e) \<and> length (eg_jobs e) = length (eg_jobs e') + count_list hs Ended"
  using assms
proof (induction rule: engine_run.induct)
  case (more e hs e' h e'')
  then show ?case using closed_step [OF more.hyps(2)] by (auto intro: subset_mset.order_trans)
qed simp

lemma stays_cancelled: "engine_step e h e' \<Longrightarrow> eg_tasks e rid = Some True \<Longrightarrow> eg_tasks e' rid = Some True"
  by (cases rule: engine_step.cases)
    (auto simp: Wake_def Cancel_def task_run_def StartRecovery_def spawn_def Close_begin_def end_job_def Let_def split: option.splits job.splits)

lemma stays_stopped: "engine_step e h e' \<Longrightarrow> eg_stopped e \<Longrightarrow> eg_stopped e'"
  by (cases rule: engine_step.cases)
    (auto simp: Wake_def Cancel_def task_run_def StartRecovery_def spawn_def Close_begin_def end_job_def Let_def split: option.splits job.splits)

lemma cancelled_run: "engine_run e hs e' \<Longrightarrow> task_stopped rid e \<Longrightarrow> task_stopped rid e'"
  by (induction rule: engine_run.induct) (auto simp: task_stopped_def dest: stays_cancelled stays_stopped)

text \<open>The loop looks at the context until it has an error, and recovers no more after that.\<close>

lemma recoveryLoop_from:
  "stopped (n + k) \<Longrightarrow> \<forall>i<k. \<not> stopped (n + i) \<Longrightarrow> recoveryLoop stopped n c = Some (c + (k + 1) div 2)"
proof (induction k arbitrary: n c rule: less_induct)
  case (less k)
  consider "k = 0" | "k = 1" | j where "k = j + 2" by (metis One_nat_def add_2_eq_Suc' less_2_cases_iff not_less_eq old.nat.exhaust numeral_2_eq_2)
  then show ?case
  proof cases
    case (3 j)
    have "\<not> stopped n" "\<not> stopped (n + 1)" using less.prems(2) 3 by (auto dest: spec [of _ 0] spec [of _ 1])
    moreover have "\<forall>i<j. \<not> stopped (n + 2 + i)" using less.prems(2) 3 by (metis add.assoc add.commute add_less_cancel_right)
    then have "recoveryLoop stopped (n + 2) (c + 1) = Some (c + 1 + (j + 1) div 2)"
      using less.IH [of j "n + 2" "c + 1"] less.prems(1) 3 by (simp add: add.assoc add.commute)
    ultimately show ?thesis using 3 by (subst recoveryLoop.simps) simp
  qed (use less.prems in \<open>auto simp: recoveryLoop.simps [of stopped n]\<close>)
qed

text \<open>
  C37. Closing the orchestrator. Once \<open>Close\<close> has begun, whatever happens starts no goroutine: those that are counted are
  some of those that were running, each end takes one away and one can always end next, so that the wait returns exactly when as many have ended as
  were running; every task's context is cancelled, and the recovery loop returns at the first look at the context that shows
  it, having recovered once for each full round before.
\<close>

theorem closing_quiesces:
  assumes "engine_run (Close_begin e) hs e'"
  shows "mset (eg_jobs e') \<subseteq># mset (eg_jobs e) \<and> (Close_returns e' \<longleftrightarrow> count_list hs Ended = length (eg_jobs e)) \<and>
    (\<not> Close_returns e' \<longrightarrow> (\<exists>e''. engine_step e' Ended e'')) \<and> (\<forall>rid. task_stopped rid e') \<and>
    (\<forall>stopped m. stopped m \<and> (\<forall>i<m. \<not> stopped i) \<longrightarrow> recoveryLoop stopped 0 0 = Some ((m + 1) div 2))"
proof -
  have c: "eg_stopped e'" "mset (eg_jobs e') \<subseteq># mset (eg_jobs e)" "length (eg_jobs e) = length (eg_jobs e') + count_list hs Ended"
    using closed_run [OF assms] by (auto simp: Close_begin_def)
  have "\<exists>e''. engine_step e' Ended e''" if "eg_jobs e' \<noteq> []" using that ended [of 0 e'] by auto
  with c show ?thesis using recoveryLoop_from [of _ 0 _ 0] by (auto simp: Close_returns_def task_stopped_def)
qed

theorem closing_quiesces_witness:
  "let e = Wake ''t'' (New_engine False); e' = end_job 0 (Close_begin e)
   in eg_jobs e = [Reconciling ''t''] \<and> engine_run (Close_begin e) [Woken ''u'', Ended] e' \<and> Close_returns e' \<and> task_stopped ''u'' e'"
proof -
  let ?e = "Wake ''t'' (New_engine False)"
  have j: "eg_jobs ?e = [Reconciling ''t'']" by (simp add: Wake_def spawn_def New_engine_def)
  have w: "Wake ''u'' (Close_begin ?e) = Close_begin ?e" by (simp add: Wake_def spawn_def Close_begin_def)
  have "engine_run (Close_begin ?e) ([] @ [Woken ''u'']) (Close_begin ?e)" using more [OF start woken] w by metis
  moreover have "0 < length (eg_jobs (Close_begin ?e))" using j by (simp add: Close_begin_def)
  ultimately have r: "engine_run (Close_begin ?e) [Woken ''u'', Ended] (end_job 0 (Close_begin ?e))"
    using more [OF _ ended] by fastforce
  from closing_quiesces [OF r] j r show ?thesis by (simp add: Let_def)
qed

end
