(* ===== verification/Connections.thy ===== *)
theory Connections
  imports Ws_Hub Event_Bus
begin

text \<open>
  The goroutines that listen to the event bus: the notifier (\<open>internal/notify/notifier.go\<close>) and the connections of the
  WebSocket hub (\<open>internal/ws/hub.go\<close>: \<open>New\<close>, \<open>Close\<close> and what \<open>ServeHTTP\<close> does around the loop of
  \<open>Ws_Hub\<close>). The steps of the goroutines of all connections interleave in any order. Shown: a connection that has returned is released in
  the hub and on the bus; and the notifier hands on what it receives, in order.
\<close>

section \<open>The notifier\<close>

text \<open>
  What \<open>select\<close> sees: the context's end, the closed \<open>Done\<close>, an event; between two looks the bus changes. A case that is
  not ready is passed over.
\<close>

datatype notice = CtxDone | SubDone | GotEvent | Others bus_op

record notified =
  nf_bus :: Bus
  nf_events :: "Event list"
  nf_failures :: nat

fun notify_loop :: "(Event \<Rightarrow> err option) \<Rightarrow> nat \<Rightarrow> notice list \<Rightarrow> notified \<Rightarrow> bool \<times> notified" where
  "notify_loop notify i [] st = (False, st)"
| "notify_loop notify i (CtxDone # ns) st = (True, st)"
| "notify_loop notify i (SubDone # ns) st =
     (if sb_done (b_subs (nf_bus st) ! i) then (True, st\<lparr>nf_failures := nf_failures st + 1\<rparr>) else notify_loop notify i ns st)"
| "notify_loop notify i (Others op # ns) st = notify_loop notify i ns (st\<lparr>nf_bus := fst (bus_step (nf_bus st) op)\<rparr>)"
| "notify_loop notify i (GotEvent # ns) st =
     (case Receive (nf_bus st) i of
        (None, b) \<Rightarrow> notify_loop notify i ns st
      | (Some ev, b) \<Rightarrow> notify_loop notify i ns \<lparr>nf_bus = b, nf_events = nf_events st @ [ev],
            nf_failures = (case notify ev of None \<Rightarrow> nf_failures st | Some _ \<Rightarrow> nf_failures st + 1)\<rparr>)"

definition notify_Run :: "(Event \<Rightarrow> err option) \<Rightarrow> notice list \<Rightarrow> Bus \<Rightarrow> bool \<times> notified" where
  "notify_Run notify ns b =
     (let (i, b1) = Subscribe b []; (ended, st) = notify_loop notify i ns \<lparr>nf_bus = b1, nf_events = [], nf_failures = 0\<rparr>
      in (ended, if ended then st\<lparr>nf_bus := Close (nf_bus st) i\<rparr> else st))"

definition Noop_Notify :: "Event \<Rightarrow> err option" where
  "Noop_Notify ev = None"

section \<open>The connections of the hub\<close>

text \<open>
  A connection: whether its context is cancelled, whether the reading goroutine is alive, the channel of
  commands, its subscription, the state of its loop, whether it was closed and whether \<open>ServeHTTP\<close> has returned.
\<close>

record session =
  se_cancelled :: bool
  se_reading :: bool
  se_commands :: "message list"
  se_sub :: nat
  se_conn :: conn
  se_closed :: bool
  se_returned :: bool

record Hub =
  hb_bus :: Bus
  hb_conns :: "nat list"
  hb_sessions :: "session list"

definition New_hub :: "Bus \<Rightarrow> Hub" where
  "New_hub b = \<lparr>hb_bus = b, hb_conns = [], hb_sessions = []\<rparr>"

definition upd :: "nat \<Rightarrow> (session \<Rightarrow> session) \<Rightarrow> Hub \<Rightarrow> Hub" where
  "upd i f h = h\<lparr>hb_sessions := (hb_sessions h)[i := f (hb_sessions h ! i)]\<rparr>"

definition Close_hub :: "Hub \<Rightarrow> Hub" where
  "Close_hub h = fold (\<lambda>i. upd i (\<lambda>s. s\<lparr>se_closed := True\<rparr>)) (hb_conns h) h"

text \<open>The connection is accepted, entered and subscribed; and the deferred calls when \<open>ServeHTTP\<close> returns.\<close>

definition accept_conn :: "Hub \<Rightarrow> Hub" where
  "accept_conn h =
     (let (i, b) = Subscribe (hb_bus h) []; s = \<lparr>se_cancelled = False, se_reading = True, se_commands = [], se_sub = i, se_conn = opened_conn, se_closed = False, se_returned = False\<rparr>
      in h\<lparr>hb_bus := b, hb_conns := length (hb_sessions h) # hb_conns h, hb_sessions := hb_sessions h @ [s]\<rparr>)"

definition leave :: "nat \<Rightarrow> Hub \<Rightarrow> Hub" where
  "leave i h =
     (let h' = upd i (\<lambda>s. s\<lparr>se_cancelled := True, se_closed := True, se_returned := True\<rparr>) h
      in h'\<lparr>hb_bus := Close (hb_bus h') (se_sub (hb_sessions h ! i)), hb_conns := removeAll i (hb_conns h')\<rparr>)"

definition loop_step :: "nat \<Rightarrow> bool \<times> conn \<Rightarrow> Hub \<Rightarrow> Hub" where
  "loop_step i r h = (let h' = upd i (\<lambda>s. s\<lparr>se_conn := snd r\<rparr>) h in if fst r then h' else leave i h')"

datatype hub_op =
    Accepted
  | Arrives nat message
  | ReadFails nat
  | Overflows nat
  | TakesEvent nat
  | TakesCommand nat
  | SeesDone nat
  | RequestEnds nat
  | HubCloses
  | BusChanges Event

definition live :: "nat \<Rightarrow> Hub \<Rightarrow> bool" where
  "live i h \<longleftrightarrow> i < length (hb_sessions h) \<and> \<not> se_returned (hb_sessions h ! i)"

text \<open>
  The reading goroutine waits while eight commands are in the channel. A step that is not ready is passed over; one whose replay would not end
  has no result.
\<close>

fun hub_step :: "hub_world \<Rightarrow> hub_op \<Rightarrow> Hub \<Rightarrow> Hub option" where
  "hub_step w Accepted h = Some (accept_conn h)"
| "hub_step w (Arrives i m) h =
     Some (if i < length (hb_sessions h) \<and> se_reading (hb_sessions h ! i) \<and> length (se_commands (hb_sessions h ! i)) < 8
           then upd i (\<lambda>s. s\<lparr>se_commands := se_commands s @ [m]\<rparr>) h else h)"
| "hub_step w (ReadFails i) h =
     Some (if i < length (hb_sessions h) \<and> se_reading (hb_sessions h ! i) then upd i (\<lambda>s. s\<lparr>se_reading := False, se_cancelled := True\<rparr>) h else h)"
| "hub_step w (Overflows i) h =
     Some (if i < length (hb_sessions h) \<and> sb_done (b_subs (hb_bus h) ! se_sub (hb_sessions h ! i)) \<and> \<not> se_cancelled (hb_sessions h ! i)
           then upd i (\<lambda>s. s\<lparr>se_cancelled := True, se_closed := True\<rparr>) h else h)"
| "hub_step w (TakesEvent i) h =
     Some (if live i h then
             (case Receive (hb_bus h) (se_sub (hb_sessions h ! i)) of
                (None, b) \<Rightarrow> h
              | (Some ev, b) \<Rightarrow> loop_step i (forward w ev (se_conn (hb_sessions h ! i))) (h\<lparr>hb_bus := b\<rparr>))
           else h)"
| "hub_step w (TakesCommand i) h =
     (if live i h then
        (case se_commands (hb_sessions h ! i) of
           [] \<Rightarrow> Some h
         | m # ms \<Rightarrow>
             (case command w m (se_conn (hb_sessions h ! i)) of
                None \<Rightarrow> None
              | Some r \<Rightarrow> Some (loop_step i r (upd i (\<lambda>s. s\<lparr>se_commands := ms\<rparr>) h))))
      else Some h)"
| "hub_step w (SeesDone i) h = Some (if live i h \<and> se_cancelled (hb_sessions h ! i) then leave i h else h)"
| "hub_step w (RequestEnds i) h = Some (if i < length (hb_sessions h) then upd i (\<lambda>s. s\<lparr>se_cancelled := True\<rparr>) h else h)"
| "hub_step w HubCloses h = Some (Close_hub h)"
| "hub_step w (BusChanges ev) h = Some (h\<lparr>hb_bus := Publish (hb_bus h) ev\<rparr>)"

fun hub_run :: "hub_world \<Rightarrow> hub_op list \<Rightarrow> Hub \<Rightarrow> Hub option" where
  "hub_run w [] h = Some h"
| "hub_run w (op # ops) h = (case hub_step w op h of None \<Rightarrow> None | Some h' \<Rightarrow> hub_run w ops h')"

section \<open>Laws of the connections\<close>

definition session_ok :: "Bus \<Rightarrow> nat list \<Rightarrow> nat \<Rightarrow> session \<Rightarrow> bool" where
  "session_ok b conns i s \<longleftrightarrow> length (se_commands s) \<le> 8 \<and> se_sub s < length (b_subs b) \<and> (se_reading s \<or> se_cancelled s) \<and>
     (if se_returned s then i \<notin> set conns \<and> se_closed s \<and> se_cancelled s \<and> \<not> sb_in (b_subs b ! se_sub s) else i \<in> set conns)"

definition hub_ok :: "Hub \<Rightarrow> bool" where
  "hub_ok h \<longleftrightarrow> (\<forall>i<length (hb_sessions h). session_ok (hb_bus h) (hb_conns h) i (hb_sessions h ! i)) \<and>
     (\<forall>i\<in>set (hb_conns h). i < length (hb_sessions h)) \<and> distinct (map se_sub (hb_sessions h))"

text \<open>A subscriber that has left the bus does not come back.\<close>

definition bus_later :: "Bus \<Rightarrow> Bus \<Rightarrow> bool" where
  "bus_later b b' \<longleftrightarrow> length (b_subs b) \<le> length (b_subs b') \<and> (\<forall>k<length (b_subs b). sb_in (b_subs b' ! k) \<longrightarrow> sb_in (b_subs b ! k))"

lemma bus_later_refl: "bus_later b b"
  by (simp add: bus_later_def)

lemma bus_later_ops:
  "bus_later b (snd (Subscribe b task))" "bus_later b (Publish b ev)" "bus_later b (Close b k)" "bus_later b (snd (Receive b k))"
  by (auto simp: bus_later_def Subscribe_def Publish_def Close_def Receive_def deliver_def remove_def nth_append nth_list_update split: list.splits if_splits)

lemma hub_okI:
  assumes "\<And>i. i < length (hb_sessions h) \<Longrightarrow> session_ok (hb_bus h) (hb_conns h) i (hb_sessions h ! i)"
    and "\<And>i. i \<in> set (hb_conns h) \<Longrightarrow> i < length (hb_sessions h)" "distinct (map se_sub (hb_sessions h))"
  shows "hub_ok h"
  using assms by (simp add: hub_ok_def)

lemma hub_okD:
  assumes "hub_ok h"
  shows "i < length (hb_sessions h) \<Longrightarrow> session_ok (hb_bus h) (hb_conns h) i (hb_sessions h ! i)"
    and "i \<in> set (hb_conns h) \<Longrightarrow> i < length (hb_sessions h)" "distinct (map se_sub (hb_sessions h))"
  using assms by (simp_all add: hub_ok_def)

lemma session_later: "session_ok b conns i s \<Longrightarrow> bus_later b b' \<Longrightarrow> session_ok b' conns i s"
  by (auto simp: session_ok_def bus_later_def split: if_splits)

lemma hub_later: "hub_ok h \<Longrightarrow> bus_later (hb_bus h) b' \<Longrightarrow> hub_ok (h\<lparr>hb_bus := b'\<rparr>)"
  by (rule hub_okI) (auto dest: hub_okD intro: session_later)

lemma subs_updated: "se_sub s = se_sub (ss ! i) \<Longrightarrow> map se_sub (ss[i := s]) = map se_sub ss"
  by (cases "i < length ss") (simp_all add: map_update list_update_same_conv list_update_beyond)

lemma hub_upd:
  assumes ok: "hub_ok h" and f: "\<And>s. se_sub (f s) = se_sub s \<and> se_returned (f s) = se_returned s \<and> (se_closed s \<longrightarrow> se_closed (f s)) \<and> (se_cancelled s \<longrightarrow> se_cancelled (f s)) \<and> (se_reading (f s) = se_reading s \<or> se_cancelled (f s))"
    and "length (se_commands (f (hb_sessions h ! i))) \<le> 8"
  shows "hub_ok (upd i f h)"
proof (rule hub_okI)
  fix j assume "j < length (hb_sessions (upd i f h))"
  then have j: "j < length (hb_sessions h)" by (simp add: upd_def)
  show "session_ok (hb_bus (upd i f h)) (hb_conns (upd i f h)) j (hb_sessions (upd i f h) ! j)"
  proof (cases "j = i")
    case True
    then show ?thesis using hub_okD(1) [OF ok j] f [of "hb_sessions h ! i"] assms(3) j by (auto simp: upd_def session_ok_def)
  next
    case False
    then show ?thesis using hub_okD(1) [OF ok j] by (simp add: upd_def)
  qed
next
  show "distinct (map se_sub (hb_sessions (upd i f h)))" using hub_okD(3) [OF ok] f by (simp add: upd_def subs_updated)
qed (use hub_okD(2) [OF ok] in \<open>simp add: upd_def\<close>)

lemma upd_simps [simp]:
  "length (hb_sessions (upd i f h)) = length (hb_sessions h)" "hb_bus (upd i f h) = hb_bus h" "hb_conns (upd i f h) = hb_conns h"
  "i < length (hb_sessions h) \<Longrightarrow> hb_sessions (upd i f h) ! j = (if j = i then f (hb_sessions h ! i) else hb_sessions h ! j)"
  by (simp_all add: upd_def nth_list_update)

lemma commands_bound: "hub_ok h \<Longrightarrow> i < length (hb_sessions h) \<Longrightarrow> length (se_commands (hb_sessions h ! i)) \<le> 8"
  using hub_okD(1) [of h i] by (simp add: session_ok_def)

lemma hub_accept:
  assumes ok: "hub_ok h"
  shows "hub_ok (accept_conn h)"
proof (rule hub_okI)
  let ?n = "length (hb_sessions h)"
  let ?b = "snd (Subscribe (hb_bus h) [])"
  have h': "hb_bus (accept_conn h) = ?b" "hb_conns (accept_conn h) = ?n # hb_conns h" "length (hb_sessions (accept_conn h)) = Suc ?n"
    by (simp_all add: accept_conn_def Subscribe_def Let_def)
  show "i < length (hb_sessions (accept_conn h))" if "i \<in> set (hb_conns (accept_conn h))" for i
    using that hub_okD(2) [OF ok, of i] h' by auto
  show "session_ok (hb_bus (accept_conn h)) (hb_conns (accept_conn h)) i (hb_sessions (accept_conn h) ! i)" if "i < length (hb_sessions (accept_conn h))" for i
  proof (cases "i < ?n")
    case True
    then have "hb_sessions (accept_conn h) ! i = hb_sessions h ! i" by (simp add: accept_conn_def Subscribe_def Let_def nth_append)
    moreover have "session_ok ?b (hb_conns h) i (hb_sessions h ! i)" by (rule session_later [OF hub_okD(1) [OF ok True] bus_later_ops(1)])
    ultimately show ?thesis using h' True by (auto simp: session_ok_def)
  next
    case False
    then have "i = ?n" using that h'(3) by simp
    then show ?thesis by (simp add: accept_conn_def Subscribe_def Let_def session_ok_def)
  qed
  have "se_sub s \<noteq> length (b_subs (hb_bus h))" if m: "s \<in> set (hb_sessions h)" for s
  proof -
    obtain i where "i < ?n" "hb_sessions h ! i = s" using m by (auto simp: in_set_conv_nth)
    then show ?thesis using hub_okD(1) [OF ok, of i] by (simp add: session_ok_def)
  qed
  then have "length (b_subs (hb_bus h)) \<notin> se_sub ` set (hb_sessions h)" by (metis (no_types, lifting) imageE)
  then show "distinct (map se_sub (hb_sessions (accept_conn h)))" using hub_okD(3) [OF ok] by (simp add: accept_conn_def Subscribe_def Let_def)
qed

lemma hub_leave:
  assumes ok: "hub_ok h" and i: "i < length (hb_sessions h)"
  shows "hub_ok (leave i h)"
proof (rule hub_okI)
  let ?k = "se_sub (hb_sessions h ! i)"
  let ?b = "Close (hb_bus h) ?k"
  have h': "hb_bus (leave i h) = ?b" "hb_conns (leave i h) = removeAll i (hb_conns h)" "length (hb_sessions (leave i h)) = length (hb_sessions h)"
    by (simp_all add: leave_def Let_def upd_def)
  show "j < length (hb_sessions (leave i h))" if "j \<in> set (hb_conns (leave i h))" for j
    using that hub_okD(2) [OF ok, of j] h' by simp
  show "session_ok (hb_bus (leave i h)) (hb_conns (leave i h)) j (hb_sessions (leave i h) ! j)" if "j < length (hb_sessions (leave i h))" for j
  proof (cases "j = i")
    case True
    have "?k < length (b_subs (hb_bus h))" using hub_okD(1) [OF ok i] by (simp add: session_ok_def)
    then have "\<not> sb_in (b_subs ?b ! ?k)" "?k < length (b_subs ?b)" by (simp_all add: Close_def remove_def)
    then show ?thesis using True i h' commands_bound [OF ok i] by (simp add: session_ok_def leave_def Let_def upd_def)
  next
    case False
    then have "hb_sessions (leave i h) ! j = hb_sessions h ! j" by (simp add: leave_def Let_def upd_def)
    moreover have "session_ok ?b (hb_conns h) j (hb_sessions h ! j)"
      using session_later [OF hub_okD(1) [OF ok] bus_later_ops(3)] that h'(3) by simp
    ultimately show ?thesis using h' False by (simp add: session_ok_def)
  qed
  show "distinct (map se_sub (hb_sessions (leave i h)))" using hub_okD(3) [OF ok] by (simp add: leave_def Let_def upd_def subs_updated)
qed

lemma hub_loop: "hub_ok h \<Longrightarrow> i < length (hb_sessions h) \<Longrightarrow> hub_ok (loop_step i r h)"
  using hub_upd [of h "\<lambda>s. s\<lparr>se_conn := snd r\<rparr>" i] commands_bound [of h i] by (auto simp: loop_step_def Let_def intro: hub_leave)

lemma hub_close: "hub_ok h \<Longrightarrow> \<forall>i\<in>set cs. i < length (hb_sessions h) \<Longrightarrow> hub_ok (fold (\<lambda>i. upd i (\<lambda>s. s\<lparr>se_closed := True\<rparr>)) cs h)"
proof (induction cs arbitrary: h)
  case (Cons c cs)
  have "hub_ok (upd c (\<lambda>s. s\<lparr>se_closed := True\<rparr>) h)" using hub_upd [of h "\<lambda>s. s\<lparr>se_closed := True\<rparr>" c] commands_bound [of h c] Cons.prems by simp
  with Cons show ?case by simp
qed simp

lemma hub_step_ok: "hub_step w op h = Some h' \<Longrightarrow> hub_ok h \<Longrightarrow> hub_ok h'"
proof (induction w op h rule: hub_step.induct)
  case (2 w i m h)
  then show ?case by (auto split: if_splits intro!: hub_upd)
next
  case (3 w i h)
  then show ?case by (auto split: if_splits intro!: hub_upd simp: commands_bound)
next
  case (4 w i h)
  then show ?case by (auto split: if_splits intro!: hub_upd simp: commands_bound)
next
  case (5 w i h)
  then show ?case using bus_later_ops(4) [of "hb_bus h" "se_sub (hb_sessions h ! i)"]
    by (auto simp: live_def split: if_splits prod.splits option.splits intro!: hub_loop hub_later)
next
  case (6 w i h)
  then show ?case using commands_bound [of h i]
    by (auto simp: live_def split: if_splits list.splits option.splits intro!: hub_loop hub_upd)
next
  case (8 w i h)
  then show ?case by (auto split: if_splits intro!: hub_upd simp: commands_bound)
next
  case (9 w h)
  then show ?case using hub_close [of h "hb_conns h"] by (auto simp: Close_hub_def hub_ok_def)
qed (auto simp: hub_accept live_def hub_leave bus_later_ops intro: hub_later split: if_splits)

lemma hub_run_ok: "hub_run w ops h = Some h' \<Longrightarrow> hub_ok h \<Longrightarrow> hub_ok h'"
  by (induction w ops h rule: hub_run.induct) (auto split: option.splits dest: hub_step_ok)

text \<open>
  C38. Connections are released. However the goroutines of the hub's connections interleave, at most eight commands wait in a
  connection's channel, a connection is entered in the hub exactly while \<open>ServeHTTP\<close> has not returned, one that has returned is closed,
  cancelled and off the bus, and no two share a subscription; and one that has not returned does so once its reader has failed,
  as it does when the hub closes it.
\<close>

theorem connections_released:
  assumes run: "hub_run w ops (New_hub b) = Some h" and i: "i < length (hb_sessions h)"
  shows "let s = hb_sessions h ! i in length (se_commands s) \<le> 8 \<and> (se_returned s \<longleftrightarrow> i \<notin> set (hb_conns h)) \<and>
      (se_returned s \<longrightarrow> se_closed s \<and> se_cancelled s \<and> \<not> sb_in (b_subs (hb_bus h) ! se_sub s)) \<and>
      (\<forall>j<length (hb_sessions h). j \<noteq> i \<longrightarrow> se_sub (hb_sessions h ! j) \<noteq> se_sub s) \<and>
      (\<exists>h'. hub_run w [ReadFails i, SeesDone i] h = Some h' \<and> se_returned (hb_sessions h' ! i))"
proof -
  have "hub_ok (New_hub b)" by (simp add: New_hub_def hub_ok_def)
  then have ok: "hub_ok h" by (rule hub_run_ok [OF run])
  note s = hub_okD(1) [OF ok i]
  have d: "se_sub (hb_sessions h ! j) \<noteq> se_sub (hb_sessions h ! i)" if "j < length (hb_sessions h)" "j \<noteq> i" for j
    using hub_okD(3) [OF ok] that i by (metis length_map nth_eq_iff_index_eq nth_map)
  have "\<exists>h'. hub_run w [ReadFails i, SeesDone i] h = Some h' \<and> se_returned (hb_sessions h' ! i)"
    using s i by (auto simp: live_def leave_def Let_def session_ok_def upd_def)
  with s d show ?thesis by (auto simp: session_ok_def Let_def split: if_splits)
qed

theorem connections_released_witness:
  "\<exists>h. hub_run (still d4) [Accepted, Accepted, ReadFails 0, SeesDone 0] (New_hub NewBus) = Some h \<and> hb_conns h = [1] \<and>
     length (se_commands (hb_sessions h ! 0)) \<le> 8 \<and> \<not> sb_in (b_subs (hb_bus h) ! 0)"
proof -
  let ?ops = "[Accepted, Accepted, ReadFails 0, SeesDone 0]"
  obtain h where h: "hub_run (still d4) ?ops (New_hub NewBus) = Some h" by simp
  then have c: "hb_conns h = [1]" "0 < length (hb_sessions h)" "se_sub (hb_sessions h ! 0) = 0"
    by (auto simp: New_hub_def accept_conn_def Subscribe_def NewBus_def live_def leave_def upd_def Let_def)
  from connections_released [OF h c(2)] c h show ?thesis by (auto simp: Let_def)
qed

section \<open>Laws of the notifier\<close>

fun others_of :: "notice list \<Rightarrow> bus_op list" where
  "others_of [] = []"
| "others_of (Others op # ns) = op # others_of ns"
| "others_of (_ # ns) = others_of ns"

lemma notify_loop_bus:
  "notify_loop notify i ns st = (ended, st') \<Longrightarrow> OpReceive i \<notin> set (others_of ns) \<Longrightarrow>
     \<exists>ops got. run_bus (nf_bus st) ops = (nf_bus st', got) \<and> nf_events st' = nf_events st @ received i got \<and> prefix (published ops) (published (others_of ns))"
proof (induction notify i ns st rule: notify_loop.induct)
  case (4 notify i op ns st)
  obtain b1 g1 where b: "bus_step (nf_bus st) op = (b1, g1)" by (cases "bus_step (nf_bus st) op")
  have "op \<noteq> OpReceive i" using 4 by auto
  then have g: "received i g1 = []" using b by (cases op) (auto simp: received_def split: option.splits prod.splits)
  obtain ops got where o: "run_bus b1 ops = (nf_bus st', got)" "nf_events st' = nf_events st @ received i got" "prefix (published ops) (published (others_of ns))"
    using 4 b by auto
  have "run_bus (nf_bus st) (op # ops) = (nf_bus st', g1 @ got)" using b o(1) by simp
  moreover have "prefix (published (op # ops)) (published (op # others_of ns))" using o(3) published_Cons [of op ops] published_Cons [of op "others_of ns"] by (metis same_prefix_prefix)
  ultimately show ?case using o(2) g by (intro exI [of _ "op # ops"] exI [of _ "g1 @ got"]) simp
next
  case (5 notify i ns st)
  show ?case
  proof (cases "fst (Receive (nf_bus st) i)")
    case None
    then show ?thesis using 5 by (cases "Receive (nf_bus st) i") auto
  next
    case (Some ev)
    then obtain b1 where b: "Receive (nf_bus st) i = (Some ev, b1)" by (cases "Receive (nf_bus st) i") auto
    let ?st = "\<lparr>nf_bus = b1, nf_events = nf_events st @ [ev], nf_failures = (case notify ev of None \<Rightarrow> nf_failures st | Some _ \<Rightarrow> nf_failures st + 1)\<rparr>"
    obtain ops got where o: "run_bus b1 ops = (nf_bus st', got)" "nf_events st' = nf_events st @ [ev] @ received i got" "prefix (published ops) (published (others_of ns))"
      using "5.IH"(2) [OF b [symmetric] refl] 5 b by auto
    have "run_bus (nf_bus st) (OpReceive i # ops) = (nf_bus st', (i, ev) # got)" using b o(1) by simp
    then show ?thesis using o(2,3) by (intro exI [of _ "OpReceive i # ops"] exI [of _ "(i, ev) # got"]) (simp add: received_def)
  qed
next
  case (3 notify i ns st)
  show ?case
  proof (cases "sb_done (b_subs (nf_bus st) ! i)")
    case True
    then show ?thesis using "3.prems" by (intro exI [of _ "[]"]) (auto simp: received_def)
  qed (use 3 in simp)
qed (auto simp: received_def intro!: exI [of _ "[]"])

text \<open>What the notifier hands on is what was published, in order and without gaps, up to some point.\<close>

theorem notifier_in_order:
  assumes "notify_Run notify ns b = (ended, st)" "OpReceive (length (b_subs b)) \<notin> set (others_of ns)"
  shows "prefix (nf_events st) (published (others_of ns))"
proof -
  let ?i = "length (b_subs b)"
  obtain b1 where s: "Subscribe b [] = (?i, b1)" by (simp add: Subscribe_def)
  obtain st1 where l: "notify_loop notify ?i ns \<lparr>nf_bus = b1, nf_events = [], nf_failures = 0\<rparr> = (ended, st1)" "nf_events st = nf_events st1"
    using assms(1) s by (auto simp: notify_Run_def Let_def split: prod.splits)
  obtain ops got where o: "run_bus b1 ops = (nf_bus st1, got)" "nf_events st1 = received ?i got" "prefix (published ops) (published (others_of ns))"
    using notify_loop_bus [OF l(1) assms(2)] by auto
  have "filter (matches []) (published ops) = published ops" by (simp add: matches_def)
  then have "prefix (received ?i got) (published ops)" using subscription_fifo(2) [OF s o(1)] append_prefixD by metis
  then show ?thesis using o(2,3) l(2) prefix_order.trans by metis
qed

end
