(* ===== verification/Startup.thy ===== *)
theory Startup
  imports Go_Base
begin

text \<open>
  Starting and stopping the service (\<open>cmd/devsquad/main.go\<close>, \<open>internal/store/instance.go\<close>): the order of the
  steps of \<open>run\<close>, the advisory lock that keeps a second instance out, and what ends the service. What the steps do
  inside (configuration, connections, migrations, the HTTP server) is given as their outcome. Shown: of the
  instances that have not ended at most one still has its session, and while it does no other can start.
\<close>

section \<open>One instance\<close>

text \<open>
  Outcomes of the steps. The lock is the instance that holds it, if any; PostgreSQL gives it to a session, and takes it back when
  the session ends.
\<close>

record startup =
  su_config :: "err option"
  su_pool :: "err option"
  su_ping :: "err option"
  su_conn :: "err option"
  su_query :: "err option"
  su_migrate :: "err option"

definition AcquireInstance :: "startup \<Rightarrow> nat \<Rightarrow> nat option \<Rightarrow> unit result \<times> nat option" where
  "AcquireInstance u i lock =
     (case su_conn u of
        Some e \<Rightarrow> (Inl e, lock)
      | None \<Rightarrow>
     (case su_query u of
        Some e \<Rightarrow> (Inl e, lock)
      | None \<Rightarrow>
          if lock = None then (Inr (), Some i)
          else (Inl (Errorf ''another devsquad instance owns this database schema''), lock)))"

definition outcome :: "err option \<Rightarrow> unit result" where
  "outcome e = (case e of None \<Rightarrow> Inr () | Some e \<Rightarrow> Inl e)"

text \<open>The deferred end of the session.\<close>

definition release :: "nat \<Rightarrow> nat option \<Rightarrow> nat option" where
  "release i lock = (if lock = Some i then None else lock)"

text \<open>\<open>run\<close> up to the point where the engine, the hub and the server are started.\<close>

definition boot :: "startup \<Rightarrow> nat \<Rightarrow> nat option \<Rightarrow> unit result \<times> nat option" where
  "boot u i lock =
     (case bindR (outcome (su_config u)) (\<lambda>_. bindR (outcome (su_pool u)) (\<lambda>_. outcome (su_ping u))) of
        Inl e \<Rightarrow> (Inl e, lock)
      | Inr _ \<Rightarrow>
     (case AcquireInstance u i lock of
        (Inl e, lock) \<Rightarrow> (Inl e, lock)
      | (Inr _, lock) \<Rightarrow>
     (case su_migrate u of
        Some e \<Rightarrow> (Inl e, release i lock)
      | None \<Rightarrow> (Inr (), lock))))"

text \<open>
  What ends the group of goroutines, and what \<open>run\<close> returns: the first error of a goroutine; after a signal that is the error of
  shutting the server down, if any.
\<close>

datatype ending = Signal "err option" | PingFailed err | ListenFailed err

definition run_result :: "ending \<Rightarrow> unit result" where
  "run_result x = (case x of Signal e \<Rightarrow> outcome e | PingFailed e \<Rightarrow> Inl e | ListenFailed e \<Rightarrow> Inl e)"

section \<open>Several instances\<close>

datatype phase = Down | Serving | Stopping

record cluster =
  cl_lock :: "nat option"
  cl_phase :: "nat \<Rightarrow> phase"
  cl_lost :: "nat \<Rightarrow> bool"

definition idle_cluster :: cluster where
  "idle_cluster = \<lparr>cl_lock = None, cl_phase = (\<lambda>_. Down), cl_lost = (\<lambda>_. False)\<rparr>"

text \<open>
  An instance starts, or fails to; a session is lost; the ping of an instance whose session is lost fails; an instance is signalled or its listener
  fails; a stopping instance ends, and with it its session.
\<close>

inductive cluster_step :: "cluster \<Rightarrow> cluster \<Rightarrow> bool" where
  boots: "cl_phase c i = Down \<Longrightarrow> boot u i (cl_lock c) = (r, lock) \<Longrightarrow>
    cluster_step c (case r of Inl _ \<Rightarrow> c\<lparr>cl_lock := lock\<rparr>
      | Inr _ \<Rightarrow> c\<lparr>cl_lock := lock, cl_phase := (cl_phase c)(i := Serving), cl_lost := (cl_lost c)(i := False)\<rparr>)"
| loses: "cl_lock c = Some i \<Longrightarrow> cluster_step c (c\<lparr>cl_lock := None, cl_lost := (cl_lost c)(i := True)\<rparr>)"
| notices: "cl_phase c i = Serving \<Longrightarrow> cl_lost c i \<Longrightarrow> cluster_step c (c\<lparr>cl_phase := (cl_phase c)(i := Stopping)\<rparr>)"
| stops: "cl_phase c i = Serving \<Longrightarrow> cluster_step c (c\<lparr>cl_phase := (cl_phase c)(i := Stopping)\<rparr>)"
| ends: "cl_phase c i = Stopping \<Longrightarrow> cluster_step c (c\<lparr>cl_phase := (cl_phase c)(i := Down), cl_lock := release i (cl_lock c)\<rparr>)"

definition cluster_ok :: "cluster \<Rightarrow> bool" where
  "cluster_ok c \<longleftrightarrow> (\<forall>i. cl_phase c i \<noteq> Down \<and> \<not> cl_lost c i \<longleftrightarrow> cl_lock c = Some i)"

lemma boot_lock: "boot u i lock = (r, lock') \<Longrightarrow> (case r of Inl _ \<Rightarrow> lock' = lock | Inr _ \<Rightarrow> lock = None \<and> lock' = Some i)"
  by (cases "outcome (su_config u)"; cases "outcome (su_pool u)"; cases "outcome (su_ping u)")
    (auto simp: boot_def AcquireInstance_def release_def split: option.splits if_splits sum.splits prod.splits)

lemma stopping_ok: "cl_phase c i = Serving \<Longrightarrow> cluster_ok c \<Longrightarrow> cluster_ok (c\<lparr>cl_phase := (cl_phase c)(i := Stopping)\<rparr>)"
proof -
  assume "cl_phase c i = Serving"
  then have "((cl_phase c)(i := Stopping)) j \<noteq> Down \<longleftrightarrow> cl_phase c j \<noteq> Down" for j by simp
  then show "cluster_ok c \<Longrightarrow> cluster_ok (c\<lparr>cl_phase := (cl_phase c)(i := Stopping)\<rparr>)" by (simp add: cluster_ok_def del: fun_upd_apply)
qed

lemma cluster_step_ok: "cluster_step c c' \<Longrightarrow> cluster_ok c \<Longrightarrow> cluster_ok c'"
proof (induction rule: cluster_step.induct)
  case (boots c i u r lock)
  note b = boot_lock [OF boots(2)]
  show ?case
  proof (cases r)
    case (Inl e)
    then show ?thesis using b boots by (simp add: cluster_ok_def)
  next
    case (Inr v)
    then have "cl_lock c = None" "lock = Some i" using b by simp_all
    then show ?thesis using boots Inr by (auto simp: cluster_ok_def)
  qed
next
  case (loses c i)
  then have "\<forall>j. cl_phase c j \<noteq> Down \<and> \<not> cl_lost c j \<longleftrightarrow> j = i" by (auto simp: cluster_ok_def)
  then show ?case unfolding cluster_ok_def by simp blast
next
  case (notices c i)
  then show ?case by (simp add: stopping_ok)
next
  case (stops c i)
  then show ?case by (simp add: stopping_ok)
next
  case (ends c i)
  note ok = ends.prems [unfolded cluster_ok_def, rule_format]
  have "(if j = i then Down else cl_phase c j) \<noteq> Down \<and> \<not> cl_lost c j \<longleftrightarrow> release i (cl_lock c) = Some j" for j
    using ok [of j] by (cases "j = i") (auto simp: release_def)
  then show ?case by (simp add: cluster_ok_def fun_upd_def)
qed

text \<open>
  One instance at a time: of the instances that have not ended, at most one still has its session, which is the one that holds the lock, and nobody
  else can start while it does. An instance that has lost its session, and with it the lock, can notice and stop, but until then
  another may have started.
\<close>

theorem one_instance:
  assumes "cluster_step\<^sup>*\<^sup>* idle_cluster c" "cl_phase c i \<noteq> Down" "\<not> cl_lost c i"
  shows "(\<forall>j. cl_phase c j \<noteq> Down \<and> \<not> cl_lost c j \<longrightarrow> j = i) \<and>
    (\<forall>u j. \<exists>e. boot u j (cl_lock c) = (Inl e, cl_lock c))"
proof -
  have "cluster_ok idle_cluster" by (simp add: cluster_ok_def idle_cluster_def)
  with assms(1) have "cluster_ok c" by (induction rule: rtranclp_induct) (auto dest: cluster_step_ok)
  then have l: "cl_lock c = Some i" "\<And>j. cl_phase c j \<noteq> Down \<and> \<not> cl_lost c j \<longleftrightarrow> cl_lock c = Some j" using assms(2,3) by (auto simp: cluster_ok_def)
  have "\<exists>e. boot u j (cl_lock c) = (Inl e, cl_lock c)" for u j
  proof (cases "boot u j (cl_lock c)")
    case (Pair r lock)
    then show ?thesis using boot_lock [OF Pair] l(1) by (cases r) auto
  qed
  with l show ?thesis by auto
qed

end
