(* ===== verification/Spec2Isabelle.thy ===== *)
theory Spec2Isabelle
  imports Event_Bus Scm_Report Tx_Progress Orch_Refines Publish_Laws Ws_Hub Http_Api Workspace_Laws Prepare_Laws Fake_Model Lifecycle
    Connections Startup
begin

text \<open>
  \<^bold>\<open>devsquad\<close> runs software tasks through a pipeline of stages. Each stage has an agent (a language
  model with tools confined to a workspace), produces a plan and a deliverable, and may wait for a
  person's approval of either. The state lives in PostgreSQL; an orchestrator claims runnable
  stages, runs them and commits the results; HTTP handlers create projects and tasks, decide
  approvals, pause, resume and cancel; every change is an event of the task's ledger, published on
  a bus once the transaction has committed.

  \<^bold>\<open>Theories and the code they model\<close> (all under \<open>src/internal\<close>).

  \<^item> \<open>Go_Base\<close>: errors, results and the parts of Go's library the code uses (strings, runes, UTF-8,
    paths, integers in decimal); shared lemmas.
  \<^item> \<open>Pipeline_Spec\<close>: \<open>pipeline/pipeline.go\<close>. \<open>Domain_Model\<close>: \<open>domain/model.go\<close>, \<open>domain/state.go\<close>.
  \<^item> \<open>Store_DB\<close>: \<open>store/store.go\<close> and the queries of \<open>store/sqlc\<close>; a database is a record of tables (lists
    of rows), a transaction body is a function on \<open>Tx\<close> returning a result, \<open>WithTx\<close> commits or rolls
    back and hands back the hooks. Violated constraints of the schema are errors. The locale
    \<open>tx_relation\<close> carries a reflexive and transitive relation through transaction bodies.
  \<^item> \<open>Event_Log\<close>: \<open>event/emitter.go\<close>. \<open>Event_Bus\<close>: \<open>event/bus.go\<close>.
  \<^item> \<open>Path_Guard\<close>, \<open>File_System\<close>, \<open>Path_Resolve\<close>: \<open>pathguard/path.go\<close> on a tree of files, directories
    and symbolic links.
  \<^item> \<open>Agent_Def\<close>: \<open>agentdef/loader.go\<close>, \<open>agentdef/conflicts.go\<close>. \<open>Stage_Types\<close>: types of \<open>stage/runner.go\<close>.
  \<^item> \<open>Limited_Output\<close>, \<open>Sandbox\<close>: \<open>tools/sandbox.go\<close>.
  \<^item> \<open>Stage_Runner\<close>: \<open>Run\<close> of \<open>stage/runner.go\<close> and \<open>llm/llm.go\<close>. A run is a function of the outside world
    (the model, the budget guard, the event sink) and the file tree; it records what it did as a list of
    actions, on which its properties are stated.
  \<^item> \<open>App_Services\<close>: \<open>app/\<close>. \<open>Orch_Tx\<close>: the transactions of \<open>orchestrator/\<close>. \<open>Scm_Report\<close>: \<open>scm/body.go\<close>.
  \<^item> \<open>Orchestrator\<close>: \<open>Reconcile\<close>, \<open>run\<close>, \<open>publish\<close> and \<open>Recover\<close> as the code composes them. Before every access to the
    store others may take any steps. \<open>Publish_Laws\<close>: what publishing does to the hosting service.
  \<^item> \<open>Ws_Hub\<close>: the commands, the replay and the forwarding of \<open>ws/hub.go\<close>. \<open>Http_Api\<close>: \<open>httpapi/\<close>, \<open>auth/auth.go\<close> and the
    checks of \<open>config/config.go\<close>.
  \<^item> \<open>Workspace_Git\<close>: \<open>workspace/git.go\<close>; \<open>Workspace_Prepare\<close>: \<open>workspace/prepare.go\<close>, on the same tree of files. \<open>Reset_Laws\<close> and
    \<open>Checkpoint_Laws\<close> hold the loops of \<open>Reset\<close> and \<open>Accept\<close> and what git documents of the commands they run; \<open>Mini_Git\<close> is a
    small git in which that holds, for the witnesses; \<open>Workspace_Laws\<close> and \<open>Prepare_Laws\<close> state the properties.
  \<^item> \<open>Model_Adapters\<close>: \<open>llm/anthropic\<close> and \<open>llm/openai\<close>; \<open>Fake_Model\<close>: \<open>llm/fake\<close>. \<open>Hosting\<close>: \<open>scm/github.go\<close>, with the service as a state.
  \<^item> \<open>Lifecycle\<close>: the goroutines and contexts of the orchestrator (\<open>spawn\<close>, \<open>Wake\<close>, \<open>Cancel\<close>, \<open>Close\<close>, the recovery loop).
    \<open>Connections\<close>: \<open>notify/notifier.go\<close> and the goroutines and registration of the hub's connections. \<open>Startup\<close>: \<open>store/instance.go\<close> and
    the order of \<open>run\<close> in \<open>cmd/devsquad/main.go\<close>, for any number of instances.
  \<^item> \<open>System\<close>: the whole program as a step relation. A state has the database, the states handlers
    may have read before their transaction, and the claims given out; a step is one transaction of a
    handler or of the orchestrator, so a run is any interleaving of them, and a crash is a run that
    stops anywhere. The locale \<open>transition_invariant\<close> is interpreted on it.
  \<^item> \<open>Db_Relations\<close>, \<open>Stage_Invariant\<close>, \<open>Stage_Steps\<close>, \<open>Commit_Steps\<close>, \<open>System_Laws\<close>: the invariant of the
    database and that each transaction keeps it. \<open>Tx_Progress\<close>: that claims, commits and decisions
    succeed. \<open>Service_Laws\<close>: the services. \<open>Scenario\<close>: a concrete run, for the witnesses. \<open>Orch_Refines\<close>: that the
    procedures of the orchestrator only take steps; the locale \<open>stable_fact\<close> carries a fact that steps keep through
    a procedure, the locale \<open>runner_contract\<close> is what the orchestrator relies on in a runner, interpreted on the agent's.

  \<^bold>\<open>What is shown.\<close> Here: the invariants of every reachable state (dependencies, gates, reviews, the
  ledger, completion), at-most-once commits and decisions, the history that is kept, progress, and that the
  orchestrator's procedures refine the step relation (\<open>Http_Api\<close> shows the same of every request).
  In the component theories: that the pipeline validation is exact and its levels terminate, the
  outcome of decisions, confinement of the tools to the workspace, the bounds of outputs and of model calls,
  the dialogue and the budget of a run, the branches that are published, the replay of a subscription, and sessions; that a reset restores the last checkpoint, a checkpoint
  holds exactly a stage's files, a prepared workspace is the source without what is left out, and cleaning up spares live workspaces; that
  both model services are given a well-formed conversation; that a pull request is opened once; that closing the orchestrator ends its goroutines for good and
  connections are released.

  \<^bold>\<open>Parameters.\<close> YAML and JSON decoding, the doublestar matcher, the regular expression engine, the
  shell splitter, child processes (git among them), the HTTP client, the client libraries of the model services, UUIDs and the clock are arguments; where a theorem relies on one, its
  hypothesis states the documented behaviour. Loops are total functions with measures; the walks over
  links carry the limits of the library (255 for \<open>EvalSymlinks\<close>, 8 for \<open>os.Root\<close>) as fuel, and running out
  is the error the library returns.

  \<^bold>\<open>Not modelled.\<close> Migrations, which goose runs, and the wiring of the components in \<open>main\<close>, which only passes them to each other; mutexes,
  whose effect is that an operation is one step; permission bits of files; the decoding of HTTP requests, which belongs to the framework; the generated
  code that scans rows (\<open>store/sqlc/db.go\<close>).
\<close>

section \<open>Invariants of every reachable state\<close>

lemma reachable_stage:
  assumes "reachable s" "r \<in> set (db_stages (y_db s))"
  shows "stage_local (gate (y_db s) r) (approvals_of (db_approvals (y_db s)) (s_ID r))
      (has_deliverable (db_deliverables (y_db s)) (s_ID r)) r"
    "s_Status r \<noteq> ''pending'' \<Longrightarrow> deps_approved (db_stages (y_db s)) r"
  using sys_invD(1) [OF reachable_inv [OF assms(1)]] assms(2) by (auto simp: db_inv_def stage_inv_def)

lemma demo_run: "\<exists>s. reachable s \<and> y_db s = d4 \<and> y_claims s = [claim_a]"
  "\<exists>s. reachable s \<and> y_db s = d5 \<and> d5 \<in> set (y_seen s)" "\<exists>s. reachable s \<and> y_db s = d6" "\<exists>s. reachable s \<and> y_db s = d12"
  using at_d4 at_d5 at_d6 at_d12 unfolding at_def by blast+

text \<open>
  C1. Dependencies first: in every reachable state, for every interleaving of handlers,
  orchestrator runs and crashes, a stage that has left \<open>pending\<close> has every dependency present
  in the same task and approved.
\<close>

theorem dependencies_approved_first:
  assumes "reachable s" "r \<in> set (db_stages (y_db s))" "s_Status r \<noteq> ''pending''" "dep \<in> set (s_DependsOn r)"
  shows "\<exists>p\<in>set (db_stages (y_db s)). s_TaskID p = s_TaskID r \<and> s_StageKey p = dep \<and> s_Status p = ''approved''"
  using reachable_stage(2) [OF assms(1-3)] assms(4) unfolding deps_approved_def by blast

theorem dependencies_approved_first_witness:
  "\<exists>s p. reachable s \<and> b12 \<in> set (db_stages (y_db s)) \<and> p \<in> set (db_stages (y_db s)) \<and>
     s_TaskID p = ''t'' \<and> s_StageKey p = ''a'' \<and> s_Status p = ''approved''"
proof -
  obtain s where s: "reachable s" "y_db s = d12" using demo_run(4) by blast
  have b: "b12 \<in> set (db_stages (y_db s))" "s_Status b12 \<noteq> ''pending''" "''a'' \<in> set (s_DependsOn b12)" "s_TaskID b12 = ''t''"
    using s(2) by (simp_all add: b12_def demo_defs)
  from dependencies_approved_first [OF s(1) b(1-3)] b s(1) show ?thesis by auto
qed

text \<open>
  C2. Approval gates hold: when the pipeline stored with the task asks for an approval of a
  stage's plan (deliverable), then the stage executes, is reviewed or approved (is approved) only
  with a granted approval of that kind for the current retry.
\<close>

theorem gates_hold:
  assumes "reachable s" "r \<in> set (db_stages (y_db s))"
    and "t \<in> set (db_tasks (y_db s))" "t_ID t = s_TaskID r" "t_Pipeline t = Some p"
    and "sp \<in> set (pl_Stages p)" "sp_ID sp = s_StageKey r" "kind \<in> set (elems (sp_Approvals sp))"
    and "kind = ''plan'' \<and> s_Status r \<in> {''executing'', ''deliverable_review'', ''approved''} \<or>
         kind = ''deliverable'' \<and> s_Status r = ''approved''"
  shows "\<exists>a\<in>set (db_approvals (y_db s)). a_StageID a = s_ID r \<and> a_Kind a = kind \<and>
    (a_Status a = ''approved'' \<or> a_Status a = ''edited'') \<and>
    a_RetryNo a = (if kind = ''plan'' then s_PlanRetryNo r else s_DeliverableRetryNo r)"
proof -
  let ?as = "approvals_of (db_approvals (y_db s)) (s_ID r)"
  let ?n = "if kind = ''plan'' then s_PlanRetryNo r else s_DeliverableRetryNo r"
  have gate: "gate (y_db s) r kind" using assms(3-8) unfolding gate_def has_spec_def by blast
  have loc: "stage_local (gate (y_db s) r) ?as (has_deliverable (db_deliverables (y_db s)) (s_ID r)) r"
    by (rule reachable_stage(1) [OF assms(1,2)])
  from assms(9) have "\<exists>past review. past \<and> side_ok (gate (y_db s) r kind) ?as kind ?n review past"
  proof
    assume k: "kind = ''plan'' \<and> s_Status r \<in> {''executing'', ''deliverable_review'', ''approved''}"
    then have "past_plan r" by (simp add: past_plan_def)
    with loc k show ?thesis
      by (intro exI [of _ "past_plan r"] exI [of _ "s_Status r = ''plan_review''"]) (simp add: stage_local_def)
  next
    assume k: "kind = ''deliverable'' \<and> s_Status r = ''approved''"
    with loc show ?thesis
      by (intro exI [of _ "s_Status r = ''approved''"] exI [of _ "s_Status r = ''deliverable_review''"])
        (simp add: stage_local_def)
  qed
  with gate obtain a where "a \<in> set ?as" "a_Kind a = kind" "granted a" "a_RetryNo a = ?n"
    unfolding side_ok_def by blast
  then show ?thesis unfolding approvals_of_def granted_def by auto
qed

theorem gates_hold_witness:
  "\<exists>s a. reachable s \<and> y_db s = d6 \<and> a \<in> set (db_approvals d6) \<and> a_Kind a = ''plan'' \<and> a_Status a \<in> {''approved'', ''edited''}"
proof -
  obtain s where s: "reachable s" "y_db s = d6" using demo_run(3) by blast
  let ?r = "(row_a ''executing'' 1 3 (Some ''x''))\<lparr>s_LastFeedback := Some ''why''\<rparr>"
  let ?p = "df_Pipeline demo_definition" and ?sp = "default_stage (hd demo_stages)"
  have "?r \<in> set (db_stages (y_db s))" "demo_task ''running'' 3 4 \<in> set (db_tasks (y_db s))"
    "t_ID (demo_task ''running'' 3 4) = s_TaskID ?r" "t_Pipeline (demo_task ''running'' 3 4) = Some ?p"
    "?sp \<in> set (pl_Stages ?p)" "sp_ID ?sp = s_StageKey ?r" "''plan'' \<in> set (elems (sp_Approvals ?sp))"
    "s_Status ?r = ''executing''"
    using s(2) by (simp_all add: demo_defs demo_definition_def demo_stages_def default_stage_def)
  with gates_hold [OF s(1), of ?r "demo_task ''running'' 3 4" ?p ?sp "''plan''"] s show ?thesis by auto
qed

text \<open>
  C3. A stage is in review exactly while one approval of that kind is pending for it, there is
  never more than one, and it carries the stage's current retry number.
\<close>

theorem review_iff_pending:
  assumes "reachable s" "r \<in> set (db_stages (y_db s))" "kind = ''plan'' \<or> kind = ''deliverable''"
  shows "s_Status r = kind @ ''_review'' \<longleftrightarrow>
    (\<exists>!a. a \<in> set (db_approvals (y_db s)) \<and> a_StageID a = s_ID r \<and> a_Kind a = kind \<and> a_Status a = ''pending'' \<and>
      a_RetryNo a = (if kind = ''plan'' then s_PlanRetryNo r else s_DeliverableRetryNo r))"
proof -
  let ?as = "approvals_of (db_approvals (y_db s)) (s_ID r)"
  let ?n = "if kind = ''plan'' then s_PlanRetryNo r else s_DeliverableRetryNo r"
  have loc: "stage_local (gate (y_db s) r) ?as (has_deliverable (db_deliverables (y_db s)) (s_ID r)) r"
    by (rule reachable_stage(1) [OF assms(1,2)])
  then have dist: "distinct (map (\<lambda>a. (a_Kind a, a_RetryNo a)) ?as)" by (simp add: stage_local_def)
  have side: "side_ok (gate (y_db s) r kind) ?as kind ?n (s_Status r = kind @ ''_review'')
      (if kind = ''plan'' then past_plan r else s_Status r = ''approved'')"
    using loc assms(3) by (auto simp: stage_local_def)
  have in_as: "a \<in> set ?as \<longleftrightarrow> a \<in> set (db_approvals (y_db s)) \<and> a_StageID a = s_ID r" for a
    by (auto simp: approvals_of_def)
  have uniq: "a = b" if "a \<in> set ?as" "b \<in> set ?as" "a_Kind a = kind" "a_RetryNo a = ?n" "a_Kind b = kind" "a_RetryNo b = ?n" for a b
    using distinct_map_eqD [OF dist that(1,2)] that(3-6) by simp
  show ?thesis
  proof
    assume "s_Status r = kind @ ''_review''"
    then obtain a where a: "a \<in> set ?as" "a_Kind a = kind" "a_Status a = ''pending''"
      using side unfolding side_ok_def by blast
    then have "a_RetryNo a = ?n" using side unfolding side_ok_def approval_ok_def by blast
    with a uniq in_as show "\<exists>!a. a \<in> set (db_approvals (y_db s)) \<and> a_StageID a = s_ID r \<and> a_Kind a = kind \<and>
      a_Status a = ''pending'' \<and> a_RetryNo a = ?n" by (intro ex1I [of _ a]) blast+
  next
    assume "\<exists>!a. a \<in> set (db_approvals (y_db s)) \<and> a_StageID a = s_ID r \<and> a_Kind a = kind \<and>
      a_Status a = ''pending'' \<and> a_RetryNo a = ?n"
    then obtain a where "a \<in> set ?as" "a_Kind a = kind" "a_Status a = ''pending''" using in_as by blast
    then show "s_Status r = kind @ ''_review''" using side unfolding side_ok_def approval_ok_def by blast
  qed
qed

theorem review_iff_pending_witness:
  "\<exists>s. reachable s \<and> y_db s = d5 \<and> (\<exists>!a. a \<in> set (db_approvals d5) \<and> a_StageID a = ''B'' \<and> a_Kind a = ''plan'' \<and>
     a_Status a = ''pending'' \<and> a_RetryNo a = 0)"
proof -
  obtain s where s: "reachable s" "y_db s = d5" using demo_run(2) by blast
  let ?r = "row_a ''plan_review'' 1 2 (Some ''x'')"
  have "?r \<in> set (db_stages (y_db s))" "s_Status ?r = ''plan'' @ ''_review''" "s_ID ?r = ''B''" "s_PlanRetryNo ?r = 0"
    using s(2) by (simp_all add: demo_defs)
  with review_iff_pending [OF s(1), of ?r "''plan''"] s show ?thesis by auto
qed

text \<open>
  C4. The event ledger of every task is numbered 1, 2, ..., \<open>event_seq\<close>: no gap, no repetition,
  in the order of insertion.
\<close>

theorem ledger_gapless:
  assumes "reachable s" "t \<in> set (db_tasks (y_db s))"
  shows "map ev_Seq (filter (\<lambda>e. ev_TaskID e = t_ID t) (db_events (y_db s))) = [1..t_EventSeq t]"
  using sys_invD(1) [OF reachable_inv [OF assms(1)]] assms(2) by (auto simp: db_inv_def event_log_def ledger_def)

theorem ledger_gapless_witness:
  "\<exists>s. reachable s \<and> y_db s = d12 \<and>
     map ev_Seq (filter (\<lambda>e. ev_TaskID e = ''t'') (db_events d12)) = [1, 2, 3, 4, 5, 6, 7, 8, 9, 10]"
proof -
  obtain s where s: "reachable s" "y_db s = d12" using demo_run(4) by blast
  have "demo_task ''completed'' 4 10 \<in> set (db_tasks (y_db s))" "t_ID (demo_task ''completed'' 4 10) = ''t''"
    "t_EventSeq (demo_task ''completed'' 4 10) = 10" using s(2) by (simp_all add: demo_defs)
  with ledger_gapless [OF s(1), of "demo_task ''completed'' 4 10"] s show ?thesis by (intro exI [of _ s]) (simp add: upto.simps)
qed

text \<open>
  C5. A task is completed only when it has stages and all of them are approved.
\<close>

theorem completed_all_approved:
  assumes "reachable s" "t \<in> set (db_tasks (y_db s))" "t_Status t = ''completed''"
  shows "(\<exists>r\<in>set (db_stages (y_db s)). s_TaskID r = t_ID t) \<and>
    (\<forall>r\<in>set (db_stages (y_db s)). s_TaskID r = t_ID t \<longrightarrow> s_Status r = ''approved'')"
  using sys_invD(1) [OF reachable_inv [OF assms(1)]] assms(2,3) unfolding db_inv_def status_ok_def by blast

theorem completed_all_approved_witness:
  "\<exists>s. reachable s \<and> y_db s = d12 \<and> s_Status a8 = ''approved'' \<and> s_Status b12 = ''approved''"
proof -
  obtain s where s: "reachable s" "y_db s = d12" using demo_run(4) by blast
  let ?t = "demo_task ''completed'' 4 10"
  have "?t \<in> set (db_tasks (y_db s))" "t_Status ?t = ''completed''" "s_TaskID a8 = t_ID ?t" "s_TaskID b12 = t_ID ?t"
    "a8 \<in> set (db_stages (y_db s))" "b12 \<in> set (db_stages (y_db s))"
    using s(2) by (simp_all add: a8_def b12_def demo_defs)
  with completed_all_approved [OF s(1), of ?t] s show ?thesis by blast
qed

text \<open>
  C6. No live task is ever stuck: from any status that is not terminal, paused or queued,
  \<open>Derive\<close> on the rows of a reachable state says \<open>waiting_approval\<close> when a stage is in review,
  \<open>completed\<close> when all are approved, \<open>running\<close> when some stage can be run, and otherwise
  \<open>blocked\<close>, and then a stage is blocked and can be resumed.
\<close>

theorem live_task_not_stuck:
  assumes "reachable s" "t \<in> set (db_tasks (y_db s))" "\<not> Terminal st" "st \<noteq> ''paused''" "st \<noteq> ''queued''"
    and "stages = Reader_Stages (y_db s) (t_ID t)"
  shows "Derive st stages =
     (if \<exists>r\<in>set stages. in_review r then ''waiting_approval''
      else if \<forall>r\<in>set stages. s_Status r = ''approved'' then ''completed''
      else if \<exists>r\<in>set stages. runnable stages r then ''running'' else ''blocked'') \<and>
     (Derive st stages = ''blocked'' \<longrightarrow> (\<exists>r\<in>set stages. s_Status r = ''blocked''))"
  unfolding assms(6) using live_status [OF assms(1-5)] by blast

theorem live_task_not_stuck_witness:
  "\<exists>s. reachable s \<and> y_db s = d5 \<and> Derive ''running'' (Reader_Stages d5 ''t'') = ''waiting_approval''"
proof -
  obtain s where s: "reachable s" "y_db s = d5" using demo_run(2) by blast
  let ?t = "demo_task ''waiting_approval'' 2 3"
  have t: "?t \<in> set (db_tasks (y_db s))" "t_ID ?t = ''t''" using s(2) by (simp_all add: demo_defs)
  have "in_review (entity (row_a ''plan_review'' 1 2 (Some ''x'')))"
    "entity (row_a ''plan_review'' 1 2 (Some ''x'')) \<in> set (Reader_Stages (y_db s) (t_ID ?t))"
    using s(2) by (simp_all add: demo_defs set_Reader_Stages in_review_def entity_def)
  with t live_task_not_stuck [OF s(1), of ?t "''running''"] s show ?thesis by (auto simp: Terminal_def)
qed

section \<open>At most once\<close>

text \<open>
  C7. A claimed run commits its result at most once: after a commit has succeeded, every later
  commit of the same claim, after any further steps of the system and with any result, is
  refused as stale and changes nothing.
\<close>

theorem commit_at_most_once:
  assumes "reachable s" "(rid, c, inp) \<in> set (y_claims s)"
    and "WithTx env (commit_tx rid c inp res) (y_db s) = (Inr u, d, hs)" "step\<^sup>*\<^sup>* (set_db d s) s'"
    and "e_begin env' = None"
  shows "WithTx env' (commit_tx rid c inp res') (y_db s') = (Inl ErrStale, y_db s', [])"
  by (rule commit_once [OF assms])

theorem commit_at_most_once_witness:
  "\<exists>s. reachable s \<and> y_db s = d4 \<and>
     WithTx (demo_env ''X'') (commit_tx ''t'' (fst (snd claim_a)) (snd (snd claim_a)) zero_Result) d5 = (Inl ErrStale, d5, [])"
proof -
  obtain s where s: "reachable s" "y_db s = d4" "y_claims s = [claim_a]" using demo_run(1) by blast
  have "WithTx (demo_env ''E'') (commit_tx ''t'' (fst (snd claim_a)) (snd (snd claim_a)) demo_result) (y_db s)
      = (Inr (), d5, snd (snd (committed ''E'' d4 (row_a ''planning'' 1 1 None) (snd (snd claim_a)))))"
    using d5_ok s(2) by (simp add: committed_def)
  from commit_at_most_once [OF s(1) _ this, of "set_db d5 s" "demo_env ''X''" zero_Result] s
  show ?thesis by (intro exI [of _ s]) (simp add: set_db_def demo_env_def)
qed

text \<open>
  C8. An approval is decided at most once: after a decision has been recorded, every later
  decision on that approval, whatever snapshot of it the handler had read, is answered with
  409 \<open>APPROVAL_ALREADY_DECIDED\<close> and changes nothing.
\<close>

theorem decided_at_most_once:
  assumes "reachable s" "d0 \<in> set (y_seen s)"
    and "UpdateApproval env d0 (y_db s) rid r user = (Inr v, d, hs)" "step\<^sup>*\<^sup>* (set_db d s) s'"
    and "e0 \<in> set (y_seen s')" "Reader_Approval e0 rid = Inr a"
    and "ValidateDecision (ToLower (rq_Decision r')) (rq_Feedback r') (rq_EditedContent r') = Inr ()"
    and "e_begin env' = None"
  shows "UpdateApproval env' e0 (y_db s') rid r' user'
      = (Inl (Fault 409 ''APPROVAL_ALREADY_DECIDED'' ''approval already decided''), y_db s', [])"
  by (rule decided_once [OF assms])

theorem decided_at_most_once_witness:
  "\<exists>s. reachable s \<and> y_db s = d5 \<and>
     UpdateApproval (demo_env ''X'') d5 d6 ''E'' (demo_decision ''approve'') ''you''
       = (Inl (Fault 409 ''APPROVAL_ALREADY_DECIDED'' ''approval already decided''), d6, [])"
proof -
  obtain s where s: "reachable s" "y_db s = d5" "d5 \<in> set (y_seen s)" using demo_run(2) by blast
  obtain v hs where ok: "UpdateApproval (demo_env ''F'') d5 (y_db s) ''E'' (demo_decision ''approve'') ''me'' = (Inr v, d6, hs)"
    using d6_ok s(2) unfolding decided_def by auto
  have "ValidateDecision (ToLower (rq_Decision (demo_decision ''approve''))) (rq_Feedback (demo_decision ''approve''))
      (rq_EditedContent (demo_decision ''approve'')) = Inr ()"
    by (simp add: demo_decision_def ToLower_approve ValidateDecision_def)
  moreover have "Reader_Approval d5 ''E'' = Inr demo_approval"
    by (simp add: Reader_Approval_def GetApproval_def first_row_def demo_approval_def new_approval_def)
  ultimately show ?thesis
    using decided_at_most_once [OF s(1,3) ok, of "set_db d6 s" d5 demo_approval "demo_decision ''approve''" "demo_env ''X''" "''you''"] s
    by (intro exI [of _ s]) (simp add: set_db_def demo_env_def)
qed



section \<open>Nothing gets stuck\<close>

lemma demo_fresh: "\<forall>i\<in>used_ids d. \<not> prefix tag i \<Longrightarrow> fresh_env (demo_env tag) d"
proof -
  assume "\<forall>i\<in>used_ids d. \<not> prefix tag i"
  then have "range (\<lambda>n. tag @ replicate n (CHR ''i'')) \<inter> used_ids d = {}" by (auto simp: prefix_def)
  moreover have "inj (\<lambda>n. tag @ replicate n (CHR ''i''))" by (auto simp: inj_def dest: arg_cong [of _ _ length])
  ultimately show ?thesis by (simp add: fresh_env_def demo_env_def)
qed

lemma demo_fresh_X: "fresh_env (demo_env ''X'') d3" "fresh_env (demo_env ''X'') d4" "fresh_env (demo_env ''X'') d5"
proof -
  have "used_ids d3 = {''C''}" using d3_log by (simp add: used_ids_def log_is_def)
  then show "fresh_env (demo_env ''X'') d3" by (intro demo_fresh) simp
  have "used_ids d4 = {''C'', ''D''}" using d4_log by (simp add: used_ids_def log_is_def)
  then show "fresh_env (demo_env ''X'') d4" by (intro demo_fresh) simp
  have "used_ids d5 = {''C'', ''D'', ''Ei''} \<union> {''E''}"
    using d5_log by (simp add: used_ids_def log_is_def demo_approval_def new_approval_def)
  then show "fresh_env (demo_env ''X'') d5" by (intro demo_fresh) simp
qed

text \<open>
  C12. Whenever a task is running or waiting and one of its stages is to be run, the orchestrator's
  claim of that stage succeeds (given that the transaction begins and commits and UUIDs are fresh).
\<close>

theorem runnable_stage_claimable:
  assumes "reachable s" "t \<in> set (db_tasks (y_db s))" "t_Status t \<in> {''running'', ''waiting_approval''}"
    and "st \<in> set (Reader_Stages (y_db s) (t_ID t))" "stage_mode st (Reader_Stages (y_db s) (t_ID t)) = mode" "mode \<noteq> []"
    and "fresh_env env (y_db s)"
  shows "\<exists>c d hs. WithTx env (claim_tx (t_ID t) st mode) (y_db s) = (Inr c, d, hs)"
  by (rule claim_succeeds [OF sys_invD(1) [OF reachable_inv [OF assms(1)]] assms(2-)])

theorem runnable_stage_claimable_witness:
  "\<exists>s c d hs. reachable s \<and> y_db s = d3 \<and>
     WithTx (demo_env ''X'') (claim_tx ''t'' (entity (row_a ''pending'' 0 0 None)) ''plan'') d3 = (Inr c, d, hs)"
proof -
  obtain s where s: "reachable s" "y_db s = d3" using at_d3 unfolding at_def by blast
  let ?st = "entity (row_a ''pending'' 0 0 None)" and ?t = "demo_task ''running'' 1 1"
  have "?t \<in> set (db_tasks (y_db s))" "t_Status ?t \<in> {''running'', ''waiting_approval''}" "t_ID ?t = ''t''"
    "?st \<in> set (Reader_Stages (y_db s) (t_ID ?t))" "stage_mode ?st (Reader_Stages (y_db s) (t_ID ?t)) = ''plan''"
    using s(2) by (simp_all add: row_eval set_Reader_Stages)
  with runnable_stage_claimable [OF s(1), of ?t ?st "''plan''" "demo_env ''X''"] s demo_fresh_X(1) show ?thesis by auto
qed





section \<open>The orchestrator refines the step relation\<close>

text \<open>
  C10. \<open>Reconcile\<close> and \<open>Recover\<close> refine the step relation: for every interleaving in which the others
  take steps, every outcome of the file system and of the database, and every point at which an
  error stops them, what the procedures do to the shared state from a reachable state is a sequence of
  steps, so the invariants above hold at each moment of the procedures as the code composes them.
\<close>

theorem reconcile_refines:
  assumes "others_step w" "reachable (or_sys o1)"
  shows "step\<^sup>*\<^sup>* (or_sys o1) (or_sys (snd (Reconcile w rid o1))) \<and>
    step\<^sup>*\<^sup>* (or_sys o1) (or_sys (snd (Recover w cleanup o1)))"
  using safeO_D [OF safe_Reconcile [OF assms(1)] assms(2) _ surjective_pairing] Recover_goes [OF assms]
  by (simp add: goes_def)

lemma host_step: "others_step host"
  by (simp add: others_step_def host_def)

theorem reconcile_refines_witness:
  "\<exists>s. reachable s \<and> y_db s = d4 \<and> step\<^sup>*\<^sup>* s (or_sys (snd (Reconcile host ''t'' (hosted\<lparr>or_sys := s\<rparr>))))"
proof -
  obtain s where s: "reachable s" "y_db s = d4" using at_d4 unfolding at_def by blast
  with reconcile_refines [OF host_step, of "hosted\<lparr>or_sys := s\<rparr>"] show ?thesis by auto
qed



section \<open>The services\<close>

text \<open>
  A page of events is exactly the stretch of the task's ledger it asks for: the events
  numbered from \<open>after + 1\<close> on, at most \<open>limit\<close> (at least 1, at most 1000) of them, in order; the
  next position is given exactly when the page is full.
\<close>

theorem event_page_exact:
  assumes "reachable s" "t \<in> set (db_tasks (y_db s))" "0 \<le> after"
  shows "\<exists>page. FetchEvents (y_db s) (t_ID t) after limit = Inr page \<and>
    map ev_Seq (ep_Items page) = [after + 1..min (after + max 1 (min limit 1000)) (t_EventSeq t)] \<and>
    set (ep_Items page) \<subseteq> {e \<in> set (db_events (y_db s)). ev_TaskID e = t_ID t} \<and>
    ep_NextAfterSeq page = (if after + max 1 (min limit 1000) \<le> t_EventSeq t then Some (after + max 1 (min limit 1000)) else None)"
  using sys_invD(1) [OF reachable_inv [OF assms(1)]] by (intro FetchEvents_page [OF _ assms(2,3)]) (simp add: db_inv_def)

theorem event_page_exact_witness:
  "\<exists>page. FetchEvents d12 ''t'' 3 4 = Inr page \<and> map ev_Seq (ep_Items page) = [4, 5, 6, 7] \<and> ep_NextAfterSeq page = Some 7"
proof -
  obtain s where s: "reachable s" "y_db s = d12" using demo_run(4) by blast
  let ?t = "demo_task ''completed'' 4 10"
  have "?t \<in> set (db_tasks (y_db s))" "t_ID ?t = ''t''" "t_EventSeq ?t = 10" using s(2) by (simp_all add: demo_defs)
  with event_page_exact [OF s(1), of ?t 3 4] s(2) show ?thesis by (auto simp: upto.simps)
qed

text \<open>
  When the budget guard reports that the budget is exceeded, the task is left in a status in
  which it is not run (paused, blocked, queued or terminal), and its usage has reached the budget.
\<close>

theorem exceeded_budget_stops:
  assumes "reachable s" "Budget_Check env d0 (y_db s) rid = (Inl ErrBudgetExceeded, d, hs)" "e_begin env = None"
  shows "\<exists>t\<in>set (db_tasks d). t_ID t = rid \<and> t_Status t \<notin> {''running'', ''waiting_approval''} \<and>
    t_TokenBudget t \<le> TaskTokensUsed d rid"
  using reachable_shape [OF assms(1)] by (intro Budget_exceeded [OF _ assms(2,3)]) (simp add: shape_def)

theorem exceeded_budget_stops_witness:
  "\<exists>d. \<exists>t\<in>set (db_tasks d). t_ID t = ''t'' \<and> t_Status t \<notin> {''running'', ''waiting_approval''} \<and> t_TokenBudget t \<le> TaskTokensUsed d ''t''"
proof -
  obtain s where s: "reachable s" "y_db s = du" using at_du by blast
  obtain d hs where "Budget_Check (demo_env ''V'') du (y_db s) ''t'' = (Inl ErrBudgetExceeded, d, hs)"
    using du_exceeded s(2) by (metis prod.collapse)
  from exceeded_budget_stops [OF s(1) this] show ?thesis by (auto simp: demo_env_def)
qed

text \<open>
  A created project is read back exactly as it was given, with the name trimmed and the
  defaults filled in, and every other project is unchanged.
\<close>

theorem created_project_read_back:
  assumes "ProjectService_Create env d rid r = (Inr p, d', hs)"
  shows "FetchProject d' rid = Inr p \<and>
    p = \<lparr>p_ID = rid, p_Name = TrimSpace (cp_Name r), p_GithubOwner = cp_GithubOwner r, p_GithubRepo = cp_GithubRepo r,
       p_DefaultBranch = (if TrimSpace (cp_DefaultBranch r) = [] then ''main'' else TrimSpace (cp_DefaultBranch r)),
       p_InstallationID = cp_InstallationID r, p_ContextPath = ''.devsquad'', p_LocalPath = cp_LocalPath r, p_TokenBudget = 2000000\<rparr> \<and>
    (\<forall>other. other \<noteq> rid \<longrightarrow> FetchProject d' other = FetchProject d other)"
  using ProjectService_Create_Inr [OF assms] by blast

theorem created_project_read_back_witness:
  "\<exists>p. FetchProject d1 ''p'' = Inr p \<and> p_Name p = ''shop'' \<and> p_DefaultBranch p = ''main''"
proof -
  obtain hs where ok: "ProjectService_Create (demo_env ''A'') empty_db ''p'' demo_project = (Inr (ProjectEntity.truncate demo_row), d1, hs)"
    using d1_ok by (auto simp: d1_def prod_eq_iff)
  from created_project_read_back [OF ok] show ?thesis by (auto simp: demo_row_def ProjectEntity.truncate_def)
qed



end
